(* ===== verification/Prelude.thy ===== *)
theory Prelude
  imports Main "HOL-Library.Product_Lexorder" "HOL-Library.List_Lexorder" "HOL-Library.Char_ord"
begin

text \<open>
  The prelude of the development: the error-result combinator used wherever a Go function
  returns \<open>(value, error)\<close>, Go's fixed-width integer conversions, tables with a primary
  key (the shape of every PostgreSQL table of the ledger), and the generic facts on lists
  that the component theories share.
\<close>

named_theorems table_simps \<open>facts about keyed tables\<close>

named_theorems result_simps \<open>facts about chained results\<close>

section \<open>Results\<close>

text \<open>
  A Go function returning \<open>(T, error)\<close> is modelled by a sum: \<open>Inl\<close> is the error, \<open>Inr\<close>
  the value. \<open>rbind\<close> is the early return \<open>if err != nil { return err }\<close>.
\<close>

definition rbind :: "'e + 'a \<Rightarrow> ('a \<Rightarrow> 'e + 'b) \<Rightarrow> 'e + 'b" where
  "rbind m f = (case m of Inl e \<Rightarrow> Inl e | Inr a \<Rightarrow> f a)"

lemma rbind_Inl [simp]: "rbind (Inl e) f = Inl e"
  by (simp add: rbind_def)

lemma rbind_Inr [simp]: "rbind (Inr a) f = f a"
  by (simp add: rbind_def)

lemma rbind_eq_Inr [result_simps]:
  "rbind m f = Inr b \<longleftrightarrow> (\<exists>a. m = Inr a \<and> f a = Inr b)"
  by (cases m) auto

lemma rbind_eq_Inl [result_simps]:
  "rbind m f = Inl e \<longleftrightarrow> m = Inl e \<or> (\<exists>a. m = Inr a \<and> f a = Inl e)"
  by (cases m) auto

lemma rbind_cong [fundef_cong]:
  "m = m' \<Longrightarrow> (\<And>a. m' = Inr a \<Longrightarrow> f a = f' a) \<Longrightarrow> rbind m f = rbind m' f'"
  by (cases m') auto

definition is_ok :: "'e + 'a \<Rightarrow> bool" where
  "is_ok r = (case r of Inl _ \<Rightarrow> False | Inr _ \<Rightarrow> True)"

lemma is_ok_simps [simp]: "\<not> is_ok (Inl e)" "is_ok (Inr a)"
  by (simp_all add: is_ok_def)

section \<open>Go's fixed-width conversions\<close>

text \<open>
  A conversion \<open>int16(x)\<close> keeps the low 16 bits and reads them as two's complement; a
  \<open>uint64\<close> conversion keeps the low 64 bits.
\<close>

definition to_int16 :: "int \<Rightarrow> int" where
  "to_int16 n = (n + 2 ^ 15) mod 2 ^ 16 - 2 ^ 15"

definition to_int32 :: "int \<Rightarrow> int" where
  "to_int32 n = (n + 2 ^ 31) mod 2 ^ 32 - 2 ^ 31"

definition to_int64 :: "int \<Rightarrow> int" where
  "to_int64 n = (n + 2 ^ 63) mod 2 ^ 64 - 2 ^ 63"

definition in_int32 :: "int \<Rightarrow> bool" where
  "in_int32 n \<longleftrightarrow> - (2 ^ 31) \<le> n \<and> n < 2 ^ 31"

definition in_int64 :: "int \<Rightarrow> bool" where
  "in_int64 n \<longleftrightarrow> - (2 ^ 63) \<le> n \<and> n < 2 ^ 63"

lemma to_int16_id: "- (2 ^ 15) \<le> n \<Longrightarrow> n < 2 ^ 15 \<Longrightarrow> to_int16 n = n"
  by (simp add: to_int16_def)

lemma to_int32_id: "in_int32 n \<Longrightarrow> to_int32 n = n"
  by (simp add: to_int32_def in_int32_def)

lemma to_int64_id: "in_int64 n \<Longrightarrow> to_int64 n = n"
  by (simp add: to_int64_def in_int64_def)

lemma to_int64_range: "in_int64 (to_int64 n)"
  unfolding to_int64_def in_int64_def
  using pos_mod_bound [of "2 ^ 64" "n + 2 ^ 63"] pos_mod_sign [of "2 ^ 64" "n + 2 ^ 63"]
  by simp

section \<open>Decimal numerals\<close>

text \<open>\<open>strconv.FormatInt(n, 10)\<close> and the verb \<open>%d\<close>.\<close>

definition digit_char :: "nat \<Rightarrow> char" where
  "digit_char d = char_of (48 + d)"

fun show_nat :: "nat \<Rightarrow> string" where
  "show_nat n =
     (if n < 10 then [digit_char n] else show_nat (n div 10) @ [digit_char (n mod 10)])"

declare show_nat.simps [simp del]

definition show_int :: "int \<Rightarrow> string" where
  "show_int n = (if n < 0 then ''-'' @ show_nat (nat (- n)) else show_nat (nat n))"

lemma digit_char_inj: "d < 10 \<Longrightarrow> e < 10 \<Longrightarrow> digit_char d = digit_char e \<Longrightarrow> d = e"
  unfolding digit_char_def
  by (drule arg_cong [where f = "of_char :: char \<Rightarrow> nat"]) (simp add: take_bit_eq_mod)

lemma of_char_digit: "d < 10 \<Longrightarrow> of_char (digit_char d) = 48 + d"
  by (simp add: digit_char_def take_bit_eq_mod)

lemma show_nat_chars: "c \<in> set (show_nat n) \<Longrightarrow> (48 :: nat) \<le> of_char c \<and> of_char c \<le> (57 :: nat)"
proof (induction n rule: show_nat.induct)
  case (1 n)
  show ?case
  proof (cases "n < 10")
    case True
    with "1.prems" show ?thesis by (simp add: show_nat.simps [of n] of_char_digit)
  next
    case False
    with "1" show ?thesis by (auto simp: show_nat.simps [of n] of_char_digit)
  qed
qed

lemma show_nat_ne [simp]: "show_nat n \<noteq> []" "[] \<noteq> show_nat n"
  by (subst show_nat.simps, simp)+

lemma show_nat_inj: "show_nat m = show_nat n \<Longrightarrow> m = n"
proof (induction m arbitrary: n rule: show_nat.induct)
  case (1 m)
  show ?case
  proof (cases "m < 10"; cases "n < 10")
    assume "m < 10" "n < 10"
    with "1.prems" show ?thesis by (simp add: show_nat.simps [of m] show_nat.simps [of n] digit_char_inj)
  next
    assume "m < 10" "\<not> n < 10"
    with "1.prems" show ?thesis by (simp add: show_nat.simps [of m] show_nat.simps [of n])
  next
    assume "\<not> m < 10" "n < 10"
    with "1.prems" show ?thesis by (simp add: show_nat.simps [of m] show_nat.simps [of n])
  next
    assume m: "\<not> m < 10" and n: "\<not> n < 10"
    then have "show_nat (m div 10) = show_nat (n div 10)"
      and "digit_char (m mod 10) = digit_char (n mod 10)"
      using "1.prems" by (simp_all add: show_nat.simps [of m] show_nat.simps [of n])
    then have "m div 10 = n div 10" and "m mod 10 = n mod 10"
      using "1.IH" [OF m] digit_char_inj by auto
    then show ?thesis by (metis div_mult_mod_eq)
  qed
qed

lemma show_nat_no_sign: "show_nat n \<noteq> CHR ''-'' # xs"
  using show_nat_chars [of "CHR ''-''" n] by auto

lemma show_int_inj: "show_int m = show_int n \<Longrightarrow> m = n"
  by (auto simp: show_int_def show_nat_no_sign show_nat_no_sign [symmetric]
      dest!: show_nat_inj split: if_splits)

lemma show_int_no_colon: "CHR '':'' \<notin> set (show_int n)"
  using show_nat_chars [of "CHR '':''"] by (auto simp: show_int_def)

text \<open>Splitting at the first separator is unambiguous.\<close>

lemma append_sep_inj:
  assumes "x \<notin> set as" and "x \<notin> set bs" and "as @ x # cs = bs @ x # ds"
  shows "as = bs \<and> cs = ds"
  using assms
proof (induction as arbitrary: bs)
  case Nil
  then show ?case by (cases bs) auto
next
  case (Cons a as)
  then show ?case by (cases bs) auto
qed

section \<open>Lists\<close>

lemma distinct_map_filter: "distinct (map f xs) \<Longrightarrow> distinct (map f (filter P xs))"
  by (induction xs) auto

lemma find_eq_None: "find P xs = None \<longleftrightarrow> (\<forall>x\<in>set xs. \<not> P x)"
  by (induction xs) auto

lemma find_eq_SomeD: "find P xs = Some x \<Longrightarrow> x \<in> set xs \<and> P x"
  by (induction xs) (auto split: if_splits)

lemma sorted_map_take_drop:
  "sorted (map f xs) \<Longrightarrow> x \<in> set (take n xs) \<Longrightarrow> y \<in> set (drop n xs) \<Longrightarrow> f x \<le> f y"
  using sorted_append [of "map f (take n xs)" "map f (drop n xs)"]
  by (simp flip: map_append)

text \<open>
  The rows a query \<open>ORDER BY f LIMIT n\<close> leaves out are never before the ones it returns.
\<close>

lemma take_sort_key_least:
  assumes "x \<in> set (take n (sort_key f xs))" and "y \<in> set xs"
    and "y \<notin> set (take n (sort_key f xs))"
  shows "f x \<le> f y"
proof -
  have "y \<in> set (sort_key f xs)" using assms(2) by simp
  then have "y \<in> set (drop n (sort_key f xs))"
    using assms(3) by (metis Un_iff append_take_drop_id set_append)
  then show ?thesis
    using sorted_map_take_drop [OF sorted_sort_key assms(1)] by blast
qed

lemma set_take_sort_key: "set (take n (sort_key f xs)) \<subseteq> set xs"
  using set_take_subset [of n "sort_key f xs"] by simp

lemma distinct_take_sort_key:
  "distinct (map g xs) \<Longrightarrow> distinct (map g (take n (sort_key f xs)))"
proof -
  assume d: "distinct (map g xs)"
  have "distinct (map g (sort_key f xs))"
    using d by (simp add: distinct_map)
  then show "distinct (map g (take n (sort_key f xs)))"
    by (metis distinct_take take_map)
qed

section \<open>Tables with a primary key\<close>

text \<open>
  A table is the list of its rows; \<open>key\<close> reads a row's primary key. \<open>INSERT\<close> refuses a
  row that violates a \<open>CHECK\<close> constraint or repeats a key.
\<close>

datatype insert_error = CheckViolation | UniqueViolation

definition table_ids :: "('r \<Rightarrow> 'k) \<Rightarrow> 'r list \<Rightarrow> 'k set" where
  "table_ids key t = key ` set t"

definition table_find :: "('r \<Rightarrow> 'k) \<Rightarrow> 'k \<Rightarrow> 'r list \<Rightarrow> 'r option" where
  "table_find key k t = find (\<lambda>r. key r = k) t"

definition table_delete :: "('r \<Rightarrow> 'k) \<Rightarrow> 'k list \<Rightarrow> 'r list \<Rightarrow> 'r list" where
  "table_delete key ks t = filter (\<lambda>r. key r \<notin> set ks) t"

definition table_insert ::
  "('r \<Rightarrow> bool) \<Rightarrow> ('r \<Rightarrow> 'k) \<Rightarrow> 'r \<Rightarrow> 'r list \<Rightarrow> insert_error + 'r list" where
  "table_insert chk key r t =
     (if \<not> chk r then Inl CheckViolation
      else if key r \<in> key ` set t then Inl UniqueViolation
      else Inr (t @ [r]))"

text \<open>A multi-row \<open>INSERT\<close> fails as a whole if one of its rows fails.\<close>

fun table_insert_all ::
  "('r \<Rightarrow> bool) \<Rightarrow> ('r \<Rightarrow> 'k) \<Rightarrow> 'r list \<Rightarrow> 'r list \<Rightarrow> insert_error + 'r list" where
  "table_insert_all chk key [] t = Inr t"
| "table_insert_all chk key (r # rs) t =
     rbind (table_insert chk key r t) (table_insert_all chk key rs)"

lemma table_insert_Inr [table_simps]:
  "table_insert chk key r t = Inr t' \<longleftrightarrow>
     chk r \<and> key r \<notin> table_ids key t \<and> t' = t @ [r]"
  by (auto simp: table_insert_def table_ids_def)

lemma table_insert_all_Inr [table_simps]:
  "table_insert_all chk key rs t = Inr t' \<longleftrightarrow>
     (\<forall>r\<in>set rs. chk r) \<and> distinct (map key rs) \<and>
     set (map key rs) \<inter> table_ids key t = {} \<and> t' = t @ rs"
  by (induction rs arbitrary: t) (auto simp: result_simps table_simps table_ids_def)

lemma table_ids_Nil [simp]: "table_ids key [] = {}"
  by (simp add: table_ids_def)

lemma table_ids_append [simp]: "table_ids key (t @ u) = table_ids key t \<union> table_ids key u"
  by (auto simp: table_ids_def)

lemma table_ids_Cons [simp]: "table_ids key (r # t) = insert (key r) (table_ids key t)"
  by (auto simp: table_ids_def)

lemma table_ids_delete [simp]:
  "table_ids key (table_delete key ks t) = table_ids key t - set ks"
  by (auto simp: table_ids_def table_delete_def)

lemma distinct_delete [simp]:
  "distinct (map key t) \<Longrightarrow> distinct (map key (table_delete key ks t))"
  by (simp add: table_delete_def distinct_map_filter)

lemma set_table_delete: "set (table_delete key ks t) \<subseteq> set t"
  by (auto simp: table_delete_def)

lemma table_find_None: "table_find key k t = None \<longleftrightarrow> k \<notin> table_ids key t"
  by (auto simp: table_find_def table_ids_def find_eq_None)

lemma table_find_SomeD: "table_find key k t = Some r \<Longrightarrow> r \<in> set t \<and> key r = k"
  by (auto simp: table_find_def dest: find_eq_SomeD)

lemma table_find_Some_ids: "table_find key k t = Some r \<Longrightarrow> k \<in> table_ids key t"
  by (auto simp: table_ids_def dest!: table_find_SomeD)

lemma table_find_in:
  "distinct (map key t) \<Longrightarrow> r \<in> set t \<Longrightarrow> table_find key (key r) t = Some r"
  by (induction t) (auto simp: table_find_def image_iff)

lemma table_find_append:
  "table_find key k (t @ u) =
     (case table_find key k t of None \<Rightarrow> table_find key k u | Some r \<Rightarrow> Some r)"
  by (induction t) (auto simp: table_find_def)

lemma table_find_delete:
  "table_find key k (table_delete key ks t) = (if k \<in> set ks then None else table_find key k t)"
  by (induction t) (auto simp: table_find_def table_delete_def)

lemma table_find_Cons:
  "table_find key k (r # t) = (if key r = k then Some r else table_find key k t)"
  by (simp add: table_find_def)

lemma table_find_Nil [simp]: "table_find key k [] = None"
  by (simp add: table_find_def)

section \<open>Strings\<close>

text \<open>\<open>strings.Split\<close> at one character.\<close>

fun split_on :: "char \<Rightarrow> string \<Rightarrow> string list" where
  "split_on x [] = [[]]"
| "split_on x (c # cs) =
     (if c = x then [] # split_on x cs
      else (case split_on x cs of [] \<Rightarrow> [[c]] | s # ss \<Rightarrow> (c # s) # ss))"

lemma split_on_ne [simp]: "split_on x s \<noteq> []"
  by (induction s) (auto split: list.splits)

lemma split_on_append: "split_on x (s @ x # t) = split_on x s @ split_on x t"
  by (induction s) (auto split: list.splits)

lemma split_on_single: "x \<notin> set s \<Longrightarrow> split_on x s = [s]"
  by (induction s) auto

section \<open>Decimal integers\<close>

definition digit_value :: "char \<Rightarrow> nat" where
  "digit_value c = of_char c - 48"

definition is_dec :: "char \<Rightarrow> bool" where
  "is_dec c \<longleftrightarrow> (48 :: nat) \<le> of_char c \<and> of_char c \<le> (57 :: nat)"

definition dec_value :: "string \<Rightarrow> nat" where
  "dec_value s = foldl (\<lambda>n c. 10 * n + digit_value c) 0 s"

text \<open>\<open>strconv.ParseInt(s, 10, 64)\<close>.\<close>

definition parse_int64 :: "string \<Rightarrow> int option" where
  "parse_int64 s =
     (let (neg, ds) = (case s of
            c # cs \<Rightarrow> if c = CHR ''-'' then (True, cs) else if c = CHR ''+'' then (False, cs) else (False, s)
          | [] \<Rightarrow> (False, []));
          n = (if neg then - int (dec_value ds) else int (dec_value ds))
      in if ds = '''' \<or> \<not> list_all is_dec ds \<or> \<not> in_int64 n then None else Some n)"

lemma dec_value_snoc: "dec_value (s @ [c]) = 10 * dec_value s + digit_value c"
  by (simp add: dec_value_def)

lemma dec_value_show: "dec_value (show_nat n) = n \<and> list_all is_dec (show_nat n)"
proof (induction n rule: show_nat.induct)
  case (1 n)
  have c: "digit_value (digit_char (n mod 10)) = n mod 10" "is_dec (digit_char (n mod 10))"
    using of_char_digit [of "n mod 10"] by (simp_all add: digit_value_def is_dec_def)
  show ?case
  proof (cases "n < 10")
    case True
    then show ?thesis using c by (simp add: show_nat.simps [of n] dec_value_def)
  next
    case False
    then show ?thesis using 1 c by (simp add: show_nat.simps [of n] dec_value_snoc)
  qed
qed

lemma parse_show [simp]:
  assumes "in_int64 n"
  shows "parse_int64 (show_int n) = Some n"
proof (cases "n < 0")
  case True
  then show ?thesis
    using assms dec_value_show [of "nat (- n)"] by (simp add: parse_int64_def show_int_def)
next
  case False
  obtain c cs where s: "show_nat (nat n) = c # cs" by (cases "show_nat (nat n)") auto
  have "is_dec c" using dec_value_show [of "nat n"] s by simp
  then have "c \<noteq> CHR ''-''" "c \<noteq> CHR ''+''" by (auto simp: is_dec_def)
  then show ?thesis
    using False assms dec_value_show [of "nat n"] by (simp add: parse_int64_def show_int_def s)
qed

lemma show_int_ne [simp]: "show_int n \<noteq> ''''"
  by (simp add: show_int_def)

end
