(* ===== verification/Schema.thy ===== *)
theory Schema
  imports Prelude
begin

text \<open>
  The data model of \<open>internal/domain/schema\<close> and \<open>internal/domain/repository\<close>: JSON
  values (the content of the \<open>jsonb\<close> columns), the enumerations and value ranges, and one
  record per ledger table. Columns of type \<open>json.RawMessage\<close> are \<open>json option\<close>: \<open>None\<close>
  is the empty byte slice (SQL \<open>NULL\<close>). A \<open>time.Time\<close> is an \<open>int\<close>, nanoseconds since
  Go's zero time, so that \<open>IsZero\<close> is comparison with 0.
\<close>

section \<open>JSON values\<close>

text \<open>
  Numbers are split by what \<open>encoding/json\<close> can store in a Go integer: an integer literal
  or any other literal.
\<close>

datatype json =
    JNull
  | JBool bool
  | JInt int
  | JFrac string
  | JStr string
  | JArr "json list"
  | JObj "(string \<times> json) list"

type_synonym raw = "json option"
type_synonym gotime = int

definition is_zero_time :: "gotime \<Rightarrow> bool" where
  "is_zero_time t \<longleftrightarrow> t = 0"

text \<open>The Unix epoch on this time line, and \<open>Time.UnixMilli\<close>, which rounds down.\<close>

definition unix_epoch :: gotime where
  "unix_epoch = 62135596800 * 10 ^ 9"

definition unix_milli :: "gotime \<Rightarrow> int" where
  "unix_milli t = (t - unix_epoch) div 10 ^ 6"

definition time_of_milli :: "int \<Rightarrow> gotime" where
  "time_of_milli ms = unix_epoch + ms * 10 ^ 6"

lemma unix_milli_time_of_milli [simp]: "unix_milli (time_of_milli ms) = ms"
  by (simp add: unix_milli_def time_of_milli_def)

section \<open>Enumerations and ranges (enums.go)\<close>

definition min_priority :: int where
  "min_priority = 0"

definition max_priority :: int where
  "max_priority = 100"

definition default_priority :: int where
  "default_priority = 50"

definition priority_check :: "int \<Rightarrow> bool" where
  "priority_check p \<longleftrightarrow> p \<ge> 0 \<and> p \<le> 100"

definition bucket_check :: "int \<Rightarrow> bool" where
  "bucket_check b \<longleftrightarrow> b \<ge> 0 \<and> b \<le> 255"

datatype priority_band = BandLow | BandNormal | BandHigh

definition band_of :: "int \<Rightarrow> priority_band" where
  "band_of p = (if p \<le> 33 then BandLow else if p \<le> 66 then BandNormal else BandHigh)"

text \<open>Bands are ordered as the priorities they cover.\<close>

primrec band_rank :: "priority_band \<Rightarrow> nat" where
  "band_rank BandLow = 0"
| "band_rank BandNormal = 1"
| "band_rank BandHigh = 2"

instantiation priority_band :: linorder
begin

definition less_eq_priority_band :: "priority_band \<Rightarrow> priority_band \<Rightarrow> bool" where
  "less_eq_priority_band a b \<longleftrightarrow> band_rank a \<le> band_rank b"

definition less_priority_band :: "priority_band \<Rightarrow> priority_band \<Rightarrow> bool" where
  "less_priority_band a b \<longleftrightarrow> band_rank a < band_rank b"

instance
proof
  fix a b :: priority_band
  show "a \<le> b \<Longrightarrow> b \<le> a \<Longrightarrow> a = b"
    by (cases a; cases b) (simp_all add: less_eq_priority_band_def)
qed (auto simp: less_eq_priority_band_def less_priority_band_def)

end

lemma band_of_mono: "p \<le> q \<Longrightarrow> band_of p \<le> band_of q"
  by (simp add: band_of_def less_eq_priority_band_def)

datatype outcome = OutcomeUnset | OutcomeSucceeded | OutcomeFailed | OutcomeDead

primrec outcome_code :: "outcome \<Rightarrow> int" where
  "outcome_code OutcomeUnset = 0"
| "outcome_code OutcomeSucceeded = 1"
| "outcome_code OutcomeFailed = 2"
| "outcome_code OutcomeDead = 3"

primrec outcome_string :: "outcome \<Rightarrow> string" where
  "outcome_string OutcomeSucceeded = ''succeeded''"
| "outcome_string OutcomeFailed = ''failed''"
| "outcome_string OutcomeDead = ''dead''"
| "outcome_string OutcomeUnset = ''unset''"

lemma outcome_code_inj: "outcome_code a = outcome_code b \<Longrightarrow> a = b"
  by (cases a; cases b) simp_all

section \<open>Rows\<close>

text \<open>The 19 columns the four stage tables share.\<close>

record task_row =
  task_id :: int
  task_type :: string
  operator :: string
  priority :: int
  task_channel :: string
  timeout_ms :: int
  max_attempts :: int
  idempotency_key :: string
  callback :: raw
  parent_task_id :: int
  vpc :: string
  node :: string
  label :: string
  biz_race_labels :: "string list"
  biz_race_entry :: string
  biz_group :: string
  biz_batch_id :: string
  created_at :: gotime
  updated_at :: gotime

text \<open>\<open>task_pendings\<close>.\<close>

record pending = task_row +
  hash_bucket :: int

text \<open>\<open>task_schedulables\<close> and \<open>task_processings\<close> have the same columns.\<close>

record claimable = pending +
  attempts :: int
  claimed_node :: string

text \<open>\<open>task_completeds\<close> has no \<open>hash_bucket\<close>.\<close>

record completed = task_row +
  final_attempts :: int
  final_node :: string
  final_error :: string
  final_outcome :: outcome
  completed_at :: gotime

record payload_row =
  payload_task :: int
  payload_json :: json
  payload_created :: gotime

record result_row =
  result_task :: int
  result_outcome :: outcome
  result_attempt :: int
  result_payload :: raw
  result_json :: raw
  result_error :: string
  result_completed :: gotime

record identity_row =
  identity_task :: int
  identity_key :: string
  identity_created :: gotime

text \<open>The \<open>CHECK\<close> constraints of the tables and the \<open>NotEmpty\<close> validator of \<open>channel\<close>.\<close>

definition pending_check :: "pending \<Rightarrow> bool" where
  "pending_check p \<longleftrightarrow> priority_check (priority p) \<and> bucket_check (hash_bucket p)"

definition claimable_check :: "claimable \<Rightarrow> bool" where
  "claimable_check p \<longleftrightarrow> priority_check (priority p) \<and> bucket_check (hash_bucket p)"

definition completed_check :: "completed \<Rightarrow> bool" where
  "completed_check p \<longleftrightarrow> priority_check (priority p)"

definition valid_channel :: "string \<Rightarrow> bool" where
  "valid_channel c \<longleftrightarrow> c \<noteq> ''''"

section \<open>Requests and results of the store (repository/store.go)\<close>

record enqueue_request =
  eq_task_id :: int
  eq_type :: string
  eq_operator :: string
  eq_priority :: int
  eq_channel :: string
  eq_timeout_ms :: int
  eq_max_attempts :: int
  eq_idempotency_key :: string
  eq_callback :: raw
  eq_parent_task_id :: int
  eq_vpc :: string
  eq_node :: string
  eq_label :: string
  eq_hash_bucket :: int
  eq_biz_race_labels :: "string list"
  eq_biz_race_entry :: string
  eq_biz_group :: string
  eq_biz_batch_id :: string
  eq_payload :: raw
  eq_created_at :: gotime
  eq_updated_at :: gotime

record enqueue_result =
  er_task_id :: int
  er_created :: bool

record complete_request =
  cr_task_id :: int
  cr_attempt :: int
  cr_outcome :: outcome
  cr_result :: raw
  cr_error :: string
  cr_completed_at :: gotime

record batch_progress =
  bp_completed :: int
  bp_in_flight :: int

end
