(* ===== verification/Callback.thy ===== *)
theory Callback
  imports Schema
begin

text \<open>
  Callback specifications (\<open>internal/domain/callback.go\<close>): the \<open>OnSuccess\<close>/\<open>OnError\<close>
  tasks a terminal outcome derives, their JSON form in the \<open>callback\<close> column, and the
  decoding of that column as \<open>encoding/json\<close> performs it on the two structs.
\<close>

section \<open>The specification\<close>

datatype callback_spec = CallbackSpec (on_success: "callback_task option")
    (on_error: "callback_task option")
  and callback_task = CallbackTask
    (cb_type: string)
    (cb_operator: string)
    (cb_priority: int)
    (cb_channel: string)
    (cb_vpc: string)
    (cb_node: string)
    (cb_label: string)
    (cb_hash_bucket: int)
    (cb_timeout_ms: int)
    (cb_max_attempts: int)
    (cb_idempotency_key: string)
    (cb_payload: raw)
    (cb_callback: "callback_spec option")
    (cb_race_labels: "string list")
    (cb_race_entry: string)
    (cb_group: string)
    (cb_batch_id: string)

definition max_callback_depth :: nat where
  "max_callback_depth = 8"

text \<open>The zero values of the two structs.\<close>

definition zero_spec :: callback_spec where
  "zero_spec = CallbackSpec None None"

definition zero_task :: callback_task where
  "zero_task = CallbackTask '''' '''' 0 '''' '''' '''' '''' 0 0 0 '''' None None [] '''' '''' ''''"

definition derive :: "callback_spec option \<Rightarrow> bool \<Rightarrow> callback_task option" where
  "derive s succeeded =
     (case s of None \<Rightarrow> None
      | Some spec \<Rightarrow> if succeeded then on_success spec else on_error spec)"

definition validate :: "callback_spec option \<Rightarrow> bool" where
  "validate s =
     (case s of None \<Rightarrow> True
      | Some spec \<Rightarrow>
          list_all (\<lambda>t. case t of None \<Rightarrow> True | Some u \<Rightarrow> cb_type u \<noteq> '''')
            [on_success spec, on_error spec])"

section \<open>Encoding\<close>

text \<open>
  \<open>json.Marshal\<close> of the structs, field by field in declaration order; \<open>omitempty\<close> drops
  zero values. \<open>type\<close> has no \<open>omitempty\<close>.
\<close>

definition opt_str :: "string \<Rightarrow> string \<Rightarrow> (string \<times> json) list" where
  "opt_str k s = (if s = '''' then [] else [(k, JStr s)])"

definition opt_int :: "string \<Rightarrow> int \<Rightarrow> (string \<times> json) list" where
  "opt_int k n = (if n = 0 then [] else [(k, JInt n)])"

definition opt_raw :: "string \<Rightarrow> raw \<Rightarrow> (string \<times> json) list" where
  "opt_raw k r = (case r of None \<Rightarrow> [] | Some j \<Rightarrow> [(k, j)])"

definition opt_strs :: "string \<Rightarrow> string list \<Rightarrow> (string \<times> json) list" where
  "opt_strs k ss = (if ss = [] then [] else [(k, JArr (map JStr ss))])"

fun enc_spec :: "callback_spec \<Rightarrow> json"
  and enc_task :: "callback_task \<Rightarrow> json"
where
  "enc_spec (CallbackSpec s e) =
     JObj ((case s of None \<Rightarrow> [] | Some t \<Rightarrow> [(''on_success'', enc_task t)])
         @ (case e of None \<Rightarrow> [] | Some t \<Rightarrow> [(''on_error'', enc_task t)]))"
| "enc_task (CallbackTask ty op pr ch vp nd lb hb tm ma ik pl cb rl re gr ba) =
     JObj ([(''type'', JStr ty)]
         @ opt_str ''operator'' op
         @ opt_int ''priority'' pr
         @ opt_str ''channel'' ch
         @ opt_str ''vpc'' vp
         @ opt_str ''node'' nd
         @ opt_str ''label'' lb
         @ opt_int ''hash_bucket'' hb
         @ opt_int ''timeout_ms'' tm
         @ opt_int ''max_attempts'' ma
         @ opt_str ''idempotency_key'' ik
         @ opt_raw ''payload'' pl
         @ (case cb of None \<Rightarrow> [] | Some s \<Rightarrow> [(''callback'', enc_spec s)])
         @ opt_strs ''biz_race_labels'' rl
         @ opt_str ''biz_race_entry'' re
         @ opt_str ''biz_group'' gr
         @ opt_str ''biz_batch_id'' ba)"

text \<open>\<open>MarshalCallback\<close>: a nil specification is the empty byte slice.\<close>

definition marshal_callback :: "callback_spec option \<Rightarrow> raw" where
  "marshal_callback s = map_option enc_spec s"

section \<open>Decoding\<close>

text \<open>
  Decoding starts from the struct's current value and assigns member by member, in order;
  unknown members are skipped, member names match without regard to ASCII case, a JSON
  \<open>null\<close> clears a pointer or a slice and leaves a plain field as it is, and a value of the
  wrong kind or out of the field's integer range makes the whole call an error (\<open>None\<close>).
\<close>

definition lower_char :: "char \<Rightarrow> char" where
  "lower_char c =
     (let n = (of_char c :: nat) in if 65 \<le> n \<and> n \<le> 90 then char_of (n + 32) else c)"

definition fold_name :: "string \<Rightarrow> string" where
  "fold_name s = map lower_char s"

definition dec_str :: "json \<Rightarrow> string \<Rightarrow> string option" where
  "dec_str j cur = (case j of JStr s \<Rightarrow> Some s | JNull \<Rightarrow> Some cur | _ \<Rightarrow> None)"

definition dec_int :: "(int \<Rightarrow> bool) \<Rightarrow> json \<Rightarrow> int \<Rightarrow> int option" where
  "dec_int rng j cur =
     (case j of JInt n \<Rightarrow> if rng n then Some n else None | JNull \<Rightarrow> Some cur | _ \<Rightarrow> None)"

fun dec_str_list :: "json list \<Rightarrow> string list option" where
  "dec_str_list [] = Some []"
| "dec_str_list (j # js) =
     Option.bind (dec_str j '''') (\<lambda>s. map_option (Cons s) (dec_str_list js))"

definition dec_strs :: "json \<Rightarrow> string list option" where
  "dec_strs j = (case j of JArr js \<Rightarrow> dec_str_list js | JNull \<Rightarrow> Some [] | _ \<Rightarrow> None)"

text \<open>The fields of a task that hold no nested specification.\<close>

definition dec_field :: "string \<Rightarrow> json \<Rightarrow> callback_task \<Rightarrow> callback_task option" where
  "dec_field k j t =
     (case t of CallbackTask ty op pr ch vp nd lb hb tm ma ik pl cb rl re gr ba \<Rightarrow>
       if k = ''type'' then map_option (\<lambda>x. CallbackTask x op pr ch vp nd lb hb tm ma ik pl cb rl re gr ba) (dec_str j ty)
       else if k = ''operator'' then map_option (\<lambda>x. CallbackTask ty x pr ch vp nd lb hb tm ma ik pl cb rl re gr ba) (dec_str j op)
       else if k = ''priority'' then map_option (\<lambda>x. CallbackTask ty op x ch vp nd lb hb tm ma ik pl cb rl re gr ba) (dec_int in_int32 j pr)
       else if k = ''channel'' then map_option (\<lambda>x. CallbackTask ty op pr x vp nd lb hb tm ma ik pl cb rl re gr ba) (dec_str j ch)
       else if k = ''vpc'' then map_option (\<lambda>x. CallbackTask ty op pr ch x nd lb hb tm ma ik pl cb rl re gr ba) (dec_str j vp)
       else if k = ''node'' then map_option (\<lambda>x. CallbackTask ty op pr ch vp x lb hb tm ma ik pl cb rl re gr ba) (dec_str j nd)
       else if k = ''label'' then map_option (\<lambda>x. CallbackTask ty op pr ch vp nd x hb tm ma ik pl cb rl re gr ba) (dec_str j lb)
       else if k = ''hash_bucket'' then map_option (\<lambda>x. CallbackTask ty op pr ch vp nd lb x tm ma ik pl cb rl re gr ba) (dec_int in_int32 j hb)
       else if k = ''timeout_ms'' then map_option (\<lambda>x. CallbackTask ty op pr ch vp nd lb hb x ma ik pl cb rl re gr ba) (dec_int in_int64 j tm)
       else if k = ''max_attempts'' then map_option (\<lambda>x. CallbackTask ty op pr ch vp nd lb hb tm x ik pl cb rl re gr ba) (dec_int in_int32 j ma)
       else if k = ''idempotency_key'' then map_option (\<lambda>x. CallbackTask ty op pr ch vp nd lb hb tm ma x pl cb rl re gr ba) (dec_str j ik)
       else if k = ''payload'' then Some (CallbackTask ty op pr ch vp nd lb hb tm ma ik (Some j) cb rl re gr ba)
       else if k = ''biz_race_labels'' then map_option (\<lambda>x. CallbackTask ty op pr ch vp nd lb hb tm ma ik pl cb x re gr ba) (dec_strs j)
       else if k = ''biz_race_entry'' then map_option (\<lambda>x. CallbackTask ty op pr ch vp nd lb hb tm ma ik pl cb rl x gr ba) (dec_str j re)
       else if k = ''biz_group'' then map_option (\<lambda>x. CallbackTask ty op pr ch vp nd lb hb tm ma ik pl cb rl re x ba) (dec_str j gr)
       else if k = ''biz_batch_id'' then map_option (\<lambda>x. CallbackTask ty op pr ch vp nd lb hb tm ma ik pl cb rl re gr x) (dec_str j ba)
       else Some t)"

definition set_cb_callback :: "callback_spec option \<Rightarrow> callback_task \<Rightarrow> callback_task" where
  "set_cb_callback c t =
     (case t of CallbackTask ty op pr ch vp nd lb hb tm ma ik pl cb rl re gr ba \<Rightarrow>
        CallbackTask ty op pr ch vp nd lb hb tm ma ik pl c rl re gr ba)"

fun dec_spec :: "json \<Rightarrow> callback_spec \<Rightarrow> callback_spec option"
  and dec_spec_members :: "(string \<times> json) list \<Rightarrow> callback_spec \<Rightarrow> callback_spec option"
  and dec_task :: "json \<Rightarrow> callback_task \<Rightarrow> callback_task option"
  and dec_task_members :: "(string \<times> json) list \<Rightarrow> callback_task \<Rightarrow> callback_task option"
where
  "dec_spec (JObj ms) cur = dec_spec_members ms cur"
| "dec_spec JNull cur = Some cur"
| "dec_spec j cur = None"
| "dec_spec_members [] cur = Some cur"
| "dec_spec_members ((k, j) # ms) cur =
     (if fold_name k = ''on_success'' then
        (if j = JNull then dec_spec_members ms (CallbackSpec None (on_error cur))
         else Option.bind (dec_task j (case on_success cur of None \<Rightarrow> zero_task | Some t \<Rightarrow> t))
                (\<lambda>t. dec_spec_members ms (CallbackSpec (Some t) (on_error cur))))
      else if fold_name k = ''on_error'' then
        (if j = JNull then dec_spec_members ms (CallbackSpec (on_success cur) None)
         else Option.bind (dec_task j (case on_error cur of None \<Rightarrow> zero_task | Some t \<Rightarrow> t))
                (\<lambda>t. dec_spec_members ms (CallbackSpec (on_success cur) (Some t))))
      else dec_spec_members ms cur)"
| "dec_task (JObj ms) cur = dec_task_members ms cur"
| "dec_task JNull cur = Some cur"
| "dec_task j cur = None"
| "dec_task_members [] cur = Some cur"
| "dec_task_members ((k, j) # ms) cur =
     (if fold_name k = ''callback'' then
        (if j = JNull then dec_task_members ms (set_cb_callback None cur)
         else Option.bind (dec_spec j (case cb_callback cur of None \<Rightarrow> zero_spec | Some s \<Rightarrow> s))
                (\<lambda>s. dec_task_members ms (set_cb_callback (Some s) cur)))
      else Option.bind (dec_field (fold_name k) j cur) (dec_task_members ms))"

text \<open>
  \<open>UnmarshalCallback\<close>: an empty slice, \<open>null\<close>, and a specification with neither branch
  are all a nil specification; \<open>Inl ()\<close> is a decoding error.
\<close>

definition unmarshal_callback :: "raw \<Rightarrow> unit + callback_spec option" where
  "unmarshal_callback r =
     (case r of None \<Rightarrow> Inr None
      | Some j \<Rightarrow>
          if j = JNull then Inr None
          else (case dec_spec j zero_spec of
              None \<Rightarrow> Inl ()
            | Some spec \<Rightarrow>
                if on_success spec = None \<and> on_error spec = None then Inr None
                else Inr (Some spec)))"

section \<open>Round trip\<close>

text \<open>What a specification must satisfy to be storable: its integers fit the Go fields.\<close>

fun wf_spec :: "callback_spec \<Rightarrow> bool"
  and wf_task :: "callback_task \<Rightarrow> bool"
where
  "wf_spec (CallbackSpec s e) =
     ((case s of None \<Rightarrow> True | Some t \<Rightarrow> wf_task t) \<and> (case e of None \<Rightarrow> True | Some t \<Rightarrow> wf_task t))"
| "wf_task (CallbackTask ty op pr ch vp nd lb hb tm ma ik pl cb rl re gr ba) =
     (in_int32 pr \<and> in_int32 hb \<and> in_int64 tm \<and> in_int32 ma \<and>
      (case cb of None \<Rightarrow> True | Some s \<Rightarrow> wf_spec s))"

lemma fold_names [simp]:
  "fold_name ''on_success'' = ''on_success''"
  "fold_name ''on_error'' = ''on_error''"
  "fold_name ''type'' = ''type''"
  "fold_name ''operator'' = ''operator''"
  "fold_name ''priority'' = ''priority''"
  "fold_name ''channel'' = ''channel''"
  "fold_name ''vpc'' = ''vpc''"
  "fold_name ''node'' = ''node''"
  "fold_name ''label'' = ''label''"
  "fold_name ''hash_bucket'' = ''hash_bucket''"
  "fold_name ''timeout_ms'' = ''timeout_ms''"
  "fold_name ''max_attempts'' = ''max_attempts''"
  "fold_name ''idempotency_key'' = ''idempotency_key''"
  "fold_name ''payload'' = ''payload''"
  "fold_name ''callback'' = ''callback''"
  "fold_name ''biz_race_labels'' = ''biz_race_labels''"
  "fold_name ''biz_race_entry'' = ''biz_race_entry''"
  "fold_name ''biz_group'' = ''biz_group''"
  "fold_name ''biz_batch_id'' = ''biz_batch_id''"
  by (simp_all add: fold_name_def lower_char_def Let_def)

lemma dec_task_members_append:
  "dec_task_members (xs @ ys) cur =
     Option.bind (dec_task_members xs cur) (dec_task_members ys)"
proof (induction xs arbitrary: cur)
  case Nil
  then show ?case by simp
next
  case (Cons x xs)
  obtain k j where "x = (k, j)" by fastforce
  then show ?case using Cons by (simp split: bind_splits)
qed

lemma dec_str_list_map [simp]: "dec_str_list (map JStr ss) = Some ss"
  by (induction ss) (simp_all add: dec_str_def)

lemma dec_task_strings:
  "dec_task_members [(''type'', JStr ty)] (CallbackTask '''' op pr ch vp nd lb hb tm ma ik pl cb rl re gr ba) = Some (CallbackTask ty op pr ch vp nd lb hb tm ma ik pl cb rl re gr ba)"
  "dec_task_members (opt_str ''operator'' op) (CallbackTask ty '''' pr ch vp nd lb hb tm ma ik pl cb rl re gr ba) = Some (CallbackTask ty op pr ch vp nd lb hb tm ma ik pl cb rl re gr ba)"
  "dec_task_members (opt_str ''channel'' ch) (CallbackTask ty op pr '''' vp nd lb hb tm ma ik pl cb rl re gr ba) = Some (CallbackTask ty op pr ch vp nd lb hb tm ma ik pl cb rl re gr ba)"
  "dec_task_members (opt_str ''vpc'' vp) (CallbackTask ty op pr ch '''' nd lb hb tm ma ik pl cb rl re gr ba) = Some (CallbackTask ty op pr ch vp nd lb hb tm ma ik pl cb rl re gr ba)"
  "dec_task_members (opt_str ''node'' nd) (CallbackTask ty op pr ch vp '''' lb hb tm ma ik pl cb rl re gr ba) = Some (CallbackTask ty op pr ch vp nd lb hb tm ma ik pl cb rl re gr ba)"
  "dec_task_members (opt_str ''label'' lb) (CallbackTask ty op pr ch vp nd '''' hb tm ma ik pl cb rl re gr ba) = Some (CallbackTask ty op pr ch vp nd lb hb tm ma ik pl cb rl re gr ba)"
  "dec_task_members (opt_str ''idempotency_key'' ik) (CallbackTask ty op pr ch vp nd lb hb tm ma '''' pl cb rl re gr ba) = Some (CallbackTask ty op pr ch vp nd lb hb tm ma ik pl cb rl re gr ba)"
  "dec_task_members (opt_str ''biz_race_entry'' re) (CallbackTask ty op pr ch vp nd lb hb tm ma ik pl cb rl '''' gr ba) = Some (CallbackTask ty op pr ch vp nd lb hb tm ma ik pl cb rl re gr ba)"
  "dec_task_members (opt_str ''biz_group'' gr) (CallbackTask ty op pr ch vp nd lb hb tm ma ik pl cb rl re '''' ba) = Some (CallbackTask ty op pr ch vp nd lb hb tm ma ik pl cb rl re gr ba)"
  "dec_task_members (opt_str ''biz_batch_id'' ba) (CallbackTask ty op pr ch vp nd lb hb tm ma ik pl cb rl re gr '''') = Some (CallbackTask ty op pr ch vp nd lb hb tm ma ik pl cb rl re gr ba)"
  by (simp_all add: opt_str_def dec_field_def dec_str_def)

lemma dec_task_ints:
  "in_int32 pr \<Longrightarrow> dec_task_members (opt_int ''priority'' pr) (CallbackTask ty op 0 ch vp nd lb hb tm ma ik pl cb rl re gr ba) = Some (CallbackTask ty op pr ch vp nd lb hb tm ma ik pl cb rl re gr ba)"
  "in_int32 hb \<Longrightarrow> dec_task_members (opt_int ''hash_bucket'' hb) (CallbackTask ty op pr ch vp nd lb 0 tm ma ik pl cb rl re gr ba) = Some (CallbackTask ty op pr ch vp nd lb hb tm ma ik pl cb rl re gr ba)"
  "in_int64 tm \<Longrightarrow> dec_task_members (opt_int ''timeout_ms'' tm) (CallbackTask ty op pr ch vp nd lb hb 0 ma ik pl cb rl re gr ba) = Some (CallbackTask ty op pr ch vp nd lb hb tm ma ik pl cb rl re gr ba)"
  "in_int32 ma \<Longrightarrow> dec_task_members (opt_int ''max_attempts'' ma) (CallbackTask ty op pr ch vp nd lb hb tm 0 ik pl cb rl re gr ba) = Some (CallbackTask ty op pr ch vp nd lb hb tm ma ik pl cb rl re gr ba)"
  by (simp_all add: opt_int_def dec_field_def dec_int_def)

lemma dec_task_payload:
  "dec_task_members (opt_raw ''payload'' pl)
     (CallbackTask ty op pr ch vp nd lb hb tm ma ik None cb rl re gr ba) =
   Some (CallbackTask ty op pr ch vp nd lb hb tm ma ik pl cb rl re gr ba)"
  by (cases pl) (simp_all add: opt_raw_def dec_field_def)

lemma dec_task_race_labels:
  "dec_task_members (opt_strs ''biz_race_labels'' rl)
     (CallbackTask ty op pr ch vp nd lb hb tm ma ik pl cb [] re gr ba) =
   Some (CallbackTask ty op pr ch vp nd lb hb tm ma ik pl cb rl re gr ba)"
  by (simp add: opt_strs_def dec_field_def dec_strs_def)

lemma enc_task_not_null [simp]: "enc_task t \<noteq> JNull"
  by (cases t) simp

lemma enc_spec_not_null [simp]: "enc_spec s \<noteq> JNull"
  by (cases s) simp

lemma dec_task_callback:
  assumes "\<And>s. cb = Some s \<Longrightarrow> dec_spec (enc_spec s) zero_spec = Some s"
  shows "dec_task_members (case cb of None \<Rightarrow> [] | Some s \<Rightarrow> [(''callback'', enc_spec s)])
     (CallbackTask ty op pr ch vp nd lb hb tm ma ik pl None rl re gr ba) =
   Some (CallbackTask ty op pr ch vp nd lb hb tm ma ik pl cb rl re gr ba)"
  using assms by (cases cb) (simp_all add: set_cb_callback_def)

lemma dec_enc_task_step:
  assumes "in_int32 pr" and "in_int32 hb" and "in_int64 tm" and "in_int32 ma"
    and "\<And>s. cb = Some s \<Longrightarrow> dec_spec (enc_spec s) zero_spec = Some s"
  shows "dec_task (enc_task (CallbackTask ty op pr ch vp nd lb hb tm ma ik pl cb rl re gr ba)) zero_task =
    Some (CallbackTask ty op pr ch vp nd lb hb tm ma ik pl cb rl re gr ba)"
  using assms(1-4)
  unfolding enc_task.simps dec_task.simps zero_task_def dec_task_members_append
  by (simp add: dec_task_payload dec_task_race_labels dec_task_strings dec_task_ints
      dec_task_callback [OF assms(5)] del: dec_task_members.simps)

lemma dec_enc:
  "wf_spec s \<Longrightarrow> dec_spec (enc_spec s) zero_spec = Some s"
  "wf_task t \<Longrightarrow> dec_task (enc_task t) zero_task = Some t"
proof (induction s and t rule: wf_spec_wf_task.induct)
  case (1 s e)
  then show ?case
    by (cases s; cases e) (simp_all add: zero_spec_def)
next
  case (2 ty op pr ch vp nd lb hb tm ma ik pl cb rl re gr ba)
  show ?case
    by (rule dec_enc_task_step) (use 2 in \<open>auto split: option.splits\<close>)
qed

end
