(* ===== verification/Ledger.thy ===== *)
theory Ledger
  imports Callback
begin

text \<open>
  The task ledger: the seven PostgreSQL tables and the operations of \<open>repository.Store\<close>
  (\<open>internal/domain/data/store.go\<close>, \<open>store_ext.go\<close>, \<open>store_ops.go\<close>, \<open>callback.go\<close>,
  \<open>data.go\<close>). Each operation is one transaction on the whole ledger. Rows locked by other
  transactions, which \<open>FOR UPDATE SKIP LOCKED\<close> skips, are an argument \<open>lk\<close>; the clock and
  the identifier generator are arguments too. A query's ties keep the table's row order,
  which PostgreSQL leaves open.
\<close>

section \<open>State and errors\<close>

datatype db_error =
    DbNotFound
  | DbConstraint insert_error
  | DbValidation
  | DbOutOfRange
  | StaleAttempt
  | DuplicateResult
  | DbUnavailable

definition is_constraint_error :: "db_error \<Rightarrow> bool" where
  "is_constraint_error e = (case e of DbConstraint _ \<Rightarrow> True | _ \<Rightarrow> False)"

record ledger =
  pendings :: "pending list"
  schedulables :: "claimable list"
  processings :: "claimable list"
  completeds :: "completed list"
  payloads :: "payload_row list"
  results :: "result_row list"
  identities :: "identity_row list"

definition empty_ledger :: ledger where
  "empty_ledger = \<lparr>pendings = [], schedulables = [], processings = [], completeds = [],
     payloads = [], results = [], identities = []\<rparr>"

text \<open>
  \<open>Data.WithTx\<close>: the function runs on the transaction's copy; an error rolls it back, and
  begin and commit may fail for reasons outside the program.
\<close>

record tx_env =
  begin_ok :: bool
  commit_ok :: bool

definition tx_fine :: tx_env where
  "tx_fine = \<lparr>begin_ok = True, commit_ok = True\<rparr>"

definition with_tx ::
  "tx_env \<Rightarrow> (ledger \<Rightarrow> db_error + 'a \<times> ledger) \<Rightarrow> ledger \<Rightarrow> (db_error + 'a) \<times> ledger" where
  "with_tx tx f s =
     (if \<not> begin_ok tx then (Inl DbUnavailable, s)
      else case f s of
          Inl e \<Rightarrow> (Inl e, s)
        | Inr (a, s') \<Rightarrow> if commit_ok tx then (Inr a, s') else (Inl DbUnavailable, s))"

section \<open>Inserts\<close>

definition lift_insert :: "insert_error + 'a \<Rightarrow> db_error + 'a" where
  "lift_insert r = (case r of Inl e \<Rightarrow> Inl (DbConstraint e) | Inr a \<Rightarrow> Inr a)"

definition insert_pending :: "pending \<Rightarrow> ledger \<Rightarrow> db_error + ledger" where
  "insert_pending p s =
     (if \<not> valid_channel (task_channel p) then Inl DbValidation
      else rbind (lift_insert (table_insert pending_check task_id p (pendings s)))
             (\<lambda>t. Inr (s\<lparr>pendings := t\<rparr>)))"

definition insert_schedulables :: "claimable list \<Rightarrow> ledger \<Rightarrow> db_error + ledger" where
  "insert_schedulables ps s =
     (if \<not> list_all (\<lambda>p. valid_channel (task_channel p)) ps then Inl DbValidation
      else rbind (lift_insert (table_insert_all claimable_check task_id ps (schedulables s)))
             (\<lambda>t. Inr (s\<lparr>schedulables := t\<rparr>)))"

definition insert_payload :: "payload_row \<Rightarrow> ledger \<Rightarrow> db_error + ledger" where
  "insert_payload p s =
     rbind (lift_insert (table_insert (\<lambda>_. True) payload_task p (payloads s)))
       (\<lambda>t. Inr (s\<lparr>payloads := t\<rparr>))"

definition insert_completed :: "completed \<Rightarrow> ledger \<Rightarrow> db_error + ledger" where
  "insert_completed c s =
     (if \<not> valid_channel (task_channel c) then Inl DbValidation
      else rbind (lift_insert (table_insert completed_check task_id c (completeds s)))
             (\<lambda>t. Inr (s\<lparr>completeds := t\<rparr>)))"

text \<open>The tombstone: a constraint error of this insert is a duplicate result.\<close>

definition insert_result :: "result_row \<Rightarrow> ledger \<Rightarrow> db_error + ledger" where
  "insert_result r s =
     (case table_insert (\<lambda>_. True) result_task r (results s) of
        Inl _ \<Rightarrow> Inl DuplicateResult
      | Inr t \<Rightarrow> Inr (s\<lparr>results := t\<rparr>))"

text \<open>
  \<open>upsertIdentitySQL\<close>: \<open>ON CONFLICT (idempotency_key) DO NOTHING\<close>, with the number of rows
  inserted. A repeated \<open>task_id\<close> under a fresh key violates the primary key.
\<close>

definition upsert_identity :: "int \<Rightarrow> string \<Rightarrow> gotime \<Rightarrow> ledger \<Rightarrow> db_error + nat \<times> ledger" where
  "upsert_identity tid k at s =
     (if k \<in> identity_key ` set (identities s) then Inr (0, s)
      else if tid \<in> identity_task ` set (identities s) then Inl (DbConstraint UniqueViolation)
      else Inr (1, s\<lparr>identities := identities s @
             [\<lparr>identity_task = tid, identity_key = k, identity_created = at\<rparr>]\<rparr>))"

definition json_or_null :: "raw \<Rightarrow> json" where
  "json_or_null r = (case r of None \<Rightarrow> JNull | Some j \<Rightarrow> j)"

section \<open>Enqueue\<close>

definition pending_of_request :: "gotime \<Rightarrow> gotime \<Rightarrow> enqueue_request \<Rightarrow> pending" where
  "pending_of_request created updated req = \<lparr>
     task_id = eq_task_id req,
     task_type = eq_type req,
     operator = eq_operator req,
     priority = eq_priority req,
     task_channel = eq_channel req,
     timeout_ms = eq_timeout_ms req,
     max_attempts = eq_max_attempts req,
     idempotency_key = eq_idempotency_key req,
     callback = eq_callback req,
     parent_task_id = eq_parent_task_id req,
     vpc = eq_vpc req,
     node = eq_node req,
     label = eq_label req,
     biz_race_labels = eq_biz_race_labels req,
     biz_race_entry = eq_biz_race_entry req,
     biz_group = eq_biz_group req,
     biz_batch_id = eq_biz_batch_id req,
     created_at = created,
     updated_at = updated,
     hash_bucket = eq_hash_bucket req\<rparr>"

definition enqueue_create ::
  "gotime \<Rightarrow> gotime \<Rightarrow> enqueue_request \<Rightarrow> ledger \<Rightarrow> db_error + enqueue_result \<times> ledger" where
  "enqueue_create created updated req s =
     rbind (insert_payload \<lparr>payload_task = eq_task_id req,
              payload_json = json_or_null (eq_payload req), payload_created = created\<rparr> s)
       (\<lambda>s1. rbind (insert_pending (pending_of_request created updated req) s1)
         (\<lambda>s2. Inr (\<lparr>er_task_id = eq_task_id req, er_created = True\<rparr>, s2)))"

definition enqueue_body ::
  "gotime \<Rightarrow> gotime \<Rightarrow> enqueue_request \<Rightarrow> ledger \<Rightarrow> db_error + enqueue_result \<times> ledger" where
  "enqueue_body created updated req s =
     (if eq_idempotency_key req = '''' then enqueue_create created updated req s
      else rbind (upsert_identity (eq_task_id req) (eq_idempotency_key req) created s)
        (\<lambda>(n, s1).
           if n = 1 then enqueue_create created updated req s1
           else case table_find identity_key (eq_idempotency_key req) (identities s1) of
               None \<Rightarrow> Inl DbNotFound
             | Some r \<Rightarrow> Inr (\<lparr>er_task_id = identity_task r, er_created = False\<rparr>, s1)))"

definition enqueue ::
  "tx_env \<Rightarrow> gotime \<Rightarrow> enqueue_request \<Rightarrow> ledger \<Rightarrow> (db_error + enqueue_result) \<times> ledger" where
  "enqueue tx now req s =
     (let created = (if is_zero_time (eq_created_at req) then now else eq_created_at req);
          updated = (if is_zero_time (eq_updated_at req) then created else eq_updated_at req)
      in with_tx tx (enqueue_body created updated req) s)"

section \<open>Promote\<close>

definition schedulable_of_pending :: "pending \<Rightarrow> claimable" where
  "schedulable_of_pending p = \<lparr>
     task_id = task_id p,
     task_type = task_type p,
     operator = operator p,
     priority = priority p,
     task_channel = task_channel p,
     timeout_ms = timeout_ms p,
     max_attempts = max_attempts p,
     idempotency_key = idempotency_key p,
     callback = callback p,
     parent_task_id = parent_task_id p,
     vpc = vpc p,
     node = node p,
     label = label p,
     biz_race_labels = biz_race_labels p,
     biz_race_entry = biz_race_entry p,
     biz_group = biz_group p,
     biz_batch_id = biz_batch_id p,
     created_at = created_at p,
     updated_at = updated_at p,
     hash_bucket = hash_bucket p,
     attempts = 0,
     claimed_node = ''''\<rparr>"

definition promote_pick :: "(int \<Rightarrow> bool) \<Rightarrow> int \<Rightarrow> ledger \<Rightarrow> pending list" where
  "promote_pick lk limit s =
     take (nat limit) (sort_key (\<lambda>p. - priority p) (filter (\<lambda>p. \<not> lk (task_id p)) (pendings s)))"

definition promote_body :: "(int \<Rightarrow> bool) \<Rightarrow> int \<Rightarrow> ledger \<Rightarrow> db_error + int \<times> ledger" where
  "promote_body lk limit s =
     (let rows = promote_pick lk limit s in
      if rows = [] then Inr (0, s)
      else rbind (insert_schedulables (map schedulable_of_pending rows) s)
        (\<lambda>s1. Inr (int (length rows),
           s1\<lparr>pendings := table_delete task_id (map task_id rows) (pendings s1)\<rparr>)))"

definition promote :: "tx_env \<Rightarrow> (int \<Rightarrow> bool) \<Rightarrow> int \<Rightarrow> ledger \<Rightarrow> (db_error + int) \<times> ledger" where
  "promote tx lk limit s =
     (if limit \<le> 0 then (Inr 0, s) else with_tx tx (promote_body lk limit) s)"

section \<open>Claim\<close>

text \<open>
  \<open>claimSQL\<close>: pick by \<open>priority DESC, id\<close>, delete the source rows, insert them with
  \<open>attempts + 1\<close> and \<open>updated_at = now()\<close>. The addition is on \<open>BIGINT\<close>, which refuses to
  overflow. The rows are returned in the picked order, which \<open>RETURNING\<close> leaves open.
\<close>

definition claim_pick :: "(int \<Rightarrow> bool) \<Rightarrow> int \<Rightarrow> ledger \<Rightarrow> claimable list" where
  "claim_pick lk limit s =
     take (nat limit)
       (sort_key (\<lambda>r. (- priority r, task_id r)) (filter (\<lambda>r. \<not> lk (task_id r)) (schedulables s)))"

definition claimed_row :: "gotime \<Rightarrow> claimable \<Rightarrow> claimable" where
  "claimed_row now r = r\<lparr>attempts := attempts r + 1, updated_at := now\<rparr>"

definition claim_body ::
  "gotime \<Rightarrow> (int \<Rightarrow> bool) \<Rightarrow> int \<Rightarrow> ledger \<Rightarrow> db_error + claimable list \<times> ledger" where
  "claim_body now lk limit s =
     (let picked = claim_pick lk limit s; moved = map (claimed_row now) picked in
      if \<not> list_all (\<lambda>r. in_int64 (attempts r)) moved then Inl DbOutOfRange
      else rbind (lift_insert (table_insert_all claimable_check task_id moved (processings s)))
        (\<lambda>t. Inr (moved,
           s\<lparr>schedulables := table_delete task_id (map task_id picked) (schedulables s),
             processings := t\<rparr>)))"

definition claim ::
  "tx_env \<Rightarrow> gotime \<Rightarrow> (int \<Rightarrow> bool) \<Rightarrow> int \<Rightarrow> ledger \<Rightarrow> (db_error + claimable list) \<times> ledger" where
  "claim tx now lk limit s =
     (if limit \<le> 0 then (Inr [], s) else with_tx tx (claim_body now lk limit) s)"

section \<open>Callback derivation\<close>

text \<open>
  \<open>callbackDepth\<close>: the number of ancestors found by following \<open>parent_task_id\<close> through
  \<open>task_completeds\<close>; the loop runs while the depth is at most the limit.
\<close>

function callback_depth_loop :: "nat \<Rightarrow> int \<Rightarrow> completed list \<Rightarrow> nat" where
  "callback_depth_loop depth cur t =
     (if depth \<le> max_callback_depth then
        (case table_find task_id cur t of
           None \<Rightarrow> depth
         | Some row \<Rightarrow>
             if parent_task_id row = 0 then depth
             else callback_depth_loop (Suc depth) (parent_task_id row) t)
      else depth)"
  by pat_completeness auto
termination
  by (relation "measure (\<lambda>(depth, cur, t). Suc max_callback_depth - depth)") auto

declare callback_depth_loop.simps [simp del]

definition callback_depth :: "int \<Rightarrow> ledger \<Rightarrow> nat" where
  "callback_depth tid s = callback_depth_loop 0 tid (completeds s)"

definition derived_default_timeout :: int where
  "derived_default_timeout = 60000"

definition derived_default_max_attempts :: int where
  "derived_default_max_attempts = 3"

definition derived_priority :: "int \<Rightarrow> int" where
  "derived_priority p =
     (if p \<le> 0 then default_priority
      else if p < min_priority then min_priority
      else if p > max_priority then max_priority
      else p)"

definition derived_channel :: "string \<Rightarrow> string \<Rightarrow> string" where
  "derived_channel c fallback = (if c \<noteq> '''' then c else fallback)"

definition derived_int64 :: "int \<Rightarrow> int \<Rightarrow> int" where
  "derived_int64 v def = (if v \<le> 0 then def else v)"

text \<open>The key \<open>parent:attempt:outcome\<close> of a derived task.\<close>

definition derived_key :: "int \<Rightarrow> int \<Rightarrow> outcome \<Rightarrow> string" where
  "derived_key parent attempt out =
     show_int parent @ '':'' @ show_int attempt @ '':'' @ show_int (outcome_code out)"

definition callback_key :: "callback_task \<Rightarrow> claimable \<Rightarrow> outcome \<Rightarrow> string" where
  "callback_key d proc out =
     (if cb_idempotency_key d = '''' then derived_key (task_id proc) (attempts proc) out
      else cb_idempotency_key d)"

definition derived_pending ::
  "int \<Rightarrow> callback_task \<Rightarrow> claimable \<Rightarrow> outcome \<Rightarrow> gotime \<Rightarrow> pending" where
  "derived_pending tid d proc out at = \<lparr>
     task_id = tid,
     task_type = cb_type d,
     operator = cb_operator d,
     priority = derived_priority (cb_priority d),
     task_channel = derived_channel (cb_channel d) (task_channel proc),
     timeout_ms = derived_int64 (cb_timeout_ms d) derived_default_timeout,
     max_attempts = to_int32 (derived_int64 (cb_max_attempts d) derived_default_max_attempts),
     idempotency_key = callback_key d proc out,
     callback = marshal_callback (cb_callback d),
     parent_task_id = task_id proc,
     vpc = cb_vpc d,
     node = cb_node d,
     label = cb_label d,
     biz_race_labels = cb_race_labels d,
     biz_race_entry = cb_race_entry d,
     biz_group = cb_group d,
     biz_batch_id = cb_batch_id d,
     created_at = at,
     updated_at = at,
     hash_bucket = to_int16 (cb_hash_bucket d)\<rparr>"

text \<open>
  Which task a terminal outcome derives, if any: nothing for an absent, undecodable or empty
  specification, for a task without a type, or at the depth limit.
\<close>

definition callback_of :: "claimable \<Rightarrow> outcome \<Rightarrow> ledger \<Rightarrow> callback_task option" where
  "callback_of proc out s =
     (case unmarshal_callback (callback proc) of
        Inl _ \<Rightarrow> None
      | Inr spec \<Rightarrow>
          (case derive spec (out = OutcomeSucceeded) of
             None \<Rightarrow> None
           | Some d \<Rightarrow>
               if cb_type d = '''' then None
               else if callback_depth (task_id proc) s \<ge> max_callback_depth then None
               else Some d))"

definition derive_callback ::
  "int \<Rightarrow> claimable \<Rightarrow> outcome \<Rightarrow> gotime \<Rightarrow> ledger \<Rightarrow> db_error + ledger" where
  "derive_callback nid proc out at s =
     (case callback_of proc out s of
        None \<Rightarrow> Inr s
      | Some d \<Rightarrow>
          rbind (upsert_identity nid (callback_key d proc out) at s) (\<lambda>(n, s1).
            if n = 0 then Inr s1
            else rbind (insert_payload \<lparr>payload_task = nid,
                     payload_json = json_or_null (cb_payload d), payload_created = at\<rparr> s1)
                   (insert_pending (derived_pending nid d proc out at))))"

section \<open>Complete and DeadLetter\<close>

definition completed_of ::
  "claimable \<Rightarrow> outcome \<Rightarrow> string \<Rightarrow> gotime \<Rightarrow> completed" where
  "completed_of p out err at = \<lparr>
     task_id = task_id p,
     task_type = task_type p,
     operator = operator p,
     priority = priority p,
     task_channel = task_channel p,
     timeout_ms = timeout_ms p,
     max_attempts = max_attempts p,
     idempotency_key = idempotency_key p,
     callback = callback p,
     parent_task_id = parent_task_id p,
     vpc = vpc p,
     node = node p,
     label = label p,
     biz_race_labels = biz_race_labels p,
     biz_race_entry = biz_race_entry p,
     biz_group = biz_group p,
     biz_batch_id = biz_batch_id p,
     created_at = created_at p,
     updated_at = updated_at p,
     final_attempts = attempts p,
     final_node = claimed_node p,
     final_error = err,
     final_outcome = out,
     completed_at = at\<rparr>"

definition result_of ::
  "claimable \<Rightarrow> outcome \<Rightarrow> raw \<Rightarrow> raw \<Rightarrow> string \<Rightarrow> gotime \<Rightarrow> result_row" where
  "result_of p out payload res err at = \<lparr>
     result_task = task_id p,
     result_outcome = out,
     result_attempt = attempts p,
     result_payload = payload,
     result_json = res,
     result_error = err,
     result_completed = at\<rparr>"

definition terminal_move ::
  "int \<Rightarrow> int \<Rightarrow> int \<Rightarrow> outcome \<Rightarrow> raw \<Rightarrow> string \<Rightarrow> gotime \<Rightarrow> bool \<Rightarrow> ledger
     \<Rightarrow> db_error + unit \<times> ledger" where
  "terminal_move nid tid attempt out res err at check s =
     (case table_find task_id tid (processings s) of
        None \<Rightarrow> Inl StaleAttempt
      | Some proc \<Rightarrow>
          if check \<and> attempts proc \<noteq> attempt then Inl StaleAttempt
          else
            rbind (insert_completed (completed_of proc out err at) s) (\<lambda>s1.
            rbind (insert_result
                (result_of proc out (map_option payload_json (table_find payload_task tid (payloads s)))
                   res err at) s1) (\<lambda>s2.
            rbind (derive_callback nid proc out at
                (s2\<lparr>payloads := table_delete payload_task [tid] (payloads s2),
                    processings := table_delete task_id [tid] (processings s2)\<rparr>)) (\<lambda>s3.
            Inr ((), s3)))))"

text \<open>\<open>terminalOutcome\<close>: the two sentinel errors mean refused, without side effects.\<close>

definition terminal_outcome :: "db_error + unit \<Rightarrow> db_error + bool" where
  "terminal_outcome r =
     (case r of
        Inr _ \<Rightarrow> Inr True
      | Inl e \<Rightarrow> if e = StaleAttempt \<or> e = DuplicateResult then Inr False else Inl e)"

definition complete ::
  "tx_env \<Rightarrow> gotime \<Rightarrow> int \<Rightarrow> complete_request \<Rightarrow> ledger \<Rightarrow> (db_error + bool) \<times> ledger" where
  "complete tx now nid req s =
     (let at = (if is_zero_time (cr_completed_at req) then now else cr_completed_at req);
          (r, s') = with_tx tx (terminal_move nid (cr_task_id req) (cr_attempt req)
                      (cr_outcome req) (cr_result req) (cr_error req) at True) s
      in (terminal_outcome r, s'))"

definition dead_letter ::
  "tx_env \<Rightarrow> gotime \<Rightarrow> int \<Rightarrow> int \<Rightarrow> ledger \<Rightarrow> (db_error + bool) \<times> ledger" where
  "dead_letter tx now nid tid s =
     (let (r, s') = with_tx tx (terminal_move nid tid 0 OutcomeDead None '''' now False) s
      in (terminal_outcome r, s'))"

section \<open>ResetExpired and Requeue\<close>

text \<open>Both move a processing row back as it is; the code copies every column.\<close>

definition schedulable_of_processing :: "claimable \<Rightarrow> claimable" where
  "schedulable_of_processing p = \<lparr>
     task_id = task_id p,
     task_type = task_type p,
     operator = operator p,
     priority = priority p,
     task_channel = task_channel p,
     timeout_ms = timeout_ms p,
     max_attempts = max_attempts p,
     idempotency_key = idempotency_key p,
     callback = callback p,
     parent_task_id = parent_task_id p,
     vpc = vpc p,
     node = node p,
     label = label p,
     biz_race_labels = biz_race_labels p,
     biz_race_entry = biz_race_entry p,
     biz_group = biz_group p,
     biz_batch_id = biz_batch_id p,
     created_at = created_at p,
     updated_at = updated_at p,
     hash_bucket = hash_bucket p,
     attempts = attempts p,
     claimed_node = claimed_node p\<rparr>"

definition reset_pick :: "(int \<Rightarrow> bool) \<Rightarrow> gotime \<Rightarrow> int \<Rightarrow> ledger \<Rightarrow> claimable list" where
  "reset_pick lk deadline limit s =
     take (nat limit)
       (sort_key updated_at
         (filter (\<lambda>p. updated_at p < deadline \<and> \<not> lk (task_id p)) (processings s)))"

definition reset_body ::
  "(int \<Rightarrow> bool) \<Rightarrow> gotime \<Rightarrow> int \<Rightarrow> ledger \<Rightarrow> db_error + int \<times> ledger" where
  "reset_body lk deadline limit s =
     (let rows = reset_pick lk deadline limit s in
      if rows = [] then Inr (0, s)
      else rbind (insert_schedulables (map schedulable_of_processing rows) s)
        (\<lambda>s1. Inr (int (length rows),
           s1\<lparr>processings := table_delete task_id (map task_id rows) (processings s1)\<rparr>)))"

definition reset_expired ::
  "tx_env \<Rightarrow> (int \<Rightarrow> bool) \<Rightarrow> gotime \<Rightarrow> int \<Rightarrow> ledger \<Rightarrow> (db_error + int) \<times> ledger" where
  "reset_expired tx lk deadline limit s =
     (if limit \<le> 0 then (Inr 0, s) else with_tx tx (reset_body lk deadline limit) s)"

definition requeue_body :: "int \<Rightarrow> ledger \<Rightarrow> db_error + bool \<times> ledger" where
  "requeue_body tid s =
     (case table_find task_id tid (processings s) of
        None \<Rightarrow> Inr (False, s)
      | Some p \<Rightarrow>
          rbind (insert_schedulables [schedulable_of_processing p] s)
            (\<lambda>s1. Inr (True, s1\<lparr>processings := table_delete task_id [tid] (processings s1)\<rparr>)))"

definition requeue :: "tx_env \<Rightarrow> int \<Rightarrow> ledger \<Rightarrow> (db_error + bool) \<times> ledger" where
  "requeue tx tid s = with_tx tx (requeue_body tid) s"

section \<open>Reads\<close>

definition read_row :: "'r option \<Rightarrow> db_error + 'r" where
  "read_row r = (case r of None \<Rightarrow> Inl DbNotFound | Some x \<Rightarrow> Inr x)"

definition get_processing :: "int \<Rightarrow> ledger \<Rightarrow> db_error + claimable" where
  "get_processing tid s = read_row (table_find task_id tid (processings s))"

definition get_result :: "int \<Rightarrow> ledger \<Rightarrow> db_error + result_row" where
  "get_result tid s = read_row (table_find result_task tid (results s))"

definition get_payload :: "int \<Rightarrow> ledger \<Rightarrow> db_error + json" where
  "get_payload tid s =
     read_row (map_option payload_json (table_find payload_task tid (payloads s)))"

definition count_pending :: "ledger \<Rightarrow> int" where
  "count_pending s = int (length (pendings s))"

definition count_schedulable :: "ledger \<Rightarrow> int" where
  "count_schedulable s = int (length (schedulables s))"

definition count_processing :: "ledger \<Rightarrow> int" where
  "count_processing s = int (length (processings s))"

text \<open>Factory batches (\<open>store_ops.go\<close>).\<close>

definition count_batch :: "string \<Rightarrow> 'a task_row_scheme list \<Rightarrow> int" where
  "count_batch b t = int (length (filter (\<lambda>r. biz_batch_id r = b) t))"

definition batch_progress_of :: "string \<Rightarrow> ledger \<Rightarrow> batch_progress" where
  "batch_progress_of b s =
     (if b = '''' then \<lparr>bp_completed = 0, bp_in_flight = 0\<rparr>
      else \<lparr>bp_completed = count_batch b (completeds s),
            bp_in_flight = count_batch b (pendings s) + count_batch b (schedulables s)
              + count_batch b (processings s)\<rparr>)"

definition stale_ids :: "gotime \<Rightarrow> 'a task_row_scheme list \<Rightarrow> string list" where
  "stale_ids before t =
     map biz_batch_id (filter (\<lambda>r. biz_batch_id r \<noteq> '''' \<and> created_at r < before) t)"

definition stale_batches :: "gotime \<Rightarrow> int \<Rightarrow> ledger \<Rightarrow> string list" where
  "stale_batches before limit s =
     (let lim = (if limit \<le> 0 then 100 else limit)
      in take (nat lim)
           (sort (remdups (stale_ids before (pendings s) @ stale_ids before (schedulables s)
              @ stale_ids before (processings s)))))"

end
