(* ===== verification/LedgerInv.thy ===== *)
theory LedgerInv
  imports Ledger
begin

text \<open>
  The ledger's invariant and its step relation. The first section says when each
  transaction body succeeds and what it leaves (collected in \<open>ledger_simps\<close>); the second
  states the well-formedness \<open>ledger_ok\<close> and that every operation keeps it; the third
  defines the reachable ledgers and the facts that hold along every execution.
\<close>

named_theorems ledger_simps \<open>when a transaction body succeeds, and its effect\<close>

section \<open>Transactions\<close>

lemma with_tx_cases:
  assumes "with_tx tx f s = (r, s')"
  obtains (rolled_back) e where "r = Inl e" and "s' = s"
    | (committed) a where "r = Inr a" and "f s = Inr (a, s')" and "begin_ok tx" and "commit_ok tx"
  using assms by (auto simp: with_tx_def split: if_splits sum.splits prod.splits)

lemma with_tx_Inl: "with_tx tx f s = (Inl e, s') \<Longrightarrow> s' = s"
  by (erule with_tx_cases) auto

lemma with_tx_fine [simp]:
  "f s = Inr (a, s') \<Longrightarrow> with_tx tx_fine f s = (Inr a, s')"
  "f s = Inl e \<Longrightarrow> with_tx tx_fine f s = (Inl e, s)"
  by (simp_all add: with_tx_def tx_fine_def)

text \<open>What every committed body keeps, every transaction keeps.\<close>

lemma with_tx_keeps:
  assumes "\<And>a t. f s = Inr (a, t) \<Longrightarrow> P t" and "P s"
  shows "P (snd (with_tx tx f s))"
  using assms by (auto simp: with_tx_def split: sum.splits)

section \<open>When the bodies succeed\<close>

lemma lift_insert_Inr [ledger_simps]: "lift_insert r = Inr a \<longleftrightarrow> r = Inr a"
  by (cases r) (auto simp: lift_insert_def)

lemma lift_insert_Inl [ledger_simps]: "lift_insert r = Inl e \<longleftrightarrow> (\<exists>c. r = Inl c \<and> e = DbConstraint c)"
  by (cases r) (auto simp: lift_insert_def)

lemma insert_pending_Inr [ledger_simps]:
  "insert_pending p s = Inr s' \<longleftrightarrow>
     valid_channel (task_channel p) \<and> pending_check p \<and> task_id p \<notin> table_ids task_id (pendings s) \<and>
     s' = s\<lparr>pendings := pendings s @ [p]\<rparr>"
  by (auto simp: insert_pending_def result_simps ledger_simps table_simps)

lemma insert_schedulables_Inr [ledger_simps]:
  "insert_schedulables ps s = Inr s' \<longleftrightarrow>
     (\<forall>p\<in>set ps. valid_channel (task_channel p) \<and> claimable_check p) \<and> distinct (map task_id ps) \<and>
     set (map task_id ps) \<inter> table_ids task_id (schedulables s) = {} \<and>
     s' = s\<lparr>schedulables := schedulables s @ ps\<rparr>"
  by (auto simp: insert_schedulables_def result_simps ledger_simps table_simps list_all_iff)

lemma insert_payload_Inr [ledger_simps]:
  "insert_payload p s = Inr s' \<longleftrightarrow>
     payload_task p \<notin> table_ids payload_task (payloads s) \<and> s' = s\<lparr>payloads := payloads s @ [p]\<rparr>"
  by (auto simp: insert_payload_def result_simps ledger_simps table_simps)

lemma insert_completed_Inr [ledger_simps]:
  "insert_completed c s = Inr s' \<longleftrightarrow>
     valid_channel (task_channel c) \<and> completed_check c \<and>
     task_id c \<notin> table_ids task_id (completeds s) \<and> s' = s\<lparr>completeds := completeds s @ [c]\<rparr>"
  by (auto simp: insert_completed_def result_simps ledger_simps table_simps)

lemma insert_result_Inr [ledger_simps]:
  "insert_result r s = Inr s' \<longleftrightarrow>
     result_task r \<notin> table_ids result_task (results s) \<and> s' = s\<lparr>results := results s @ [r]\<rparr>"
  by (auto simp: insert_result_def table_simps split: sum.splits)
    (auto simp: table_insert_def table_ids_def split: if_splits)

lemma upsert_identity_Inr [ledger_simps]:
  "upsert_identity tid k at s = Inr (n, s') \<longleftrightarrow>
     (k \<in> table_ids identity_key (identities s) \<and> n = 0 \<and> s' = s) \<or>
     (k \<notin> table_ids identity_key (identities s) \<and> tid \<notin> table_ids identity_task (identities s) \<and> n = 1 \<and>
      s' = s\<lparr>identities := identities s @
              [\<lparr>identity_task = tid, identity_key = k, identity_created = at\<rparr>]\<rparr>)"
  by (auto simp: upsert_identity_def table_ids_def)


lemma enqueue_create_Inr [ledger_simps]:
  "enqueue_create c u req s = Inr (r, s') \<longleftrightarrow>
     (let p = pending_of_request c u req;
          pl = \<lparr>payload_task = eq_task_id req, payload_json = json_or_null (eq_payload req),
                payload_created = c\<rparr>
      in eq_task_id req \<notin> table_ids payload_task (payloads s) \<and>
         valid_channel (eq_channel req) \<and> pending_check p \<and>
         eq_task_id req \<notin> table_ids task_id (pendings s) \<and>
         r = \<lparr>er_task_id = eq_task_id req, er_created = True\<rparr> \<and>
         s' = s\<lparr>payloads := payloads s @ [pl], pendings := pendings s @ [p]\<rparr>)"
  by (auto simp: enqueue_create_def result_simps ledger_simps Let_def pending_of_request_def)

text \<open>Only what an operation does to the tables matters to the invariant.\<close>

definition adds_identity :: "ledger \<Rightarrow> ledger \<Rightarrow> bool" where
  "adds_identity s s' \<longleftrightarrow>
     s' = s \<or> (\<exists>i. identity_key i \<notin> table_ids identity_key (identities s) \<and>
       identity_task i \<notin> table_ids identity_task (identities s) \<and>
       s' = s\<lparr>identities := identities s @ [i]\<rparr>)"

definition adds_pending :: "pending \<Rightarrow> json \<Rightarrow> gotime \<Rightarrow> ledger \<Rightarrow> ledger \<Rightarrow> bool" where
  "adds_pending p j at s s' \<longleftrightarrow>
     task_id p \<notin> table_ids payload_task (payloads s) \<and> task_id p \<notin> table_ids task_id (pendings s) \<and>
     valid_channel (task_channel p) \<and> pending_check p \<and>
     s' = s\<lparr>payloads := payloads s @ [\<lparr>payload_task = task_id p, payload_json = j, payload_created = at\<rparr>],
            pendings := pendings s @ [p]\<rparr>"

lemma enqueue_body_effect:
  assumes "enqueue_body c u req s = Inr (r, s')"
  shows "(er_created r \<and> er_task_id r = eq_task_id req \<and>
          (\<exists>s1. adds_identity s s1 \<and>
             adds_pending (pending_of_request c u req) (json_or_null (eq_payload req)) c s1 s')) \<or>
         (\<not> er_created r \<and> s' = s \<and>
          (\<exists>i\<in>set (identities s). identity_key i = eq_idempotency_key req \<and> er_task_id r = identity_task i))"
proof (cases "eq_idempotency_key req = ''''")
  case True
  then show ?thesis using assms
    by (auto simp: enqueue_body_def ledger_simps adds_identity_def adds_pending_def Let_def
        pending_of_request_def)
next
  case False
  show ?thesis
  proof (cases "eq_idempotency_key req \<in> table_ids identity_key (identities s)")
    case True
    then show ?thesis using assms False
      by (auto simp: enqueue_body_def ledger_simps result_simps dest: table_find_SomeD
          split: option.splits)
  next
    case fresh: False
    then have "adds_identity s (s\<lparr>identities := identities s @
        [\<lparr>identity_task = eq_task_id req, identity_key = eq_idempotency_key req, identity_created = c\<rparr>]\<rparr>)"
      if "eq_task_id req \<notin> table_ids identity_task (identities s)"
      using that unfolding adds_identity_def by (intro disjI2 exI) auto
    then show ?thesis using assms False fresh
      by (auto simp: enqueue_body_def ledger_simps result_simps Let_def adds_pending_def
          pending_of_request_def)
  qed
qed

lemma derive_callback_effect:
  assumes "derive_callback nid proc out at s = Inr s'"
  shows "s' = s \<or> (\<exists>d s1. callback_of proc out s = Some d \<and> adds_identity s s1 \<and>
     adds_pending (derived_pending nid d proc out at) (json_or_null (cb_payload d)) at s1 s')"
proof (cases "callback_of proc out s")
  case None
  then show ?thesis using assms by (simp add: derive_callback_def)
next
  case (Some d)
  show ?thesis
  proof (cases "callback_key d proc out \<in> table_ids identity_key (identities s)")
    case True
    then show ?thesis using assms Some
      by (auto simp: derive_callback_def result_simps ledger_simps split: if_splits)
  next
    case False
    then have "adds_identity s (s\<lparr>identities := identities s @
        [\<lparr>identity_task = nid, identity_key = callback_key d proc out, identity_created = at\<rparr>]\<rparr>)"
      if "nid \<notin> table_ids identity_task (identities s)"
      using that unfolding adds_identity_def by (intro disjI2 exI) auto
    then show ?thesis using assms Some False
      by (auto simp: derive_callback_def result_simps ledger_simps adds_pending_def
          derived_pending_def split: if_splits)
  qed
qed


text \<open>The copying functions keep the identifier and what the constraints look at.\<close>

lemma row_copies [simp]:
  "task_id (schedulable_of_pending p) = task_id p"
  "attempts (schedulable_of_pending p) = 0"
  "schedulable_of_processing q = q"
  "task_id (claimed_row now q) = task_id q"
  "attempts (claimed_row now q) = attempts q + 1"
  "task_id (completed_of q out err at) = task_id q"
  "task_id (derived_pending tid d q out at) = tid"
  "task_id (pending_of_request c u req) = eq_task_id req"
  "result_task (result_of q out pl res err at) = task_id q"
  by (simp_all add: schedulable_of_pending_def schedulable_of_processing_def claimed_row_def
      completed_of_def derived_pending_def pending_of_request_def result_of_def)

lemma map_row_copies [simp]:
  "map (task_id \<circ> schedulable_of_pending) ps = map task_id ps"
  "map (task_id \<circ> claimed_row now) qs = map task_id qs"
  "map schedulable_of_processing qs = qs"
  by (simp_all add: map_idI)

lemma promote_pick_set:
  "set (promote_pick lk limit s) \<subseteq> {p \<in> set (pendings s). \<not> lk (task_id p)}"
  using set_take_sort_key unfolding promote_pick_def by fastforce

lemma claim_pick_set:
  "set (claim_pick lk limit s) \<subseteq> {r \<in> set (schedulables s). \<not> lk (task_id r)}"
  using set_take_sort_key unfolding claim_pick_def by fastforce

lemma reset_pick_set:
  "set (reset_pick lk deadline limit s) \<subseteq>
     {r \<in> set (processings s). updated_at r < deadline \<and> \<not> lk (task_id r)}"
  using set_take_sort_key unfolding reset_pick_def by fastforce

lemma promote_body_Inr [ledger_simps]:
  "promote_body lk limit s = Inr (n, s') \<longleftrightarrow>
     (let rows = promote_pick lk limit s; moved = map schedulable_of_pending rows in
       (rows = [] \<or> ((\<forall>p\<in>set moved. valid_channel (task_channel p) \<and> claimable_check p) \<and>
          distinct (map task_id rows) \<and>
          set (map task_id rows) \<inter> table_ids task_id (schedulables s) = {})) \<and>
       n = int (length rows) \<and>
       s' = s\<lparr>schedulables := schedulables s @ moved,
              pendings := table_delete task_id (map task_id rows) (pendings s)\<rparr>)"
  by (auto simp: promote_body_def Let_def result_simps ledger_simps table_delete_def)

lemma claim_body_Inr [ledger_simps]:
  "claim_body now lk limit s = Inr (rs, s') \<longleftrightarrow>
     (let picked = claim_pick lk limit s; moved = map (claimed_row now) picked in
       (\<forall>r\<in>set moved. in_int64 (attempts r) \<and> claimable_check r) \<and> distinct (map task_id picked) \<and>
       set (map task_id picked) \<inter> table_ids task_id (processings s) = {} \<and>
       rs = moved \<and>
       s' = s\<lparr>schedulables := table_delete task_id (map task_id picked) (schedulables s),
              processings := processings s @ moved\<rparr>)"
  by (auto simp: claim_body_def Let_def result_simps ledger_simps table_simps list_all_iff)

lemma reset_body_Inr [ledger_simps]:
  "reset_body lk deadline limit s = Inr (n, s') \<longleftrightarrow>
     (let rows = reset_pick lk deadline limit s in
       (rows = [] \<or> ((\<forall>p\<in>set rows. valid_channel (task_channel p) \<and> claimable_check p) \<and>
          distinct (map task_id rows) \<and>
          set (map task_id rows) \<inter> table_ids task_id (schedulables s) = {})) \<and>
       n = int (length rows) \<and>
       s' = s\<lparr>schedulables := schedulables s @ rows,
              processings := table_delete task_id (map task_id rows) (processings s)\<rparr>)"
  by (auto simp: reset_body_def Let_def result_simps ledger_simps table_delete_def)

lemma requeue_body_Inr [ledger_simps]:
  "requeue_body tid s = Inr (b, s') \<longleftrightarrow>
     (case table_find task_id tid (processings s) of
        None \<Rightarrow> \<not> b \<and> s' = s
      | Some p \<Rightarrow> b \<and> valid_channel (task_channel p) \<and> claimable_check p \<and>
          task_id p \<notin> table_ids task_id (schedulables s) \<and>
          s' = s\<lparr>schedulables := schedulables s @ [p],
                 processings := table_delete task_id [tid] (processings s)\<rparr>)"
  by (auto simp: requeue_body_def result_simps ledger_simps split: option.splits)

text \<open>The state in which a terminal move derives its callback.\<close>

definition moved_terminal ::
  "claimable \<Rightarrow> outcome \<Rightarrow> raw \<Rightarrow> string \<Rightarrow> gotime \<Rightarrow> ledger \<Rightarrow> ledger" where
  "moved_terminal p out res err at s =
     s\<lparr>completeds := completeds s @ [completed_of p out err at],
       results := results s @ [result_of p out
         (map_option payload_json (table_find payload_task (task_id p) (payloads s))) res err at],
       payloads := table_delete payload_task [task_id p] (payloads s),
       processings := table_delete task_id [task_id p] (processings s)\<rparr>"

lemma terminal_move_Inr [ledger_simps]:
  "terminal_move nid tid attempt out res err at check s = Inr (x, s') \<longleftrightarrow>
     (\<exists>p. table_find task_id tid (processings s) = Some p \<and> (check \<longrightarrow> attempts p = attempt) \<and>
       valid_channel (task_channel p) \<and> priority_check (priority p) \<and>
       tid \<notin> table_ids task_id (completeds s) \<and> tid \<notin> table_ids result_task (results s) \<and>
       derive_callback nid p out at (moved_terminal p out res err at s) = Inr s')"
  by (auto simp: terminal_move_def result_simps ledger_simps moved_terminal_def
      completed_check_def completed_of_def result_of_def split: option.splits
      dest!: table_find_SomeD)


section \<open>Well-formed ledgers\<close>

definition pending_ids :: "ledger \<Rightarrow> int set" where
  "pending_ids s = table_ids task_id (pendings s)"

definition schedulable_ids :: "ledger \<Rightarrow> int set" where
  "schedulable_ids s = table_ids task_id (schedulables s)"

definition processing_ids :: "ledger \<Rightarrow> int set" where
  "processing_ids s = table_ids task_id (processings s)"

definition in_flight :: "ledger \<Rightarrow> int set" where
  "in_flight s = pending_ids s \<union> schedulable_ids s \<union> processing_ids s"

definition done_ids :: "ledger \<Rightarrow> int set" where
  "done_ids s = table_ids task_id (completeds s)"

definition tables_distinct :: "ledger \<Rightarrow> bool" where
  "tables_distinct s \<longleftrightarrow>
     distinct (map task_id (pendings s)) \<and> distinct (map task_id (schedulables s)) \<and>
     distinct (map task_id (processings s)) \<and> distinct (map task_id (completeds s)) \<and>
     distinct (map payload_task (payloads s)) \<and> distinct (map result_task (results s)) \<and>
     distinct (map identity_task (identities s)) \<and> distinct (map identity_key (identities s))"

definition stages_disjoint :: "ledger \<Rightarrow> bool" where
  "stages_disjoint s \<longleftrightarrow>
     pending_ids s \<inter> schedulable_ids s = {} \<and> pending_ids s \<inter> processing_ids s = {} \<and>
     schedulable_ids s \<inter> processing_ids s = {}"

definition payloads_cover :: "ledger \<Rightarrow> bool" where
  "payloads_cover s \<longleftrightarrow> table_ids payload_task (payloads s) = in_flight s"

definition results_cover :: "ledger \<Rightarrow> bool" where
  "results_cover s \<longleftrightarrow> table_ids result_task (results s) = done_ids s"

definition rows_ok :: "ledger \<Rightarrow> bool" where
  "rows_ok s \<longleftrightarrow>
     (\<forall>p\<in>set (pendings s). pending_check p \<and> valid_channel (task_channel p)) \<and>
     (\<forall>p\<in>set (schedulables s). claimable_check p \<and> valid_channel (task_channel p) \<and> 0 \<le> attempts p) \<and>
     (\<forall>p\<in>set (processings s). claimable_check p \<and> valid_channel (task_channel p) \<and> 1 \<le> attempts p) \<and>
     (\<forall>p\<in>set (completeds s). completed_check p \<and> valid_channel (task_channel p) \<and> 1 \<le> final_attempts p)"

definition ledger_ok :: "ledger \<Rightarrow> bool" where
  "ledger_ok s \<longleftrightarrow> tables_distinct s \<and> stages_disjoint s \<and> payloads_cover s \<and> results_cover s \<and> rows_ok s"

lemmas ids_defs = pending_ids_def schedulable_ids_def processing_ids_def in_flight_def done_ids_def
lemmas ok_defs = ledger_ok_def tables_distinct_def stages_disjoint_def payloads_cover_def
  results_cover_def rows_ok_def

lemma ledger_ok_empty: "ledger_ok empty_ledger"
  by (simp add: ok_defs ids_defs empty_ledger_def)

lemma distinct_snoc_key:
  "distinct (map k (t @ [r])) \<longleftrightarrow> distinct (map k t) \<and> k r \<notin> table_ids k t"
  by (auto simp: table_ids_def)

lemma distinct_append_key:
  "distinct (map k (t @ u)) \<longleftrightarrow>
     distinct (map k t) \<and> distinct (map k u) \<and> set (map k u) \<inter> table_ids k t = {}"
  by (auto simp: table_ids_def)

lemma ledger_ok_adds_identity: "adds_identity s s' \<Longrightarrow> ledger_ok s \<Longrightarrow> ledger_ok s'"
  unfolding adds_identity_def
  by (elim disjE exE conjE) (simp_all add: ok_defs ids_defs table_ids_def)

lemma ledger_ok_adds_pending: "adds_pending p j at s s' \<Longrightarrow> ledger_ok s \<Longrightarrow> ledger_ok s'"
  unfolding adds_pending_def
  by (elim conjE, simp add: ok_defs ids_defs) (auto simp: table_ids_def)

lemma in_table_ids: "r \<in> set t \<Longrightarrow> key r \<in> table_ids key t"
  by (simp add: table_ids_def)

lemma table_ids_subset: "set u \<subseteq> set t \<Longrightarrow> table_ids key u \<subseteq> table_ids key t"
  by (auto simp: table_ids_def)

lemma table_ids_map: "table_ids key (map f t) = table_ids (key \<circ> f) t"
  by (auto simp: table_ids_def)

lemma set_map_table_ids: "set (map key t) = table_ids key t"
  by (simp add: table_ids_def)

text \<open>
  Moving rows from one stage to the next: the identifiers leave the one and join the other.
\<close>

lemma moved_ids:
  assumes "set rows \<subseteq> set t"
  shows "table_ids key t = table_ids key (table_delete key (map key rows) t) \<union> table_ids key rows"
  using assms by (auto simp: table_ids_def table_delete_def)

text \<open>
  A move of rows \<open>M\<close> out of one stage and into another keeps the stages disjoint and their
  union.
\<close>

lemma move_disjoint:
  assumes "M \<subseteq> A" and "A \<inter> B = {}" and "A \<inter> C = {}" and "B \<inter> C = {}"
  shows "(A - M) \<inter> (B \<union> M) = {}" and "(B \<union> M) \<inter> C = {}" and "(A - M) \<inter> C = {}"
    and "(A - M) \<union> (B \<union> M) = A \<union> B"
  using assms by blast+

lemma ids_of_rows: "set rows \<subseteq> set t \<Longrightarrow> set (map key rows) \<subseteq> table_ids key t"
  by (auto simp: table_ids_def)

lemma distinct_move:
  assumes "distinct (map key t)" and "distinct (map key rows)"
    and "set (map key rows) \<inter> table_ids key t = {}"
  shows "distinct (map key (t @ rows))"
  using assms by (simp only: distinct_append_key simp_thms)

lemma ledger_ok_moved:
  assumes "ledger_ok s" and "tables_distinct s'" and "stages_disjoint s'" and "rows_ok s'"
    and "in_flight s' = in_flight s" and "payloads s' = payloads s" and "results s' = results s"
    and "completeds s' = completeds s"
  shows "ledger_ok s'"
  using assms by (simp add: ledger_ok_def payloads_cover_def results_cover_def done_ids_def)

lemma pick_distinct:
  assumes "ledger_ok s"
  shows "distinct (map task_id (promote_pick lk limit s))"
    and "distinct (map task_id (claim_pick lk limit s))"
    and "distinct (map task_id (reset_pick lk deadline limit s))"
  unfolding promote_pick_def claim_pick_def reset_pick_def
  using assms by (auto simp: ok_defs intro!: distinct_take_sort_key distinct_map_filter)

lemma pick_sub:
  "set (promote_pick lk limit s) \<subseteq> set (pendings s)"
  "set (claim_pick lk limit s) \<subseteq> set (schedulables s)"
  "set (reset_pick lk deadline limit s) \<subseteq> set (processings s)"
  using promote_pick_set [of lk limit s] claim_pick_set [of lk limit s]
    reset_pick_set [of lk deadline limit s] by blast+

lemma ledger_ok_promote_body:
  assumes "promote_body lk limit s = Inr (n, s')" and ok: "ledger_ok s"
  shows "ledger_ok s'"
proof -
  let ?rows = "promote_pick lk limit s" and ?M = "set (map task_id (promote_pick lk limit s))"
  let ?moved = "map schedulable_of_pending (promote_pick lk limit s)"
  have M: "?M \<subseteq> pending_ids s" using ids_of_rows [OF pick_sub(1)] by (simp add: pending_ids_def)
  have s': "s' = s\<lparr>schedulables := schedulables s @ ?moved,
     pendings := table_delete task_id (map task_id ?rows) (pendings s)\<rparr>"
    using assms(1) by (simp add: ledger_simps Let_def)
  have ids: "pending_ids s' = pending_ids s - ?M" "schedulable_ids s' = schedulable_ids s \<union> ?M"
    "processing_ids s' = processing_ids s"
    by (simp_all add: s' ids_defs table_ids_map comp_def table_ids_def [of task_id ?rows] del: map_map)
  have dis: "?M \<inter> schedulable_ids s = {}"
    using ok M unfolding ledger_ok_def stages_disjoint_def by blast
  show ?thesis
  proof (rule ledger_ok_moved [OF ok])
    have "distinct (map task_id (schedulables s @ ?moved))"
      using ok pick_distinct(1) [OF ok] dis
      by (intro distinct_move) (simp_all add: ok_defs schedulable_ids_def)
    then show "tables_distinct s'" using ok by (simp add: s' ok_defs)
    show "stages_disjoint s'" "in_flight s' = in_flight s"
      using ok move_disjoint [OF M, of "schedulable_ids s" "processing_ids s"]
      by (simp_all only: ids stages_disjoint_def ledger_ok_def in_flight_def simp_thms)
    have "claimable_check q \<and> valid_channel (task_channel q) \<and> 0 \<le> attempts q"
      if "q \<in> set ?moved" for q
      using that ok pick_sub(1)
      by (fastforce simp: ok_defs schedulable_of_pending_def claimable_check_def pending_check_def)
    then show "rows_ok s'" using ok
      unfolding ledger_ok_def rows_ok_def s'
      by (auto dest: subsetD [OF set_table_delete] simp del: set_map)
  qed (simp_all add: s')
qed

lemma ledger_ok_claim_body:
  assumes "claim_body now lk limit s = Inr (rs, s')" and ok: "ledger_ok s"
  shows "ledger_ok s'"
proof -
  let ?rows = "claim_pick lk limit s" and ?M = "set (map task_id (claim_pick lk limit s))"
  let ?moved = "map (claimed_row now) (claim_pick lk limit s)"
  have M: "?M \<subseteq> schedulable_ids s"
    using ids_of_rows [OF pick_sub(2)] by (simp add: schedulable_ids_def)
  have s': "s' = s\<lparr>schedulables := table_delete task_id (map task_id ?rows) (schedulables s),
     processings := processings s @ ?moved\<rparr>"
    using assms(1) by (simp add: ledger_simps Let_def)
  have ids: "schedulable_ids s' = schedulable_ids s - ?M" "processing_ids s' = processing_ids s \<union> ?M"
    "pending_ids s' = pending_ids s"
    by (simp_all add: s' ids_defs table_ids_map comp_def table_ids_def [of task_id ?rows] del: map_map)
  have dis: "?M \<inter> processing_ids s = {}"
    using ok M unfolding ledger_ok_def stages_disjoint_def by blast
  show ?thesis
  proof (rule ledger_ok_moved [OF ok])
    have "distinct (map task_id (processings s @ ?moved))"
      using ok pick_distinct(2) [OF ok] dis
      by (intro distinct_move) (simp_all add: ok_defs processing_ids_def)
    then show "tables_distinct s'" using ok by (simp add: s' ok_defs)
    show "stages_disjoint s'" "in_flight s' = in_flight s"
      using ok move_disjoint [OF M, of "processing_ids s" "pending_ids s"]
      by (simp_all only: ids stages_disjoint_def ledger_ok_def in_flight_def Int_commute Un_assoc
          simp_thms)
    have "claimable_check q \<and> valid_channel (task_channel q) \<and> 1 \<le> attempts q"
      if "q \<in> set ?moved" for q
      using that ok pick_sub(2)
      by (fastforce simp: ok_defs claimed_row_def claimable_check_def)
    then show "rows_ok s'" using ok
      unfolding ledger_ok_def rows_ok_def s'
      by (auto dest: subsetD [OF set_table_delete] simp del: set_map)
  qed (simp_all add: s')
qed

text \<open>\<open>ResetExpired\<close> and \<open>Requeue\<close> move rows back unchanged.\<close>

lemma ledger_ok_move_back:
  assumes ok: "ledger_ok s" and sub: "set rows \<subseteq> set (processings s)"
    and d: "distinct (map task_id rows)"
    and s': "s' = s\<lparr>schedulables := schedulables s @ rows,
       processings := table_delete task_id (map task_id rows) (processings s)\<rparr>"
  shows "ledger_ok s'" and "in_flight s' = in_flight s"
proof -
  let ?M = "set (map task_id rows)"
  have M: "?M \<subseteq> processing_ids s" using ids_of_rows [OF sub] by (simp add: processing_ids_def)
  have ids: "processing_ids s' = processing_ids s - ?M" "schedulable_ids s' = schedulable_ids s \<union> ?M"
    "pending_ids s' = pending_ids s"
    by (simp_all add: s' ids_defs table_ids_def [of task_id rows])
  have dis: "?M \<inter> schedulable_ids s = {}"
    using ok M unfolding ledger_ok_def stages_disjoint_def by blast
  have mv: "stages_disjoint s'" "in_flight s' = in_flight s"
    using ok move_disjoint [OF M, of "schedulable_ids s" "pending_ids s"]
    by (simp_all only: ids stages_disjoint_def ledger_ok_def in_flight_def Int_commute Un_assoc
        simp_thms) blast+
  then show "in_flight s' = in_flight s" by simp
  show "ledger_ok s'"
  proof (rule ledger_ok_moved [OF ok _ mv(1) _ mv(2)])
    have "distinct (map task_id (schedulables s @ rows))"
      using ok d dis by (intro distinct_move) (simp_all add: ok_defs schedulable_ids_def)
    then show "tables_distinct s'" using ok by (simp add: s' ok_defs)
    have "claimable_check q \<and> valid_channel (task_channel q) \<and> 0 \<le> attempts q"
      if "q \<in> set rows" for q
      using that ok sub by (fastforce simp: ok_defs)
    then show "rows_ok s'" using ok
      unfolding ledger_ok_def rows_ok_def s'
      by (auto dest: subsetD [OF set_table_delete])
  qed (simp_all add: s')
qed

lemma ledger_ok_reset_body:
  assumes "reset_body lk deadline limit s = Inr (n, s')" and "ledger_ok s"
  shows "ledger_ok s'"
  by (rule ledger_ok_move_back [OF assms(2) pick_sub(3) pick_distinct(3) [OF assms(2)]])
    (use assms(1) in \<open>simp add: ledger_simps Let_def\<close>)

lemma ledger_ok_requeue_body:
  assumes "requeue_body tid s = Inr (b, s')" and "ledger_ok s"
  shows "ledger_ok s'"
proof (cases "table_find task_id tid (processings s)")
  case None
  then show ?thesis using assms by (simp add: ledger_simps)
next
  case (Some p)
  then have "p \<in> set (processings s)" and "task_id p = tid" by (auto dest: table_find_SomeD)
  then show ?thesis
    using ledger_ok_move_back(1) [OF assms(2), of "[p]" s'] assms(1) Some by (simp add: ledger_simps)
qed

lemma moved_terminal_ids:
  assumes "table_find task_id tid (processings s) = Some p"
  shows "pending_ids (moved_terminal p out res err at s) = pending_ids s"
    and "schedulable_ids (moved_terminal p out res err at s) = schedulable_ids s"
    and "processing_ids (moved_terminal p out res err at s) = processing_ids s - {tid}"
    and "done_ids (moved_terminal p out res err at s) = insert tid (done_ids s)"
  using table_find_SomeD [OF assms] by (simp_all add: moved_terminal_def ids_defs)

lemma ledger_ok_moved_terminal:
  assumes ok: "ledger_ok s" and p: "table_find task_id tid (processings s) = Some p"
    and new: "tid \<notin> done_ids s"
  shows "ledger_ok (moved_terminal p out res err at s)" (is "ledger_ok ?s")
  unfolding ledger_ok_def
proof (intro conjI)
  note ids = moved_terminal_ids [OF p, of out res err at]
  have tid: "task_id p = tid" "p \<in> set (processings s)" using table_find_SomeD [OF p] by auto
  then have here: "tid \<in> processing_ids s" by (auto simp: processing_ids_def table_ids_def)
  have nres: "tid \<notin> table_ids result_task (results s)"
    using ok new by (simp add: ledger_ok_def results_cover_def)
  show "tables_distinct ?s"
    using ok new nres tid
    by (simp add: moved_terminal_def ok_defs done_ids_def distinct_snoc_key
        del: map_append distinct_append)
  show "stages_disjoint ?s"
    using ok unfolding ledger_ok_def stages_disjoint_def ids by blast
  have "in_flight ?s = in_flight s - {tid}"
    using ok here unfolding ledger_ok_def stages_disjoint_def in_flight_def ids by blast
  then show "payloads_cover ?s"
    using ok tid by (simp add: payloads_cover_def ledger_ok_def) (simp add: moved_terminal_def)
  show "results_cover ?s"
    using ok tid by (simp add: results_cover_def ledger_ok_def moved_terminal_def done_ids_def)
  have "claimable_check p \<and> valid_channel (task_channel p) \<and> 1 \<le> attempts p"
    using ok tid by (simp add: ok_defs)
  then have "completed_check (completed_of p out err at) \<and> 1 \<le> final_attempts (completed_of p out err at)
      \<and> valid_channel (task_channel (completed_of p out err at))"
    by (simp add: completed_check_def completed_of_def claimable_check_def)
  then show "rows_ok ?s" using ok
    unfolding ledger_ok_def rows_ok_def moved_terminal_def
    by (auto dest: subsetD [OF set_table_delete])
qed

lemma ledger_ok_terminal_move:
  assumes "terminal_move nid tid attempt out res err at check s = Inr (x, s')" and "ledger_ok s"
  shows "ledger_ok s'"
proof -
  obtain p where p: "table_find task_id tid (processings s) = Some p"
    and new: "tid \<notin> done_ids s"
    and d: "derive_callback nid p out at (moved_terminal p out res err at s) = Inr s'"
    using assms(1) by (auto simp: ledger_simps done_ids_def)
  show ?thesis
    using derive_callback_effect [OF d] ledger_ok_moved_terminal [OF assms(2) p new, of out res err at]
    by (elim disjE exE conjE) (simp, blast intro: ledger_ok_adds_pending ledger_ok_adds_identity)
qed

lemma ledger_ok_enqueue_body:
  assumes "enqueue_body c u req s = Inr (r, s')" and "ledger_ok s"
  shows "ledger_ok s'"
  using enqueue_body_effect [OF assms(1)] assms(2)
  by (auto intro: ledger_ok_adds_pending ledger_ok_adds_identity)

section \<open>Executions\<close>

text \<open>
  One step is one call of one operation, with any request, clock reading, generated
  identifier, locked rows and transaction failures. The calls of concurrent components are
  serialised by the transactions, so an execution of the control plane is a sequence of
  steps.
\<close>

inductive ledger_step :: "ledger \<Rightarrow> ledger \<Rightarrow> bool" where
  step_enqueue: "ledger_step s (snd (enqueue tx now req s))"
| step_promote: "ledger_step s (snd (promote tx lk limit s))"
| step_claim: "ledger_step s (snd (claim tx now lk limit s))"
| step_complete: "ledger_step s (snd (complete tx now nid creq s))"
| step_dead_letter: "ledger_step s (snd (dead_letter tx now nid tid s))"
| step_reset_expired: "ledger_step s (snd (reset_expired tx lk deadline limit s))"
| step_requeue: "ledger_step s (snd (requeue tx tid s))"

inductive_cases ledger_stepE: "ledger_step s s'"

inductive ledger_run :: "ledger \<Rightarrow> ledger \<Rightarrow> bool" where
  run_refl: "ledger_run s s"
| run_step: "ledger_run s s' \<Longrightarrow> ledger_step s' s'' \<Longrightarrow> ledger_run s s''"

lemma with_tx_sndE:
  assumes "s' = snd (with_tx tx f s)"
  obtains "s' = s" | a where "f s = Inr (a, s')"
  using assms by (auto simp: with_tx_def split: if_splits sum.splits)

lemma complete_snd:
  "snd (complete tx now nid req s) =
     snd (with_tx tx (terminal_move nid (cr_task_id req) (cr_attempt req) (cr_outcome req)
       (cr_result req) (cr_error req)
       (if is_zero_time (cr_completed_at req) then now else cr_completed_at req) True) s)"
  by (simp add: complete_def Let_def split: prod.split)

lemma dead_letter_snd:
  "snd (dead_letter tx now nid tid s) =
     snd (with_tx tx (terminal_move nid tid 0 OutcomeDead None '''' now False) s)"
  by (simp add: dead_letter_def Let_def split: prod.split)

text \<open>What the seven committed bodies have in common holds of every step.\<close>

lemma ledger_step_cases:
  assumes "ledger_step s s'"
  obtains (same) "s' = s"
    | (enq) c u req r where "enqueue_body c u req s = Inr (r, s')"
    | (prom) lk limit n where "promote_body lk limit s = Inr (n, s')"
    | (clm) now lk limit rs where "claim_body now lk limit s = Inr (rs, s')"
    | (finish) nid tid a out res err at chk x where
        "terminal_move nid tid a out res err at chk s = Inr (x, s')"
    | (reset) lk deadline limit n where "reset_body lk deadline limit s = Inr (n, s')"
    | (requeue) tid b where "requeue_body tid s = Inr (b, s')"
  using assms
proof (cases rule: ledger_step.cases)
  case (step_enqueue tx now req)
  then show thesis unfolding enqueue_def Let_def by (rule with_tx_sndE) (rule same enq, assumption)+
next
  case (step_promote tx lk limit)
  then show thesis unfolding promote_def
    by (cases "limit \<le> 0") (auto intro: same prom elim: with_tx_sndE)
next
  case (step_claim tx now lk limit)
  then show thesis unfolding claim_def
    by (cases "limit \<le> 0") (auto intro: same clm elim: with_tx_sndE)
next
  case (step_complete tx now nid creq)
  then show thesis unfolding complete_snd by (rule with_tx_sndE) (rule same finish, assumption)+
next
  case (step_dead_letter tx now nid tid)
  then show thesis unfolding dead_letter_snd by (rule with_tx_sndE) (rule same finish, assumption)+
next
  case (step_reset_expired tx lk deadline limit)
  then show thesis unfolding reset_expired_def
    by (cases "limit \<le> 0") (auto intro: same reset elim: with_tx_sndE)
next
  case (step_requeue tx tid)
  then show thesis unfolding requeue_def by (rule with_tx_sndE) (rule same requeue, assumption)+
qed

lemma ledger_ok_step: "ledger_step s s' \<Longrightarrow> ledger_ok s \<Longrightarrow> ledger_ok s'"
  by (erule ledger_step_cases)
     (blast intro: ledger_ok_enqueue_body ledger_ok_promote_body ledger_ok_claim_body
       ledger_ok_terminal_move ledger_ok_reset_body ledger_ok_requeue_body)+

lemma ledger_ok_run: "ledger_run s s' \<Longrightarrow> ledger_ok s \<Longrightarrow> ledger_ok s'"
  by (induction rule: ledger_run.induct) (blast intro: ledger_ok_step)+

section \<open>What every execution keeps\<close>

text \<open>Completed rows, results and idempotency identities are only ever appended.\<close>

definition extends :: "ledger \<Rightarrow> ledger \<Rightarrow> bool" where
  "extends s s' \<longleftrightarrow>
     (\<exists>cs. completeds s' = completeds s @ cs) \<and> (\<exists>rs. results s' = results s @ rs) \<and>
     (\<exists>is. identities s' = identities s @ is)"

lemma extends_refl: "extends s s"
  by (simp add: extends_def)

lemma extends_trans: "extends s t \<Longrightarrow> extends t u \<Longrightarrow> extends s u"
  by (auto simp: extends_def)

lemma extends_same:
  "completeds s' = completeds s \<Longrightarrow> results s' = results s \<Longrightarrow> identities s' = identities s \<Longrightarrow>
   extends s s'"
  by (simp add: extends_def)

lemma extends_adds:
  "adds_identity s s' \<Longrightarrow> extends s s'"
  "adds_pending p j at s s' \<Longrightarrow> extends s s'"
  by (auto simp: adds_identity_def adds_pending_def extends_def)

lemma extends_moved_terminal: "extends s (moved_terminal p out res err at s)"
  by (simp add: extends_def moved_terminal_def)

lemma derive_callback_extends: "derive_callback nid p out at s = Inr s' \<Longrightarrow> extends s s'"
  by (drule derive_callback_effect) (auto intro: extends_refl extends_trans extends_adds)

lemma extends_step: "ledger_step s s' \<Longrightarrow> extends s s'"
proof (erule ledger_step_cases)
  fix c u req r assume "enqueue_body c u req s = Inr (r, s')"
  then show "extends s s'"
    by (auto dest!: enqueue_body_effect intro: extends_refl extends_trans extends_adds)
next
  fix nid tid a out res err at chk x
  assume "terminal_move nid tid a out res err at chk s = Inr (x, s')"
  then show "extends s s'"
    by (auto simp: ledger_simps intro: extends_trans extends_moved_terminal derive_callback_extends)
qed (auto simp: ledger_simps Let_def intro: extends_same extends_refl split: option.splits)

lemma extends_run: "ledger_run s s' \<Longrightarrow> extends s s'"
  by (induction rule: ledger_run.induct) (auto intro: extends_refl extends_trans extends_step)

lemma extends_done: "extends s s' \<Longrightarrow> done_ids s \<subseteq> done_ids s'"
  by (auto simp: extends_def done_ids_def)

lemma extends_find:
  assumes "extends s s'"
  shows "table_find result_task tid (results s) = Some r \<Longrightarrow> table_find result_task tid (results s') = Some r"
    and "table_find identity_key k (identities s) = Some i \<Longrightarrow>
      table_find identity_key k (identities s') = Some i"
  using assms by (auto simp: extends_def table_find_append)

text \<open>
  A task and its payload survive: the task stays in flight with its payload, or its
  result row holds that payload.
\<close>

definition survives :: "int \<Rightarrow> json \<Rightarrow> ledger \<Rightarrow> bool" where
  "survives tid j s \<longleftrightarrow>
     (tid \<in> in_flight s \<and> (\<exists>pl\<in>set (payloads s). payload_task pl = tid \<and> payload_json pl = j)) \<or>
     (tid \<in> done_ids s \<and> (\<exists>r\<in>set (results s). result_task r = tid \<and> result_payload r = Some j))"

lemma survives_adds:
  "adds_identity s s' \<Longrightarrow> survives tid j s \<Longrightarrow> survives tid j s'"
  "adds_pending p q at s s' \<Longrightarrow> survives tid j s \<Longrightarrow> survives tid j s'"
  by (auto simp: adds_identity_def adds_pending_def survives_def ids_defs)

lemma survives_moved:
  assumes "survives tid j s" and "in_flight s \<subseteq> in_flight s'" and "payloads s' = payloads s"
    and "results s' = results s" and "completeds s' = completeds s"
  shows "survives tid j s'"
  using assms by (auto simp: survives_def done_ids_def)

lemma set_delete_iff: "r \<in> set (table_delete key ks t) \<longleftrightarrow> r \<in> set t \<and> key r \<notin> set ks"
  by (auto simp: table_delete_def)

lemma survives_moved_terminal:
  assumes ok: "ledger_ok s" and p: "table_find task_id t (processings s) = Some p"
    and sv: "survives tid j s"
  shows "survives tid j (moved_terminal p out res err at s)" (is "survives tid j ?s")
proof -
  note ids = moved_terminal_ids [OF p, of out res err at]
  note tp = table_find_SomeD [OF p]
  from sv consider
      (flying) pl where "tid \<in> in_flight s" "pl \<in> set (payloads s)" "payload_task pl = tid" "payload_json pl = j"
    | (finished) r where "tid \<in> done_ids s" "r \<in> set (results s)" "result_task r = tid" "result_payload r = Some j"
    unfolding survives_def by blast
  then show ?thesis
  proof cases
    case flying
    show ?thesis
    proof (cases "tid = t")
      case True
      have "table_find payload_task tid (payloads s) = Some pl"
        using ok flying table_find_in [of payload_task "payloads s" pl] by (simp add: ok_defs)
      then show ?thesis
        using True tp flying by (simp add: survives_def moved_terminal_def result_of_def done_ids_def)
    next
      case False
      then have "tid \<in> in_flight ?s"
        using flying tp by (auto simp: in_flight_def ids)
      moreover have "pl \<in> set (payloads ?s)"
        using False flying tp by (simp add: moved_terminal_def set_delete_iff)
      ultimately show ?thesis using flying unfolding survives_def by blast
    qed
  next
    case finished
    then have "tid \<in> done_ids ?s" "r \<in> set (results ?s)"
      using ids by (auto simp: moved_terminal_def)
    then show ?thesis using finished unfolding survives_def by blast
  qed
qed

text \<open>What the moves between stages do to the identifiers in flight.\<close>

lemma in_flight_promote:
  assumes "promote_body lk limit s = Inr (n, s')"
  shows "in_flight s \<subseteq> in_flight s'"
  using assms by (auto simp: ledger_simps Let_def ids_defs table_ids_map comp_def) (auto simp: table_ids_def)

lemma in_flight_claim:
  assumes "claim_body now lk limit s = Inr (rs, s')"
  shows "in_flight s \<subseteq> in_flight s'"
  using assms by (auto simp: ledger_simps Let_def ids_defs table_ids_map comp_def) (auto simp: table_ids_def)

lemma in_flight_reset:
  assumes "reset_body lk deadline limit s = Inr (n, s')"
  shows "in_flight s \<subseteq> in_flight s'"
  using assms by (auto simp: ledger_simps Let_def ids_defs) (auto simp: table_ids_def)

lemma in_flight_requeue:
  assumes "requeue_body tid s = Inr (b, s')"
  shows "in_flight s \<subseteq> in_flight s'"
  using assms by (auto simp: ledger_simps ids_defs split: option.splits dest!: table_find_SomeD)

lemma survives_derive:
  "derive_callback nid p out at s = Inr s' \<Longrightarrow> survives tid j s \<Longrightarrow> survives tid j s'"
  by (drule derive_callback_effect) (blast intro: survives_adds)

lemma survives_step:
  assumes "ledger_step s s'" and ok: "ledger_ok s" and sv: "survives tid j s"
  shows "survives tid j s'"
  using assms(1)
proof (cases rule: ledger_step_cases)
  case (enq c u req r)
  then show ?thesis using sv by (auto dest!: enqueue_body_effect intro: survives_adds)
next
  case (prom lk limit n)
  then show ?thesis
    by (intro survives_moved [OF sv in_flight_promote]) (auto simp: ledger_simps Let_def)
next
  case (clm now lk limit rs)
  then show ?thesis
    by (intro survives_moved [OF sv in_flight_claim]) (auto simp: ledger_simps Let_def)
next
  case (finish nid t a out res err at chk x)
  then show ?thesis
    using survives_moved_terminal [OF ok _ sv] survives_derive by (auto simp: ledger_simps)
next
  case (reset lk deadline limit n)
  then show ?thesis
    by (intro survives_moved [OF sv in_flight_reset]) (auto simp: ledger_simps Let_def)
next
  case (requeue t b)
  then show ?thesis
    by (intro survives_moved [OF sv in_flight_requeue]) (auto simp: ledger_simps split: option.splits)
qed (use sv in simp)

lemma survives_run:
  "ledger_run s s' \<Longrightarrow> ledger_ok s \<Longrightarrow> survives tid j s \<Longrightarrow> survives tid j s'"
  by (induction rule: ledger_run.induct) (blast intro: survives_step ledger_ok_run)+


section \<open>Attempts\<close>

text \<open>
  The attempt counter of a task never goes back until the task is completed: a fencing
  token for the workers that claimed it. \<open>attempt_level a b\<close> says that the task is completed,
  or schedulable with at least \<open>a\<close> attempts, or in processing with at least \<open>b\<close>; it is
  kept by every step if \<open>a \<le> b \<le> a + 1\<close>, because a claim adds one.
\<close>

definition attempt_row :: "int \<Rightarrow> int \<Rightarrow> claimable \<Rightarrow> ledger \<Rightarrow> bool" where
  "attempt_row a b p s \<longleftrightarrow>
     (p \<in> set (schedulables s) \<and> a \<le> attempts p) \<or> (p \<in> set (processings s) \<and> b \<le> attempts p)"

definition attempt_level :: "int \<Rightarrow> int \<Rightarrow> int \<Rightarrow> ledger \<Rightarrow> bool" where
  "attempt_level a b tid s \<longleftrightarrow>
     tid \<in> done_ids s \<or> (\<exists>p. task_id p = tid \<and> attempt_row a b p s)"

abbreviation attempt_reached :: "int \<Rightarrow> int \<Rightarrow> ledger \<Rightarrow> bool" where
  "attempt_reached a tid s \<equiv> attempt_level a a tid s"

lemma attempt_level_row: "attempt_row a b p s \<Longrightarrow> task_id p = tid \<Longrightarrow> attempt_level a b tid s"
  by (auto simp: attempt_level_def)

lemma attempt_level_adds:
  "adds_identity s s' \<Longrightarrow> attempt_level a b tid s \<Longrightarrow> attempt_level a b tid s'"
  "adds_pending p q at s s' \<Longrightarrow> attempt_level a b tid s \<Longrightarrow> attempt_level a b tid s'"
  by (auto simp: adds_identity_def adds_pending_def attempt_level_def attempt_row_def ids_defs)

lemma attempt_level_extends:
  "extends s s' \<Longrightarrow> tid \<in> done_ids s \<Longrightarrow> attempt_level a b tid s'"
  by (auto simp: attempt_level_def dest: extends_done)

text \<open>A row that is deleted from one stage is the only one of its identifier there.\<close>

lemma row_stays_or_picked:
  assumes "distinct (map task_id t)" and "set rows \<subseteq> set t" and "p \<in> set t"
  shows "p \<in> set rows \<or> p \<in> set (table_delete task_id (map task_id rows) t)"
proof (cases "task_id p \<in> task_id ` set rows")
  case True
  then obtain q where "q \<in> set rows" "task_id q = task_id p" by auto
  then have "q = p" using assms by (auto simp: distinct_map inj_on_def)
  with \<open>q \<in> set rows\<close> show ?thesis by simp
next
  case False
  with assms(3) show ?thesis by (simp add: set_delete_iff)
qed

lemma attempt_level_claim:
  assumes ok: "ledger_ok s" and c: "claim_body now lk limit s = Inr (rs, s')"
    and p: "attempt_row a b p s" "task_id p = tid" and ab: "b \<le> a + 1"
  shows "attempt_level a b tid s'"
proof -
  let ?rows = "claim_pick lk limit s"
  have s': "set (schedulables s') = set (table_delete task_id (map task_id ?rows) (schedulables s))"
    "set (processings s') = set (processings s) \<union> claimed_row now ` set ?rows"
    using c by (auto simp: ledger_simps Let_def)
  show ?thesis
  proof (cases "p \<in> set ?rows \<and> a \<le> attempts p")
    case True
    then have "attempt_row a b (claimed_row now p) s'" using ab by (auto simp: attempt_row_def s')
    then show ?thesis by (rule attempt_level_row) (simp add: p(2))
  next
    case False
    have "attempt_row a b p s'"
      using False p(1) row_stays_or_picked [OF _ pick_sub(2), of s p lk limit] ok
      unfolding attempt_row_def s' by (auto simp: ok_defs)
    then show ?thesis using p(2) by (rule attempt_level_row)
  qed
qed

lemma attempt_level_move_back:
  assumes "distinct (map task_id (processings s))" and "set rows \<subseteq> set (processings s)"
    and s': "s' = s\<lparr>schedulables := schedulables s @ rows,
       processings := table_delete task_id (map task_id rows) (processings s)\<rparr>"
    and p: "attempt_row a b p s" "task_id p = tid" and ab: "a \<le> b"
  shows "attempt_level a b tid s'"
proof -
  have "attempt_row a b p s'"
    using p(1) ab row_stays_or_picked [OF assms(1,2), of p] by (auto simp: attempt_row_def s')
  then show ?thesis using p(2) by (rule attempt_level_row)
qed

lemma attempt_level_terminal:
  assumes q: "table_find task_id t (processings s) = Some q"
    and p: "attempt_row a b p s" "task_id p = tid"
  shows "attempt_level a b tid (moved_terminal q out res err at s)"
proof (cases "tid = t")
  case True
  then show ?thesis using moved_terminal_ids(4) [OF q] by (simp add: attempt_level_def)
next
  case False
  then have "attempt_row a b p (moved_terminal q out res err at s)"
    using p table_find_SomeD [OF q] by (auto simp: attempt_row_def moved_terminal_def set_delete_iff)
  then show ?thesis using p(2) by (rule attempt_level_row)
qed

lemma attempt_level_derive:
  "derive_callback nid p out at s = Inr s' \<Longrightarrow> attempt_level a b tid s \<Longrightarrow> attempt_level a b tid s'"
  by (drule derive_callback_effect) (blast intro: attempt_level_adds)

lemma attempt_level_step:
  assumes step: "ledger_step s s'" and ok: "ledger_ok s" and r: "attempt_level a b tid s"
    and ab: "a \<le> b" "b \<le> a + 1"
  shows "attempt_level a b tid s'"
proof (cases "tid \<in> done_ids s")
  case True
  then show ?thesis using extends_step [OF step] by (rule attempt_level_extends [rotated])
next
  case False
  then obtain p where p: "attempt_row a b p s" "task_id p = tid"
    using r unfolding attempt_level_def by blast
  have d: "distinct (map task_id (processings s))" using ok by (simp add: ok_defs)
  show ?thesis using step
  proof (cases rule: ledger_step_cases)
    case (enq c u req x)
    then show ?thesis using r by (auto dest!: enqueue_body_effect intro: attempt_level_adds)
  next
    case (prom lk limit n)
    then have "attempt_row a b p s'" using p by (auto simp: ledger_simps Let_def attempt_row_def)
    then show ?thesis using p(2) by (rule attempt_level_row)
  next
    case (clm now lk limit rs)
    then show ?thesis by (rule attempt_level_claim [OF ok _ p ab(2)])
  next
    case (finish nid t a' out res err at chk x)
    then show ?thesis
      using attempt_level_terminal [OF _ p] attempt_level_derive by (auto simp: ledger_simps)
  next
    case (reset lk deadline limit n)
    then show ?thesis
      by (intro attempt_level_move_back [OF d pick_sub(3) _ p ab(1)]) (simp add: ledger_simps Let_def)
  next
    case (requeue t b')
    then show ?thesis
      using r attempt_level_move_back [OF d, of "[q]" s' a b p tid for q] p ab(1)
      by (auto simp: ledger_simps split: option.splits dest!: table_find_SomeD)
  qed (use r in simp)
qed

lemma attempt_level_run:
  "ledger_run s s' \<Longrightarrow> ledger_ok s \<Longrightarrow> attempt_level a b tid s \<Longrightarrow> a \<le> b \<Longrightarrow> b \<le> a + 1 \<Longrightarrow>
   attempt_level a b tid s'"
  by (induction rule: ledger_run.induct) (blast intro: attempt_level_step ledger_ok_run)+

lemma attempt_reached_run:
  "ledger_run s s' \<Longrightarrow> ledger_ok s \<Longrightarrow> attempt_reached a tid s \<Longrightarrow> attempt_reached a tid s'"
  by (rule attempt_level_run) simp_all

lemma attempt_reached_iff:
  "attempt_reached a tid s \<longleftrightarrow>
     tid \<in> done_ids s \<or>
     (\<exists>p\<in>set (schedulables s) \<union> set (processings s). task_id p = tid \<and> a \<le> attempts p)"
  by (auto simp: attempt_level_def attempt_row_def)

end
