(* ===== verification/LedgerProps.thy ===== *)
theory LedgerProps
  imports LedgerInv
begin

text \<open>
  The properties of the task ledger: well-formedness of every reachable ledger, survival of
  tasks and payloads, finality of results, fencing by attempts, claim order, idempotent
  enqueueing, and the callbacks a terminal outcome derives. The sample requests at the
  start serve the instances that accompany the theorems.
\<close>

section \<open>Sample executions\<close>

definition sample_request :: "int \<Rightarrow> int \<Rightarrow> string \<Rightarrow> raw \<Rightarrow> enqueue_request" where
  "sample_request tid prio k cb = \<lparr>eq_task_id = tid, eq_type = ''probe'', eq_operator = ''op'',
     eq_priority = prio, eq_channel = ''default'', eq_timeout_ms = 1000, eq_max_attempts = 3,
     eq_idempotency_key = k, eq_callback = cb, eq_parent_task_id = 0, eq_vpc = '''', eq_node = '''',
     eq_label = '''', eq_hash_bucket = 7, eq_biz_race_labels = [], eq_biz_race_entry = '''',
     eq_biz_group = '''', eq_biz_batch_id = '''', eq_payload = Some (JInt 5), eq_created_at = 0,
     eq_updated_at = 0\<rparr>"

definition sample_report :: "int \<Rightarrow> int \<Rightarrow> complete_request" where
  "sample_report tid a = \<lparr>cr_task_id = tid, cr_attempt = a, cr_outcome = OutcomeSucceeded,
     cr_result = Some (JStr ''done''), cr_error = '''', cr_completed_at = 0\<rparr>"

definition no_locks :: "int \<Rightarrow> bool" where
  "no_locks i = False"

text \<open>A task enqueued, promoted and claimed.\<close>

definition sample_enqueued :: "raw \<Rightarrow> ledger" where
  "sample_enqueued cb = snd (enqueue tx_fine 10 (sample_request 1 60 ''k1'' cb) empty_ledger)"

definition sample_promoted :: "raw \<Rightarrow> ledger" where
  "sample_promoted cb = snd (promote tx_fine no_locks 10 (sample_enqueued cb))"

definition sample_claimed :: "raw \<Rightarrow> ledger" where
  "sample_claimed cb = snd (claim tx_fine 20 no_locks 10 (sample_promoted cb))"

definition sample_completed :: "raw \<Rightarrow> ledger" where
  "sample_completed cb = snd (complete tx_fine 30 99 (sample_report 1 1) (sample_claimed cb))"

lemma run_one: "ledger_step s s' \<Longrightarrow> ledger_run s s'"
  by (rule run_step [OF run_refl])

lemma run_trans: "ledger_run t u \<Longrightarrow> ledger_run s t \<Longrightarrow> ledger_run s u"
  by (induction rule: ledger_run.induct) (blast intro: run_step)+

lemma sample_runs:
  "ledger_run empty_ledger (sample_enqueued cb)"
  "ledger_run (sample_enqueued cb) (sample_promoted cb)"
  "ledger_run (sample_promoted cb) (sample_claimed cb)"
  "ledger_run (sample_claimed cb) (sample_completed cb)"
  unfolding sample_enqueued_def sample_promoted_def sample_claimed_def sample_completed_def
  by (rule run_one, rule ledger_step.intros)+

lemma sample_reachable:
  "ledger_run empty_ledger (sample_promoted cb)"
  "ledger_run empty_ledger (sample_claimed cb)"
  "ledger_run empty_ledger (sample_completed cb)"
  by (blast intro: run_trans sample_runs)+

section \<open>Reachable ledgers\<close>



lemma ok_of_runs:
  assumes "ledger_run empty_ledger s" and "ledger_run s s'"
  shows "ledger_ok s" and "ledger_ok s'"
  using ledger_ok_run [OF assms(1) ledger_ok_empty] ledger_ok_run [OF assms(2)] by blast+

lemma payload_of_row:
  "ledger_ok s \<Longrightarrow> pl \<in> set (payloads s) \<Longrightarrow> get_payload (payload_task pl) s = Inr (payload_json pl)"
  using table_find_in [of payload_task "payloads s" pl]
  by (simp add: get_payload_def read_row_def ok_defs)

lemma result_of_row:
  "ledger_ok s \<Longrightarrow> r \<in> set (results s) \<Longrightarrow> get_result (result_task r) s = Inr r"
  using table_find_in [of result_task "results s" r]
  by (simp add: get_result_def read_row_def ok_defs)

text \<open>
  C2. No task is lost: along every execution, a task that is in flight stays in flight with
  its payload, or it is completed and its result row carries that payload.
\<close>

theorem no_task_lost:
  assumes "ledger_run empty_ledger s" and "ledger_run s s'" and "tid \<in> in_flight s"
  shows "\<exists>j. get_payload tid s = Inr j \<and>
    ((tid \<in> in_flight s' \<and> get_payload tid s' = Inr j) \<or>
     (tid \<in> done_ids s' \<and> (\<exists>r. get_result tid s' = Inr r \<and> result_payload r = Some j)))"
proof -
  note ok = ok_of_runs [OF assms(1,2)]
  have "tid \<in> payload_task ` set (payloads s)"
    using ok(1) assms(3) by (simp add: ledger_ok_def payloads_cover_def table_ids_def)
  then obtain pl where pl: "pl \<in> set (payloads s)" "payload_task pl = tid"
    by auto
  then have "survives tid (payload_json pl) s'"
    using survives_run [OF assms(2) ok(1)] assms(3) unfolding survives_def by blast
  then show ?thesis
    using pl payload_of_row [OF ok(1) pl(1)] payload_of_row [OF ok(2)] result_of_row [OF ok(2)]
    unfolding survives_def by metis
qed

theorem no_task_lost_witness:
  "\<exists>j. get_payload 1 (sample_promoted None) = Inr j \<and>
    ((1 \<in> in_flight (sample_completed None) \<and> get_payload 1 (sample_completed None) = Inr j) \<or>
     (1 \<in> done_ids (sample_completed None) \<and>
      (\<exists>r. get_result 1 (sample_completed None) = Inr r \<and> result_payload r = Some j)))"
proof (rule no_task_lost)
  show "ledger_run (sample_promoted None) (sample_completed None)"
    by (rule run_trans [OF sample_runs(4) sample_runs(3)])
  show "1 \<in> in_flight (sample_promoted None)" by code_simp
qed (rule sample_reachable)


section \<open>Completion\<close>

lemma terminal_outcome_True:
  "terminal_outcome r = Inr True \<longleftrightarrow> is_ok r"
  by (auto simp: terminal_outcome_def split: sum.splits)

text \<open>A completed task is never completed again.\<close>

lemma terminal_move_done:
  assumes "tid \<in> done_ids s"
  shows "\<exists>e. terminal_move nid tid a out res err at chk s = Inl e"
  using assms terminal_move_Inr [of nid tid a out res err at chk s "()"]
  by (cases "terminal_move nid tid a out res err at chk s") (auto simp: done_ids_def)

lemma with_tx_err:
  "f s = Inl e \<Longrightarrow> \<exists>e'. with_tx tx f s = (Inl e', s)"
  by (simp add: with_tx_def)

lemma complete_refused:
  assumes "\<exists>e. terminal_move nid (cr_task_id req) (cr_attempt req) (cr_outcome req) (cr_result req)
      (cr_error req) (if is_zero_time (cr_completed_at req) then now else cr_completed_at req) True s = Inl e"
  shows "fst (complete tx now nid req s) \<noteq> Inr True" and "snd (complete tx now nid req s) = s"
  using assms
  by (auto simp: complete_def Let_def terminal_outcome_True dest!: with_tx_err [of _ _ _ tx]
      split: prod.split)

lemma dead_letter_refused:
  assumes "\<exists>e. terminal_move nid tid 0 OutcomeDead None '''' now False s = Inl e"
  shows "fst (dead_letter tx now nid tid s) \<noteq> Inr True" and "snd (dead_letter tx now nid tid s) = s"
  using assms
  by (auto simp: dead_letter_def Let_def terminal_outcome_True dest!: with_tx_err [of _ _ _ tx]
      split: prod.split)

text \<open>
  C3. A result is final: once a task has a result row, every later state has the same row,
  and no later \<open>Complete\<close> or \<open>DeadLetter\<close> of that task, by any worker and with any attempt,
  is accepted or changes the ledger.
\<close>

theorem result_final:
  assumes "ledger_run empty_ledger s" and "get_result tid s = Inr r" and "ledger_run s s'"
  shows "get_result tid s' = Inr r \<and>
    fst (complete tx now nid (req\<lparr>cr_task_id := tid\<rparr>) s') \<noteq> Inr True \<and>
    snd (complete tx now nid (req\<lparr>cr_task_id := tid\<rparr>) s') = s' \<and>
    fst (dead_letter tx now nid tid s') \<noteq> Inr True \<and> snd (dead_letter tx now nid tid s') = s'"
proof -
  note ok = ok_of_runs [OF assms(1,3)]
  have f: "table_find result_task tid (results s) = Some r"
    using assms(2) by (simp add: get_result_def read_row_def split: option.splits)
  then have f': "table_find result_task tid (results s') = Some r"
    using extends_find(1) [OF extends_run [OF assms(3)]] by blast
  have "tid \<in> done_ids s'"
    using f' ok(2) table_find_Some_ids by (fastforce simp: ledger_ok_def results_cover_def)
  note fin = terminal_move_done [OF this]
  show ?thesis
    using f' fin complete_refused [of nid "req\<lparr>cr_task_id := tid\<rparr>"] dead_letter_refused
    by (simp add: get_result_def read_row_def)
qed

theorem result_final_witness:
  "\<exists>r. get_result 1 (sample_completed None) = Inr r \<and> result_json r = Some (JStr ''done'') \<and>
     fst (complete tx_fine 40 77 (sample_report 1 1) (sample_completed None)) \<noteq> Inr True"
proof (intro exI conjI)
  let ?r = "\<lparr>result_task = 1, result_outcome = OutcomeSucceeded, result_attempt = 1,
    result_payload = Some (JInt 5), result_json = Some (JStr ''done''), result_error = '''',
    result_completed = 30\<rparr>"
  show r: "get_result 1 (sample_completed None) = Inr ?r" by code_simp
  show "result_json ?r = Some (JStr ''done'')" by simp
  show "fst (complete tx_fine 40 77 (sample_report 1 1) (sample_completed None)) \<noteq> Inr True"
    using result_final [OF sample_reachable(3) r run_refl, of tx_fine 40 77 "sample_report 1 1"]
    by (simp add: sample_report_def)
qed


section \<open>Completion, branch by branch\<close>

text \<open>When the derivation of a callback succeeds, what it adds, and how it fails.\<close>

lemma derive_callback_cases:
  assumes "valid_channel (task_channel proc)"
  shows "derive_callback nid proc out at s =
    (case callback_of proc out s of
       None \<Rightarrow> Inr s
     | Some d \<Rightarrow>
         if callback_key d proc out \<in> table_ids identity_key (identities s) then Inr s
         else if nid \<in> table_ids identity_task (identities s) \<union> table_ids payload_task (payloads s)
           then Inl (DbConstraint UniqueViolation)
         else if \<not> bucket_check (to_int16 (cb_hash_bucket d)) then Inl (DbConstraint CheckViolation)
         else if nid \<in> table_ids task_id (pendings s) then Inl (DbConstraint UniqueViolation)
         else Inr (s\<lparr>identities := identities s @
                 [\<lparr>identity_task = nid, identity_key = callback_key d proc out, identity_created = at\<rparr>],
               payloads := payloads s @ [\<lparr>payload_task = nid,
                 payload_json = json_or_null (cb_payload d), payload_created = at\<rparr>],
               pendings := pendings s @ [derived_pending nid d proc out at]\<rparr>))"
proof -
  have prio: "priority_check (derived_priority n)" for n
    by (simp add: priority_check_def derived_priority_def default_priority_def min_priority_def
        max_priority_def)
  have "valid_channel (task_channel (derived_pending nid d proc out at))" for d
    using assms by (simp add: derived_pending_def derived_channel_def valid_channel_def)
  moreover have "pending_check (derived_pending nid d proc out at) \<longleftrightarrow>
      bucket_check (to_int16 (cb_hash_bucket d))" for d
    using prio by (simp add: pending_check_def derived_pending_def)
  ultimately show ?thesis
    by (auto simp: derive_callback_def upsert_identity_def insert_payload_def insert_pending_def
        table_insert_def lift_insert_def table_ids_def split: option.split)
qed

lemma derive_callback_no_sentinel:
  "valid_channel (task_channel proc) \<Longrightarrow> derive_callback nid proc out at s = Inl e \<Longrightarrow>
   e \<noteq> StaleAttempt \<and> e \<noteq> DuplicateResult"
  by (auto simp: derive_callback_cases split: option.splits if_splits)

text \<open>The decisions of \<open>Complete\<close> for a well-formed ledger.\<close>

definition complete_spec ::
  "gotime \<Rightarrow> int \<Rightarrow> complete_request \<Rightarrow> ledger \<Rightarrow> (db_error + bool) \<times> ledger" where
  "complete_spec now nid req s =
     (let at = (if is_zero_time (cr_completed_at req) then now else cr_completed_at req) in
      case table_find task_id (cr_task_id req) (processings s) of
        None \<Rightarrow> (Inr False, s)
      | Some p \<Rightarrow>
          if attempts p \<noteq> cr_attempt req then (Inr False, s)
          else if cr_task_id req \<in> done_ids s then (Inl (DbConstraint UniqueViolation), s)
          else case derive_callback nid p (cr_outcome req) at
                 (moved_terminal p (cr_outcome req) (cr_result req) (cr_error req) at s) of
              Inl e \<Rightarrow> (Inl e, s)
            | Inr s' \<Rightarrow> (Inr True, s'))"

lemma terminal_move_steps:
  assumes ok: "ledger_ok s" and p: "table_find task_id tid (processings s) = Some p"
  shows "terminal_move nid tid a out res err at chk s =
    (if chk \<and> attempts p \<noteq> a then Inl StaleAttempt
     else if tid \<in> done_ids s then Inl (DbConstraint UniqueViolation)
     else rbind (derive_callback nid p out at (moved_terminal p out res err at s)) (\<lambda>s'. Inr ((), s')))"
proof -
  note pp = table_find_SomeD [OF p]
  have v: "valid_channel (task_channel (completed_of p out err at))"
    "completed_check (completed_of p out err at)"
    using ok pp by (auto simp: ok_defs completed_of_def completed_check_def claimable_check_def)
  have r: "tid \<in> result_task ` set (results s) \<longleftrightarrow> tid \<in> task_id ` set (completeds s)"
    using ok by (simp add: ledger_ok_def results_cover_def done_ids_def table_ids_def)
  show ?thesis
    using p pp v r
    by (simp add: terminal_move_def insert_completed_def insert_result_def table_insert_def
        lift_insert_def done_ids_def table_ids_def moved_terminal_def)
qed

text \<open>
  C5. \<open>Complete\<close> on every branch: a task that is not in processing, or whose attempt is
  not the reported one, is refused with \<open>false\<close> and no effect; an identifier that was
  already completed is a constraint error; otherwise the row moves to the completed stage
  with its payload merged into the result, and the callback is derived in the same
  transaction, whose failure undoes the move. In particular the duplicate-result sentinel
  is never the reason.
\<close>

theorem complete_branches:
  assumes "ledger_run empty_ledger s"
  shows "complete tx_fine now nid req s = complete_spec now nid req s"
proof -
  have ok: "ledger_ok s" using assms ledger_ok_run ledger_ok_empty by blast
  let ?at = "if is_zero_time (cr_completed_at req) then now else cr_completed_at req"
  show ?thesis
  proof (cases "table_find task_id (cr_task_id req) (processings s)")
    case None
    then have "terminal_move nid (cr_task_id req) (cr_attempt req) (cr_outcome req) (cr_result req)
        (cr_error req) ?at True s = Inl StaleAttempt"
      by (simp add: terminal_move_def)
    then show ?thesis using None
      by (simp add: complete_def complete_spec_def Let_def terminal_outcome_def)
  next
    case (Some p)
    then have v: "valid_channel (task_channel p)"
      using ok by (auto simp: ok_defs dest: table_find_SomeD)
    show ?thesis
      using Some terminal_move_steps [OF ok Some, of nid "cr_attempt req" "cr_outcome req"
          "cr_result req" "cr_error req" ?at True]
      by (auto simp: complete_def complete_spec_def Let_def terminal_outcome_def
          dest: derive_callback_no_sentinel [OF v] split: sum.split)
  qed
qed

theorem complete_branches_witness:
  "complete tx_fine 30 99 (sample_report 1 2) (sample_claimed None) =
     (Inr False, sample_claimed None) \<and>
   fst (complete tx_fine 30 99 (sample_report 1 1) (sample_claimed None)) = Inr True"
  unfolding complete_branches [OF sample_reachable(2)]
  by (intro conjI) code_simp+


section \<open>Claims and fencing\<close>

lemma claim_rows:
  assumes "claim tx now lk limit s = (Inr rs, s')" and "r \<in> set rs"
  shows "claim_body now lk limit s = Inr (rs, s')"
  using assms by (auto simp: claim_def split: if_splits elim: with_tx_cases)

lemma claimed_in_processing:
  assumes "claim_body now lk limit s = Inr (rs, s')" and "r \<in> set rs"
  obtains q where "q \<in> set (schedulables s)" and "r = claimed_row now q" and "r \<in> set (processings s')"
proof -
  obtain q where "q \<in> set (claim_pick lk limit s)" "r = claimed_row now q" "r \<in> set (processings s')"
    using assms by (auto simp: ledger_simps Let_def)
  then show thesis using that pick_sub(2) by blast
qed

text \<open>An identifier has at most one row in the two claimable stages.\<close>

lemma one_stage:
  assumes "ledger_ok s" and "p \<in> set (schedulables s)" and "q \<in> set (processings s)"
  shows "task_id p \<noteq> task_id q"
  using assms in_table_ids [of p "schedulables s" task_id] in_table_ids [of q "processings s" task_id]
  unfolding ledger_ok_def stages_disjoint_def ids_defs by auto

text \<open>A report of an attempt that the task has passed is refused.\<close>

lemma passed_attempt_refused:
  assumes ok: "ledger_ok s" and r: "attempt_reached a tid s" and less: "cr_attempt req < a"
    and tid: "cr_task_id req = tid"
  shows "fst (complete tx now nid req s) \<noteq> Inr True \<and> snd (complete tx now nid req s) = s"
proof -
  let ?at = "if is_zero_time (cr_completed_at req) then now else cr_completed_at req"
  have "\<exists>e. terminal_move nid tid (cr_attempt req) (cr_outcome req) (cr_result req) (cr_error req)
      ?at True s = Inl e"
  proof (cases "tid \<in> done_ids s")
    case True
    then show ?thesis by (rule terminal_move_done)
  next
    case False
    then obtain p where p: "p \<in> set (schedulables s) \<union> set (processings s)" "task_id p = tid" "a \<le> attempts p"
      using r unfolding attempt_reached_iff by blast
    show ?thesis
    proof (cases "table_find task_id tid (processings s)")
      case None
      then show ?thesis by (simp add: terminal_move_def)
    next
      case (Some q)
      note qq = table_find_SomeD [OF Some]
      have "p \<notin> set (schedulables s)"
        using one_stage [OF ok, of p q] p(2) qq by auto
      then have "table_find task_id (task_id p) (processings s) = Some p"
        using p(1) ok by (intro table_find_in) (auto simp: ok_defs)
      then have "p = q" using Some p(2) by simp
      then show ?thesis
        using less p(3) by (simp add: terminal_move_steps [OF ok Some])
    qed
  qed
  then show ?thesis using complete_refused [of nid req] tid by simp
qed


text \<open>The first claimant dies, the task is reset and claimed again.\<close>

definition sample_reclaimed :: ledger where
  "sample_reclaimed = snd (claim tx_fine 60 no_locks 10
     (snd (reset_expired tx_fine no_locks 50 10 (sample_claimed None))))"

definition sample_claimed_row :: "int \<Rightarrow> gotime \<Rightarrow> claimable" where
  "sample_claimed_row a at = (schedulable_of_pending
     (pending_of_request 10 10 (sample_request 1 60 ''k1'' None)))\<lparr>attempts := a, updated_at := at\<rparr>"



definition claim_order :: "claimable \<Rightarrow> int \<times> int" where
  "claim_order r = (- priority r, task_id r)"

lemma claim_pick_order: "claim_pick lk limit s =
    take (nat limit) (sort_key claim_order (filter (\<lambda>r. \<not> lk (task_id r)) (schedulables s)))"
  by (simp add: claim_pick_def claim_order_def [abs_def])

lemma claim_head_facts:
  assumes "ledger_run empty_ledger s" and "0 < limit"
    and "claim tx now lk limit s = (Inr rs, s')"
  shows "length rs = min (nat limit) (length (filter (\<lambda>r. \<not> lk (task_id r)) (schedulables s)))"
    and "sorted (map claim_order rs)"
    and "\<forall>r\<in>set rs. \<forall>q\<in>set (schedulables s'). \<not> lk (task_id q) \<longrightarrow> claim_order r \<le> claim_order q"
    and "\<forall>r\<in>set rs. r \<in> set (processings s') \<and>
      (\<exists>q\<in>set (schedulables s). r = q\<lparr>attempts := attempts q + 1, updated_at := now\<rparr>)"
proof -
  have c: "claim_body now lk limit s = Inr (rs, s')"
    using assms(2,3) by (auto simp: claim_def elim: with_tx_cases)
  let ?rows = "claim_pick lk limit s"
  have rs: "rs = map (claimed_row now) ?rows"
    and left: "schedulables s' = table_delete task_id (map task_id ?rows) (schedulables s)"
    using c by (simp_all add: ledger_simps Let_def)
  have key: "claim_order (claimed_row now q) = claim_order q" for q
    by (simp add: claim_order_def claimed_row_def)
  show "length rs = min (nat limit) (length (filter (\<lambda>r. \<not> lk (task_id r)) (schedulables s)))"
    by (simp add: rs claim_pick_order min.commute)
  have "sorted (map claim_order ?rows)"
    unfolding claim_pick_order by (metis sorted_sort_key sorted_wrt_take take_map)
  then show "sorted (map claim_order rs)" by (simp add: rs key comp_def)
  show "\<forall>r\<in>set rs. \<forall>q\<in>set (schedulables s'). \<not> lk (task_id q) \<longrightarrow> claim_order r \<le> claim_order q"
  proof (intro ballI impI)
    fix r q assume r: "r \<in> set rs" and q: "q \<in> set (schedulables s')" "\<not> lk (task_id q)"
    obtain r0 where r0: "r0 \<in> set ?rows" "r = claimed_row now r0" using r rs by auto
    have "q \<in> set (schedulables s)" "q \<notin> set ?rows" using q left by (auto simp: set_delete_iff)
    then show "claim_order r \<le> claim_order q"
      using take_sort_key_least r0 q(2) key unfolding claim_pick_order by fastforce
  qed
  show "\<forall>r\<in>set rs. r \<in> set (processings s') \<and>
      (\<exists>q\<in>set (schedulables s). r = q\<lparr>attempts := attempts q + 1, updated_at := now\<rparr>)"
    using claimed_in_processing [OF c] unfolding claimed_row_def by metis
qed


text \<open>Two schedulable tasks; the more urgent one was enqueued later.\<close>

definition sample_two :: ledger where
  "sample_two = snd (promote tx_fine no_locks 10
     (snd (enqueue tx_fine 10 (sample_request 2 90 '''' None) (sample_enqueued None))))"

definition sample_urgent :: "claimable list" where
  "sample_urgent = [(schedulable_of_pending (pending_of_request 10 10 (sample_request 2 90 '''' None)))
     \<lparr>attempts := 1, updated_at := 20\<rparr>]"


section \<open>Enqueueing\<close>

lemma enqueue_body_of:
  assumes "enqueue tx now req s = (Inr r, s')"
  obtains c u where "enqueue_body c u req s = Inr (r, s')"
  using assms unfolding enqueue_def Let_def by (auto elim: with_tx_cases)

text \<open>After a successful enqueue under a key, the key is bound to the returned task.\<close>

lemma enqueue_binds_key:
  assumes "enqueue_body c u req s = Inr (r, s')" and "eq_idempotency_key req \<noteq> ''''"
    and ok: "ledger_ok s"
  shows "\<exists>i. table_find identity_key (eq_idempotency_key req) (identities s') = Some i \<and>
    identity_task i = er_task_id r"
proof (cases "eq_idempotency_key req \<in> table_ids identity_key (identities s)")
  case True
  then show ?thesis using assms
    by (auto simp: enqueue_body_def ledger_simps result_simps split: option.splits)
next
  case False
  then show ?thesis using assms
    by (auto simp: enqueue_body_def ledger_simps result_simps Let_def table_find_append
        table_find_Cons table_find_None [THEN iffD2])
qed

lemma enqueue_body_bound_key:
  assumes "table_find identity_key (eq_idempotency_key req) (identities s) = Some i"
    and "eq_idempotency_key req \<noteq> ''''"
  shows "enqueue_body c u req s = Inr (\<lparr>er_task_id = identity_task i, er_created = False\<rparr>, s)"
  using assms table_find_Some_ids [OF assms(1)]
  by (simp add: enqueue_body_def upsert_identity_def table_ids_def)

text \<open>
  C8. Idempotent enqueueing: once a request with an idempotency key has been accepted,
  every later accepted request with that key, whatever its other fields and however the
  ledger has evolved (also after the task was completed), returns the same task, reports
  that nothing was created, and leaves the ledger as it is; on a working database it is
  accepted.
\<close>

theorem enqueue_idempotent:
  assumes "ledger_run empty_ledger s" and "enqueue tx now req s = (Inr r, s1)"
    and "ledger_run s1 s2" and "eq_idempotency_key req \<noteq> ''''"
    and "eq_idempotency_key req2 = eq_idempotency_key req"
  shows "enqueue tx_fine now2 req2 s2 = (Inr \<lparr>er_task_id = er_task_id r, er_created = False\<rparr>, s2) \<and>
    snd (enqueue tx2 now2 req2 s2) = s2"
proof -
  have ok: "ledger_ok s" using assms(1) ledger_ok_run ledger_ok_empty by blast
  obtain c u where "enqueue_body c u req s = Inr (r, s1)" using enqueue_body_of [OF assms(2)] .
  then obtain i where i: "table_find identity_key (eq_idempotency_key req) (identities s1) = Some i"
    "identity_task i = er_task_id r"
    using enqueue_binds_key assms(4) ok by blast
  have "table_find identity_key (eq_idempotency_key req2) (identities s2) = Some i"
    using extends_find(2) [OF extends_run [OF assms(3)] i(1)] assms(5) by simp
  then show ?thesis
    using enqueue_body_bound_key [of req2 s2 i] assms(4,5) i(2)
    by (simp add: enqueue_def Let_def with_tx_def tx_fine_def)
qed

theorem enqueue_idempotent_witness:
  "enqueue tx_fine 99 (sample_request 5 10 ''k1'' None) (sample_completed None) =
     (Inr \<lparr>er_task_id = 1, er_created = False\<rparr>, sample_completed None)"
proof -
  have e: "enqueue tx_fine 10 (sample_request 1 60 ''k1'' None) empty_ledger =
      (Inr \<lparr>er_task_id = 1, er_created = True\<rparr>, sample_enqueued None)" by code_simp
  have r: "ledger_run (sample_enqueued None) (sample_completed None)"
    by (blast intro: run_trans sample_runs)
  show ?thesis
    using enqueue_idempotent [OF run_refl e r, of "sample_request 5 10 ''k1'' None"]
    by (simp add: sample_request_def)
qed

section \<open>Atomicity\<close>



section \<open>Callbacks\<close>

lemma derived_key_eq:
  "derived_key p a out = derived_key p' a' out' \<longleftrightarrow> p = p' \<and> a = a' \<and> out = out'"
proof
  assume e: "derived_key p a out = derived_key p' a' out'"
  then have "show_int p = show_int p' \<and>
      show_int a @ '':'' @ show_int (outcome_code out) = show_int a' @ '':'' @ show_int (outcome_code out')"
    unfolding derived_key_def
    using append_sep_inj [OF show_int_no_colon [of p] show_int_no_colon [of p']] by simp
  moreover from this have "show_int a = show_int a' \<and> show_int (outcome_code out) = show_int (outcome_code out')"
    using append_sep_inj [OF show_int_no_colon [of a] show_int_no_colon [of a']] by fastforce
  ultimately show "p = p' \<and> a = a' \<and> out = out'"
    using show_int_inj outcome_code_inj by blast
qed simp

text \<open>
  A terminal outcome derives at most one task under its default key: in a reachable
  ledger two identity rows with default keys are the same row exactly when the parent, the
  attempt and the outcome coincide, so keys of different terminal events never collide.
\<close>

theorem derived_key_unique:
  assumes "ledger_run empty_ledger s" and "i \<in> set (identities s)" and "j \<in> set (identities s)"
    and "identity_key i = derived_key p a out" and "identity_key j = derived_key p' a' out'"
  shows "i = j \<longleftrightarrow> p = p' \<and> a = a' \<and> out = out'"
proof -
  have ok: "ledger_ok s" using assms(1) ledger_ok_run ledger_ok_empty by blast
  have "i = j \<longleftrightarrow> identity_key i = identity_key j"
    using ok assms(2,3) by (auto simp: ok_defs distinct_map inj_on_def)
  also have "\<dots> \<longleftrightarrow> derived_key p a out = derived_key p' a' out'" using assms(4,5) by simp
  also have "\<dots> \<longleftrightarrow> p = p' \<and> a = a' \<and> out = out'" by (rule derived_key_eq)
  finally show ?thesis .
qed


text \<open>A task that derives another on success, and the ledger after both are done.\<close>

definition sample_callback :: "int \<Rightarrow> callback_spec" where
  "sample_callback bucket = CallbackSpec (Some (CallbackTask ''next'' '''' 0 '''' '''' '''' '''' bucket 0 0 ''''
     (Some (JInt 9)) None [] '''' '''' '''')) None"

theorem derived_key_unique_witness:
  "\<exists>i\<in>set (identities (sample_completed (Some (enc_spec (sample_callback 3))))).
     identity_key i = derived_key 1 1 OutcomeSucceeded \<and> identity_task i = 99 \<and>
     (i = i \<longleftrightarrow> (1::int) = 1 \<and> (1::int) = 1 \<and> OutcomeSucceeded = OutcomeSucceeded)"
proof -
  let ?i = "\<lparr>identity_task = 99, identity_key = derived_key 1 1 OutcomeSucceeded, identity_created = 30\<rparr>"
  have i: "?i \<in> set (identities (sample_completed (Some (enc_spec (sample_callback 3)))))"
    by code_simp
  show ?thesis
    using derived_key_unique [OF sample_reachable(3) i i, of 1 1 OutcomeSucceeded 1 1 OutcomeSucceeded] i
    by (intro bexI [of _ ?i]) simp_all
qed

text \<open>
  A stored callback reads back as it was written: for a specification whose integers
  fit the Go fields, decoding the encoded column gives the same specification, where a
  specification with neither branch is the absent one.
\<close>

theorem callback_column_roundtrip:
  assumes "wf_spec spec"
  shows "unmarshal_callback (marshal_callback (Some spec)) =
    Inr (if on_success spec = None \<and> on_error spec = None then None else Some spec)"
  using dec_enc(1) [OF assms] by (simp add: unmarshal_callback_def marshal_callback_def)

theorem callback_column_roundtrip_witness:
  "unmarshal_callback (marshal_callback (Some (sample_callback 3))) = Inr (Some (sample_callback 3))"
proof -
  have "wf_spec (sample_callback 3)" by code_simp
  from callback_column_roundtrip [OF this] show ?thesis by (simp add: sample_callback_def)
qed

text \<open>
  A callback whose hash bucket is outside 0..255 after the conversion to 16 bits blocks
  the completion of its task: the derived row violates the table's CHECK constraint, which
  undoes the whole terminal transaction, so \<open>Complete\<close> reports an error, never \<open>true\<close>,
  and the ledger is unchanged, whatever identifier is generated and however often the
  report is repeated.
\<close>

theorem bad_bucket_blocks_completion:
  assumes "ledger_run empty_ledger s"
    and "table_find task_id tid (processings s) = Some p" and "attempts p = a"
    and "callback_of p out (moved_terminal p out res err at s) = Some d"
    and "callback_key d p out \<notin> table_ids identity_key (identities s)"
    and "\<not> bucket_check (to_int16 (cb_hash_bucket d))"
    and "\<not> is_zero_time at"
  shows "\<exists>e. complete tx now nid \<lparr>cr_task_id = tid, cr_attempt = a, cr_outcome = out, cr_result = res,
      cr_error = err, cr_completed_at = at\<rparr> s = (Inl e, s) \<and> (is_constraint_error e \<or> \<not> begin_ok tx)"
proof -
  have ok: "ledger_ok s" using assms(1) ledger_ok_run ledger_ok_empty by blast
  then have v: "valid_channel (task_channel p)"
    using assms(2) by (auto simp: ok_defs dest: table_find_SomeD)
  have i: "identities (moved_terminal p out res err at s) = identities s"
    by (simp add: moved_terminal_def)
  have "\<exists>e. derive_callback nid p out at (moved_terminal p out res err at s) = Inl (DbConstraint e)"
    using assms(4-6) i by (auto simp: derive_callback_cases [OF v])
  then obtain e where d: "derive_callback nid p out at (moved_terminal p out res err at s) = Inl (DbConstraint e)"
    by blast
  have "\<exists>e. terminal_move nid tid a out res err at True s = Inl (DbConstraint e)"
    using d assms(3) by (simp add: terminal_move_steps [OF ok assms(2)])
  then obtain e' where t: "terminal_move nid tid a out res err at True s = Inl (DbConstraint e')"
    by blast
  show ?thesis
    using t assms(7) by (simp add: complete_def Let_def with_tx_def terminal_outcome_def is_constraint_error_def)
qed

theorem bad_bucket_blocks_completion_witness:
  "\<exists>e. complete tx_fine 30 99 (sample_report 1 1 \<lparr>cr_completed_at := 30\<rparr>)
     (sample_claimed (Some (enc_spec (sample_callback 300)))) =
     (Inl e, sample_claimed (Some (enc_spec (sample_callback 300))))"
proof -
  let ?s = "sample_claimed (Some (enc_spec (sample_callback 300)))"
  let ?p = "(schedulable_of_pending (pending_of_request 10 10
     (sample_request 1 60 ''k1'' (Some (enc_spec (sample_callback 300))))))\<lparr>attempts := 1, updated_at := 20\<rparr>"
  have f: "table_find task_id 1 (processings ?s) = Some ?p" by code_simp
  have a: "attempts ?p = 1" by simp
  have c: "callback_of ?p OutcomeSucceeded (moved_terminal ?p OutcomeSucceeded (Some (JStr ''done'')) '''' 30 ?s)
      = on_success (sample_callback 300)" by code_simp
  have k: "callback_key (the (on_success (sample_callback 300))) ?p OutcomeSucceeded
      \<notin> table_ids identity_key (identities ?s)" by code_simp
  have b: "\<not> bucket_check (to_int16 (cb_hash_bucket (the (on_success (sample_callback 300)))))" by code_simp
  show ?thesis
    using bad_bucket_blocks_completion [OF sample_reachable(2) f a, of OutcomeSucceeded
        "Some (JStr ''done'')" "''''" 30 "the (on_success (sample_callback 300))" tx_fine 30 99] c k b
    by (auto simp: sample_report_def sample_callback_def is_zero_time_def)
qed


text \<open>The \<open>n\<close>-th ancestor along \<open>parent_task_id\<close> through the completed rows.\<close>

fun ancestor :: "nat \<Rightarrow> completed list \<Rightarrow> int \<Rightarrow> int option" where
  "ancestor 0 t tid = Some tid"
| "ancestor (Suc n) t tid =
     (case table_find task_id tid t of
        None \<Rightarrow> None
      | Some row \<Rightarrow> if parent_task_id row = 0 then None else ancestor n t (parent_task_id row))"

lemma depth_loop_ge: "depth \<le> callback_depth_loop depth cur t"
proof (induction depth cur t rule: callback_depth_loop.induct)
  case (1 depth cur t)
  then show ?case
    by (subst callback_depth_loop.simps) (fastforce dest: Suc_leD split: option.split)
qed

lemma depth_loop_ancestor:
  "depth + n \<le> Suc max_callback_depth \<Longrightarrow>
   depth + n \<le> callback_depth_loop depth cur t \<longleftrightarrow> ancestor n t cur \<noteq> None"
proof (induction n arbitrary: depth cur)
  case 0
  then show ?case using depth_loop_ge by simp
next
  case (Suc n)
  then have le: "depth \<le> max_callback_depth" by simp
  show ?case
  proof (cases "table_find task_id cur t")
    case None
    then show ?thesis using le by (simp add: callback_depth_loop.simps [of depth])
  next
    case (Some row)
    then show ?thesis
      using le Suc.IH [of "Suc depth" "parent_task_id row"] Suc.prems
      by (simp add: callback_depth_loop.simps [of depth])
  qed
qed

lemma callback_depth_limit:
  "max_callback_depth \<le> callback_depth tid s \<longleftrightarrow> ancestor max_callback_depth (completeds s) tid \<noteq> None"
  using depth_loop_ancestor [of 0 max_callback_depth tid "completeds s"] by (simp add: callback_depth_def)

text \<open>
  The derivation of callbacks stops: when the completed task has eight ancestors, which
  includes any cyclic chain of parents, \<open>Complete\<close> is accepted but adds no task, so that
  the resulting ledger is exactly the one with the task moved to the completed stage.
\<close>

theorem depth_limit_stops_derivation:
  assumes "ledger_run empty_ledger s"
    and "table_find task_id (cr_task_id req) (processings s) = Some p"
    and "attempts p = cr_attempt req" and "cr_task_id req \<notin> done_ids s"
    and "at = (if is_zero_time (cr_completed_at req) then now else cr_completed_at req)"
    and "s1 = moved_terminal p (cr_outcome req) (cr_result req) (cr_error req) at s"
    and "ancestor 8 (completeds s1) (cr_task_id req) \<noteq> None"
  shows "complete tx_fine now nid req s = (Inr True, s1) \<and> pendings s1 = pendings s"
proof -
  have ok: "ledger_ok s" using assms(1) ledger_ok_run ledger_ok_empty by blast
  have tid: "task_id p = cr_task_id req" using table_find_SomeD [OF assms(2)] by simp
  have "max_callback_depth \<le> callback_depth (task_id p) s1"
    unfolding callback_depth_limit using assms(7) by (simp add: tid max_callback_depth_def)
  then have "callback_of p (cr_outcome req) s1 = None"
    by (auto simp: callback_of_def split: sum.split option.split)
  then have "derive_callback nid p (cr_outcome req) at s1 = Inr s1" by (simp add: derive_callback_def)
  then show ?thesis
    using terminal_move_steps [OF ok assms(2), of nid "cr_attempt req" "cr_outcome req" "cr_result req"
        "cr_error req" at True] assms(3,4,5,6)
    by (simp add: complete_def Let_def terminal_outcome_def) (simp add: moved_terminal_def)
qed

text \<open>A task that names itself as its parent.\<close>

definition sample_cyclic :: ledger where
  "sample_cyclic = snd (claim tx_fine 20 no_locks 10 (snd (promote tx_fine no_locks 10
     (snd (enqueue tx_fine 10 (sample_request 1 60 ''k1'' (Some (enc_spec (sample_callback 3)))
        \<lparr>eq_parent_task_id := 1\<rparr>) empty_ledger)))))"

theorem depth_limit_stops_derivation_witness:
  "fst (complete tx_fine 30 99 (sample_report 1 1) sample_cyclic) = Inr True \<and>
   length (pendings (snd (complete tx_fine 30 99 (sample_report 1 1) sample_cyclic))) = 0"
proof -
  let ?p = "(schedulable_of_pending (pending_of_request 10 10 (sample_request 1 60 ''k1''
     (Some (enc_spec (sample_callback 3))) \<lparr>eq_parent_task_id := 1\<rparr>)))\<lparr>attempts := 1, updated_at := 20\<rparr>"
  have run: "ledger_run empty_ledger sample_cyclic"
    unfolding sample_cyclic_def
    by (rule run_step [OF run_step [OF run_one [OF step_enqueue] step_promote] step_claim])
  have f: "table_find task_id (cr_task_id (sample_report 1 1)) (processings sample_cyclic) = Some ?p"
    by code_simp
  have a: "attempts ?p = cr_attempt (sample_report 1 1)" by code_simp
  have n: "cr_task_id (sample_report 1 1) \<notin> done_ids sample_cyclic" by code_simp
  have anc: "ancestor 8 (completeds (moved_terminal ?p OutcomeSucceeded (Some (JStr ''done'')) '''' 30 sample_cyclic))
      (cr_task_id (sample_report 1 1)) \<noteq> None" by code_simp
  have z: "pendings sample_cyclic = []" by code_simp
  show ?thesis
    using depth_limit_stops_derivation [OF run f a n refl refl, of 30 99] anc z
    by (simp add: sample_report_def is_zero_time_def)
qed

end
