(* ===== verification/Repos.thy ===== *)
theory Repos
  imports LedgerInv
begin

text \<open>
  The single-table repositories (\<open>internal/domain/data/task_*.go\<close>). They run on the
  connection pool, one statement at a time, so a batch that the code writes row by row
  keeps the rows written before a failure. A repository entity has the columns of its row,
  so the row records serve as entities. \<open>up\<close> says for which task a statement reaches the
  database. The scans are modelled for positive limits.
\<close>

section \<open>Stage tables\<close>

definition pendings_create :: "pending list \<Rightarrow> ledger \<Rightarrow> (db_error + unit) \<times> ledger" where
  "pendings_create ts s =
     (if ts = [] then (Inr (), s)
      else if \<not> list_all (\<lambda>t. valid_channel (task_channel t)) ts then (Inl DbValidation, s)
      else case lift_insert (table_insert_all pending_check task_id ts (pendings s)) of
          Inl e \<Rightarrow> (Inl e, s)
        | Inr t \<Rightarrow> (Inr (), s\<lparr>pendings := t\<rparr>))"

definition pendings_list_for_promotion :: "int \<Rightarrow> ledger \<Rightarrow> pending list" where
  "pendings_list_for_promotion limit s =
     take (nat limit) (sort_key (\<lambda>p. - priority p) (pendings s))"

definition pendings_delete :: "int list \<Rightarrow> ledger \<Rightarrow> ledger" where
  "pendings_delete ids s = s\<lparr>pendings := table_delete task_id ids (pendings s)\<rparr>"

definition pendings_get :: "int \<Rightarrow> ledger \<Rightarrow> db_error + pending" where
  "pendings_get tid s = read_row (table_find task_id tid (pendings s))"

definition schedulables_create :: "claimable list \<Rightarrow> ledger \<Rightarrow> (db_error + unit) \<times> ledger" where
  "schedulables_create ts s =
     (if ts = [] then (Inr (), s)
      else case insert_schedulables ts s of Inl e \<Rightarrow> (Inl e, s) | Inr s' \<Rightarrow> (Inr (), s'))"

definition schedulables_list_for_claim :: "int \<Rightarrow> ledger \<Rightarrow> claimable list" where
  "schedulables_list_for_claim limit s =
     take (nat limit) (sort_key (\<lambda>p. - priority p) (schedulables s))"

definition schedulables_delete :: "int list \<Rightarrow> ledger \<Rightarrow> ledger" where
  "schedulables_delete ids s = s\<lparr>schedulables := table_delete task_id ids (schedulables s)\<rparr>"

definition schedulables_get :: "int \<Rightarrow> ledger \<Rightarrow> db_error + claimable" where
  "schedulables_get tid s = read_row (table_find task_id tid (schedulables s))"

definition processings_create :: "claimable list \<Rightarrow> ledger \<Rightarrow> (db_error + unit) \<times> ledger" where
  "processings_create ts s =
     (if ts = [] then (Inr (), s)
      else if \<not> list_all (\<lambda>t. valid_channel (task_channel t)) ts then (Inl DbValidation, s)
      else case lift_insert (table_insert_all claimable_check task_id ts (processings s)) of
          Inl e \<Rightarrow> (Inl e, s)
        | Inr t \<Rightarrow> (Inr (), s\<lparr>processings := t\<rparr>))"

definition processings_list_expired :: "gotime \<Rightarrow> int \<Rightarrow> ledger \<Rightarrow> claimable list" where
  "processings_list_expired deadline limit s =
     take (nat limit) (sort_key updated_at (filter (\<lambda>p. updated_at p < deadline) (processings s)))"

definition processings_delete :: "int list \<Rightarrow> ledger \<Rightarrow> ledger" where
  "processings_delete ids s = s\<lparr>processings := table_delete task_id ids (processings s)\<rparr>"

definition processings_get :: "int \<Rightarrow> ledger \<Rightarrow> db_error + claimable" where
  "processings_get tid s = read_row (table_find task_id tid (processings s))"

definition completeds_create :: "completed list \<Rightarrow> ledger \<Rightarrow> (db_error + unit) \<times> ledger" where
  "completeds_create ts s =
     (if ts = [] then (Inr (), s)
      else if \<not> list_all (\<lambda>t. valid_channel (task_channel t)) ts then (Inl DbValidation, s)
      else case lift_insert (table_insert_all completed_check task_id ts (completeds s)) of
          Inl e \<Rightarrow> (Inl e, s)
        | Inr t \<Rightarrow> (Inr (), s\<lparr>completeds := t\<rparr>))"

definition completeds_count_by_batch :: "string \<Rightarrow> ledger \<Rightarrow> int" where
  "completeds_count_by_batch b s = count_batch b (completeds s)"

definition completeds_list_dead_letters :: "int \<Rightarrow> ledger \<Rightarrow> completed list" where
  "completeds_list_dead_letters limit s =
     take (nat limit)
       (sort_key (\<lambda>c. - completed_at c) (filter (\<lambda>c. final_outcome c = OutcomeDead) (completeds s)))"

definition completeds_get :: "int \<Rightarrow> ledger \<Rightarrow> db_error + completed" where
  "completeds_get tid s = read_row (table_find task_id tid (completeds s))"

section \<open>Payloads, results, identities\<close>

text \<open>The entity's payload may be empty; the column then holds JSON \<open>null\<close>.\<close>

record payload_entity =
  pe_task :: int
  pe_payload :: raw
  pe_created :: gotime

definition payload_of_entity :: "payload_entity \<Rightarrow> payload_row" where
  "payload_of_entity p = \<lparr>payload_task = pe_task p, payload_json = json_or_null (pe_payload p),
     payload_created = pe_created p\<rparr>"

definition payloads_create :: "payload_entity list \<Rightarrow> ledger \<Rightarrow> (db_error + unit) \<times> ledger" where
  "payloads_create ps s =
     (if ps = [] then (Inr (), s)
      else case lift_insert (table_insert_all (\<lambda>_. True) payload_task (map payload_of_entity ps)
             (payloads s)) of
          Inl e \<Rightarrow> (Inl e, s)
        | Inr t \<Rightarrow> (Inr (), s\<lparr>payloads := t\<rparr>))"

definition payloads_get :: "int \<Rightarrow> ledger \<Rightarrow> db_error + payload_entity" where
  "payloads_get tid s =
     (case table_find payload_task tid (payloads s) of
        None \<Rightarrow> Inl DbNotFound
      | Some r \<Rightarrow> Inr \<lparr>pe_task = payload_task r, pe_payload = Some (payload_json r),
                       pe_created = payload_created r\<rparr>)"

definition payloads_delete :: "int list \<Rightarrow> ledger \<Rightarrow> ledger" where
  "payloads_delete ids s = s\<lparr>payloads := table_delete payload_task ids (payloads s)\<rparr>"

text \<open>A constraint error of a result is a duplicate; any other error ends the batch.\<close>

fun results_create ::
  "(int \<Rightarrow> bool) \<Rightarrow> result_row list \<Rightarrow> ledger \<Rightarrow> (db_error + bool list) \<times> ledger" where
  "results_create up [] s = (Inr [], s)"
| "results_create up (r # rs) s =
     (if \<not> up (result_task r) then (Inl DbUnavailable, s)
      else
        let (new, s1) = (case table_insert (\<lambda>_. True) result_task r (results s) of
               Inl _ \<Rightarrow> (False, s)
             | Inr t \<Rightarrow> (True, s\<lparr>results := t\<rparr>));
            (q, s2) = results_create up rs s1
        in case q of Inl e \<Rightarrow> (Inl e, s2) | Inr bs \<Rightarrow> (Inr (new # bs), s2))"

definition results_get :: "int \<Rightarrow> ledger \<Rightarrow> db_error + result_row" where
  "results_get tid s = read_row (table_find result_task tid (results s))"

text \<open>
  \<open>Put\<close>: a conflict looks the key up; a conflict on the identifier under a fresh key
  therefore ends the batch with the lookup's error. The creation time is the default.
\<close>

definition identities_get :: "string \<Rightarrow> ledger \<Rightarrow> db_error + identity_row" where
  "identities_get k s = read_row (table_find identity_key k (identities s))"

fun identities_put ::
  "(int \<Rightarrow> bool) \<Rightarrow> gotime \<Rightarrow> (int \<times> string) list \<Rightarrow> ledger
     \<Rightarrow> (db_error + (int \<times> bool) list) \<times> ledger" where
  "identities_put up now [] s = (Inr [], s)"
| "identities_put up now ((tid, k) # is) s =
     (if k = '''' then (Inl DbValidation, s)
      else if \<not> up tid then (Inl DbUnavailable, s)
      else
        let (m, s1) =
          (if tid \<in> identity_task ` set (identities s) \<or> k \<in> identity_key ` set (identities s)
           then (map_sum id (\<lambda>row. (identity_task row, False)) (identities_get k s), s)
           else (Inr (tid, True), s\<lparr>identities := identities s @
                   [\<lparr>identity_task = tid, identity_key = k, identity_created = now\<rparr>]\<rparr>))
        in case m of
            Inl e \<Rightarrow> (Inl e, s1)
          | Inr x \<Rightarrow>
              let (q, s2) = identities_put up now is s1
              in case q of Inl e \<Rightarrow> (Inl e, s2) | Inr xs \<Rightarrow> (Inr (x # xs), s2))"

definition identities_delete_before :: "gotime \<Rightarrow> ledger \<Rightarrow> int \<times> ledger" where
  "identities_delete_before cutoff s =
     (let old = filter (\<lambda>i. identity_created i < cutoff) (identities s)
      in (int (length old),
          s\<lparr>identities := filter (\<lambda>i. \<not> identity_created i < cutoff) (identities s)\<rparr>))"


section \<open>What the batches guarantee\<close>

text \<open>Both batches append rows and nothing else.\<close>

definition result_step :: "result_row \<Rightarrow> ledger \<Rightarrow> bool \<times> ledger" where
  "result_step r s =
     (case table_insert (\<lambda>_. True) result_task r (results s) of
        Inl _ \<Rightarrow> (False, s)
      | Inr t \<Rightarrow> (True, s\<lparr>results := t\<rparr>))"

lemma result_step_cases:
  "result_step r s =
     (if result_task r \<in> table_ids result_task (results s) then (False, s)
      else (True, s\<lparr>results := results s @ [r]\<rparr>))"
  by (simp add: result_step_def table_insert_def table_ids_def)

lemma results_create_ok:
  assumes "results_create up (r # rs) s = (Inr bs, s')"
  obtains cs where "results_create up rs (snd (result_step r s)) = (Inr cs, s')"
    and "bs = fst (result_step r s) # cs"
  using assms
  by (auto simp: result_step_def [symmetric] Let_def split: if_splits sum.splits prod.splits)

lemma results_create_keeps:
  assumes "results_create up rs s = (Inr bs, s')" and "table_find result_task tid (results s) = Some r"
  shows "table_find result_task tid (results s') = Some r"
  using assms
proof (induction rs arbitrary: s bs)
  case (Cons x rs)
  obtain cs where "results_create up rs (snd (result_step x s)) = (Inr cs, s')"
    using results_create_ok [OF Cons.prems(1)] .
  moreover have "table_find result_task tid (results (snd (result_step x s))) = Some r"
    using Cons.prems(2) by (simp add: result_step_cases table_find_append)
  ultimately show ?case by (rule Cons.IH)
qed simp

lemma results_create_rows:
  assumes "results_create up rs s = (Inr bs, s')"
  shows "list_all2 (\<lambda>r b. \<exists>r'. table_find result_task (result_task r) (results s') = Some r' \<and>
    (b \<longrightarrow> r' = r)) rs bs"
  using assms
proof (induction rs arbitrary: s bs)
  case (Cons x rs)
  obtain cs where rec: "results_create up rs (snd (result_step x s)) = (Inr cs, s')"
    and bs: "bs = fst (result_step x s) # cs"
    using results_create_ok [OF Cons.prems] .
  have "\<exists>r'. table_find result_task (result_task x) (results (snd (result_step x s))) = Some r' \<and>
      (fst (result_step x s) \<longrightarrow> r' = x)"
    using table_find_None [of result_task "result_task x" "results s"]
    by (auto simp: result_step_cases table_find_append table_find_Cons split: option.split)
  then show ?case
    using Cons.IH [OF rec] results_create_keeps [OF rec] bs by auto
qed simp

definition identity_bound :: "string \<Rightarrow> int \<Rightarrow> ledger \<Rightarrow> bool" where
  "identity_bound k tid s \<longleftrightarrow>
     (\<exists>row. table_find identity_key k (identities s) = Some row \<and> identity_task row = tid)"

lemma identities_put_ok:
  assumes "identities_put up now ((tid, k) # is) s = (Inr xs, s')"
  obtains t c ys s1 where "xs = (t, c) # ys" and "identities_put up now is s1 = (Inr ys, s')"
    and "identity_bound k t s1" and "c \<longrightarrow> t = tid"
    and "\<And>k' t'. identity_bound k' t' s \<Longrightarrow> identity_bound k' t' s1"
proof (cases "tid \<in> identity_task ` set (identities s) \<or> k \<in> identity_key ` set (identities s)")
  case True
  then obtain row ys where "table_find identity_key k (identities s) = Some row"
    "xs = (identity_task row, False) # ys" "identities_put up now is s = (Inr ys, s')"
    using assms
    by (auto simp: Let_def identities_get_def read_row_def split: if_splits sum.splits prod.splits option.splits)
  then show thesis using that [of "identity_task row" False ys s] by (simp add: identity_bound_def)
next
  case False
  let ?s = "s\<lparr>identities := identities s @
    [\<lparr>identity_task = tid, identity_key = k, identity_created = now\<rparr>]\<rparr>"
  obtain ys where "xs = (tid, True) # ys" "identities_put up now is ?s = (Inr ys, s')"
    using assms False by (auto simp: Let_def split: if_splits sum.splits prod.splits)
  moreover have "identity_bound k tid ?s"
    using False table_find_None [of identity_key k "identities s"]
    by (simp add: identity_bound_def table_find_append table_find_Cons table_ids_def)
  moreover have "identity_bound k' t' ?s" if "identity_bound k' t' s" for k' t'
    using that by (auto simp: identity_bound_def table_find_append)
  ultimately show thesis by (intro that [of tid True ys ?s]) simp_all
qed

lemma identities_put_keeps:
  "identities_put up now is s = (Inr xs, s') \<Longrightarrow> identity_bound k t s \<Longrightarrow> identity_bound k t s'"
proof (induction "is" arbitrary: s xs)
  case (Cons i "is")
  obtain tid k' where i: "i = (tid, k')" by (cases i)
  show ?case
    by (rule identities_put_ok [OF Cons.prems(1) [unfolded i]])
       (rule Cons.IH, assumption, simp only: Cons.prems(2))
qed simp

lemma identities_put_binds:
  "identities_put up now is s = (Inr xs, s') \<Longrightarrow>
   list_all2 (\<lambda>(tid, k) (t, c). identity_bound k t s' \<and> (c \<longrightarrow> t = tid)) is xs"
proof (induction "is" arbitrary: s xs)
  case (Cons i "is")
  obtain tid k where i: "i = (tid, k)" by (cases i)
  show ?case
  proof (rule identities_put_ok [OF Cons.prems(1) [unfolded i]])
    fix t c ys s1
    assume x: "xs = (t, c) # ys" and rec: "identities_put up now is s1 = (Inr ys, s')"
      and "identity_bound k t s1" "c \<longrightarrow> t = tid"
    then show ?thesis
      using Cons.IH [OF rec] identities_put_keeps [OF rec] by (simp add: i x)
  qed
qed simp


definition sample_result :: "int \<Rightarrow> string \<Rightarrow> result_row" where
  "sample_result tid err = \<lparr>result_task = tid, result_outcome = OutcomeFailed, result_attempt = 1,
     result_payload = None, result_json = None, result_error = err, result_completed = 5\<rparr>"

text \<open>
  Writing a batch of results is first-write-wins: if the batch is accepted, every row
  stored before stays, each task of the batch has a row afterwards, and where the batch
  reports \<open>true\<close> that row is the one it brought.
\<close>

theorem results_batch_first_write_wins:
  assumes "results_create up rs s = (Inr bs, s')"
  shows "(\<forall>tid. results_get tid s \<noteq> Inl DbNotFound \<longrightarrow> results_get tid s' = results_get tid s) \<and>
    list_all2 (\<lambda>r b. results_get (result_task r) s' \<noteq> Inl DbNotFound \<and>
      (b \<longrightarrow> results_get (result_task r) s' = Inr r)) rs bs"
proof
  show "\<forall>tid. results_get tid s \<noteq> Inl DbNotFound \<longrightarrow> results_get tid s' = results_get tid s"
    using results_create_keeps [OF assms] by (auto simp: results_get_def read_row_def split: option.splits)
  show "list_all2 (\<lambda>r b. results_get (result_task r) s' \<noteq> Inl DbNotFound \<and>
      (b \<longrightarrow> results_get (result_task r) s' = Inr r)) rs bs"
    using results_create_rows [OF assms]
    by (rule list_all2_mono) (auto simp: results_get_def read_row_def)
qed

theorem results_batch_first_write_wins_witness:
  "\<exists>s'. results_create (\<lambda>_. True) [sample_result 1 ''a'', sample_result 1 ''b'', sample_result 2 ''c'']
      empty_ledger = (Inr [True, False, True], s') \<and>
    results_get 1 s' = Inr (sample_result 1 ''a'')"
proof -
  let ?rs = "[sample_result 1 ''a'', sample_result 1 ''b'', sample_result 2 ''c'']"
  have r: "results_create (\<lambda>_. True) ?rs empty_ledger =
      (Inr [True, False, True], snd (results_create (\<lambda>_. True) ?rs empty_ledger))" by code_simp
  show ?thesis
    using results_batch_first_write_wins [OF r] r by (auto simp: sample_result_def)
qed

text \<open>
  \<open>Put\<close> answers with the binding of each key: if the batch is accepted, every key it
  contains is bound, after the batch, to exactly the task returned for it, and a task
  reported as created is the one the batch asked for.
\<close>

theorem identity_batch_binds:
  assumes "identities_put up now is s = (Inr xs, s')"
  shows "list_all2 (\<lambda>(tid, k) (t, c).
    (\<exists>row. identities_get k s' = Inr row \<and> identity_task row = t) \<and> (c \<longrightarrow> t = tid)) is xs"
  using identities_put_binds [OF assms]
  by (rule list_all2_mono) (auto simp: identities_get_def read_row_def identity_bound_def)

theorem identity_batch_binds_witness:
  "\<exists>s'. identities_put (\<lambda>_. True) 7 [(1, ''k''), (2, ''k'')] empty_ledger = (Inr [(1, True), (1, False)], s') \<and>
    (\<exists>row. identities_get ''k'' s' = Inr row \<and> identity_task row = 1)"
proof -
  let ?is = "[(1, ''k''), (2, ''k'')]"
  have r: "identities_put (\<lambda>_. True) 7 ?is empty_ledger =
      (Inr [(1, True), (1, False)], snd (identities_put (\<lambda>_. True) 7 ?is empty_ledger))" by code_simp
  show ?thesis
    using identity_batch_binds [OF r] r by auto
qed

end
