(* ===== verification/Messages.thy ===== *)
theory Messages
  imports Schema
begin

text \<open>
  The messages exchanged between control plane and workers
  (\<open>api/stateflux/task/v1/task.proto\<close>). The bytes of a payload or a result are represented
  as the code distinguishes them: empty, valid JSON, or other (UTF-8) text. An outcome is
  the integer of the open protobuf enumeration.
\<close>

datatype content = NoContent | JsonContent json | TextContent string

record task_message =
  tm_task_id :: int
  tm_attempt :: int
  tm_type :: string
  tm_operator :: string
  tm_payload :: content
  tm_priority :: int
  tm_deadline_ms :: int
  tm_timeout_ms :: int
  tm_trace :: "(string \<times> string) list"
  tm_channel :: string
  tm_vpc :: string
  tm_node :: string
  tm_label :: string
  tm_hash_bucket :: int
  tm_idempotency_key :: string
  tm_origin_node :: string
  tm_visited :: "string list"
  tm_created_ms :: int

record result_event =
  re_task_id :: int
  re_attempt :: int
  re_outcome :: int
  re_result :: content
  re_error :: string
  re_source :: string
  re_trace :: "(string \<times> string) list"
  re_finished_ms :: int
  re_operator :: string
  re_type :: string

definition wire_succeeded :: int where
  "wire_succeeded = 1"

definition wire_failed :: int where
  "wire_failed = 2"

definition wire_dead :: int where
  "wire_dead = 3"

record result_ack =
  ra_accepted :: bool
  ra_message :: string
  ra_task_id :: int
  ra_attempt :: int

end
