(* ===== verification/Collector.thy ===== *)
theory Collector
  imports LedgerProps Messages
begin

text \<open>
  Collecting results (\<open>internal/runtime/collector/collector.go\<close>). The collector sees the
  ledger through four operations (its \<open>Ledger\<close> interface); here they are the fields of
  \<open>result_ledger\<close>, and the laws it relies on are the locale \<open>result_ledger_laws\<close>, which the
  task ledger satisfies. Metrics are the labels of the counters that are increased.
\<close>

record 's result_ledger =
  rl_complete :: "complete_request \<Rightarrow> 's \<Rightarrow> (db_error + bool) \<times> 's"
  rl_get :: "int \<Rightarrow> 's \<Rightarrow> db_error + claimable"
  rl_requeue :: "int \<Rightarrow> 's \<Rightarrow> (db_error + bool) \<times> 's"
  rl_dead_letter :: "int \<Rightarrow> 's \<Rightarrow> (db_error + bool) \<times> 's"

datatype collect_error = NilLedger | InvalidEvent | CollectFailed db_error

definition outcome_of_wire :: "int \<Rightarrow> outcome" where
  "outcome_of_wire n =
     (if n = wire_succeeded then OutcomeSucceeded
      else if n = wire_dead then OutcomeDead
      else OutcomeFailed)"

definition json_or_raw :: "content \<Rightarrow> raw" where
  "json_or_raw c =
     (case c of NoContent \<Rightarrow> None | JsonContent j \<Rightarrow> Some j | TextContent t \<Rightarrow> Some (JStr t))"

definition collect_record :: "outcome \<Rightarrow> bool \<Rightarrow> string list" where
  "collect_record out accepted = [if accepted then outcome_string out else ''stale'']"

text \<open>
  \<open>retry\<close>: what a failed result leads to, decided from the row that was read; then the
  operation itself. \<open>None\<close> means not handled, so that the result is written as terminal.
\<close>

datatype retry_decision = RetryPass | RetryStale | RetryDead | RetryRequeue

definition retry_decide :: "result_event \<Rightarrow> db_error + claimable \<Rightarrow> retry_decision" where
  "retry_decide ev r =
     (case r of
        Inl _ \<Rightarrow> RetryPass
      | Inr p \<Rightarrow>
          if attempts p \<noteq> re_attempt ev then RetryStale
          else if max_attempts p > 0 \<and> attempts p \<ge> max_attempts p then RetryDead
          else RetryRequeue)"

definition retry_apply ::
  "'s result_ledger \<Rightarrow> int \<Rightarrow> retry_decision \<Rightarrow> 's \<Rightarrow> (db_error + string list) option \<times> 's" where
  "retry_apply L tid d s =
     (case d of
        RetryPass \<Rightarrow> (None, s)
      | RetryStale \<Rightarrow> (Some (Inr []), s)
      | RetryDead \<Rightarrow>
          (case rl_dead_letter L tid s of
             (Inl e, s') \<Rightarrow> (Some (Inl e), s')
           | (Inr _, s') \<Rightarrow> (Some (Inr (collect_record OutcomeDead True)), s'))
      | RetryRequeue \<Rightarrow>
          (case rl_requeue L tid s of
             (Inl e, s') \<Rightarrow> (Some (Inl e), s')
           | (Inr _, s') \<Rightarrow> (Some (Inr [''retry'']), s')))"

definition retry ::
  "'s result_ledger \<Rightarrow> result_event \<Rightarrow> 's \<Rightarrow> (db_error + string list) option \<times> 's" where
  "retry L ev s = retry_apply L (re_task_id ev) (retry_decide ev (rl_get L (re_task_id ev) s)) s"

definition completion_request :: "gotime \<Rightarrow> result_event \<Rightarrow> complete_request" where
  "completion_request now ev =
     \<lparr>cr_task_id = re_task_id ev, cr_attempt = re_attempt ev,
      cr_outcome = outcome_of_wire (re_outcome ev), cr_result = json_or_raw (re_result ev),
      cr_error = re_error ev,
      cr_completed_at = (if re_finished_ms ev > 0 then time_of_milli (re_finished_ms ev) else now)\<rparr>"

definition write_terminal ::
  "'s result_ledger \<Rightarrow> gotime \<Rightarrow> result_event \<Rightarrow> 's \<Rightarrow> (collect_error + string list) \<times> 's" where
  "write_terminal L now ev s =
     (case rl_complete L (completion_request now ev) s of
        (Inl e, s') \<Rightarrow> (Inl (CollectFailed e), s')
      | (Inr ok, s') \<Rightarrow> (Inr (collect_record (outcome_of_wire (re_outcome ev)) ok), s'))"

definition consume ::
  "'s result_ledger option \<Rightarrow> gotime \<Rightarrow> result_event option \<Rightarrow> 's \<Rightarrow> (collect_error + string list) \<times> 's" where
  "consume lo now ev s =
     (case lo of None \<Rightarrow> (Inl NilLedger, s)
      | Some L \<Rightarrow>
          (case ev of None \<Rightarrow> (Inl InvalidEvent, s)
           | Some e \<Rightarrow>
               if re_task_id e = 0 then (Inl InvalidEvent, s)
               else if outcome_of_wire (re_outcome e) = OutcomeFailed then
                 (case retry L e s of
                    (Some (Inl x), s') \<Rightarrow> (Inl (CollectFailed x), s')
                  | (Some (Inr m), s') \<Rightarrow> (Inr m, s')
                  | (None, s') \<Rightarrow> write_terminal L now e s')
               else write_terminal L now e s))"

section \<open>The contract of the ledger\<close>

text \<open>An event is current if its task is in processing at its attempt.\<close>

definition event_current :: "'s result_ledger \<Rightarrow> result_event \<Rightarrow> 's \<Rightarrow> bool" where
  "event_current L ev s \<longleftrightarrow>
     (case rl_get L (re_task_id ev) s of Inl _ \<Rightarrow> False | Inr p \<Rightarrow> attempts p = re_attempt ev)"

locale result_ledger_laws =
  fixes L :: "'s result_ledger" and inv :: "'s \<Rightarrow> bool"
  assumes refused_no_effect:
      "fst (rl_complete L req s) \<noteq> Inr True \<Longrightarrow> snd (rl_complete L req s) = s"
      "fst (rl_requeue L tid s) \<noteq> Inr True \<Longrightarrow> snd (rl_requeue L tid s) = s"
      "fst (rl_dead_letter L tid s) \<noteq> Inr True \<Longrightarrow> snd (rl_dead_letter L tid s) = s"
    and absent_refused:
      "inv s \<Longrightarrow> rl_get L tid s = Inl e \<Longrightarrow> cr_task_id req = tid \<Longrightarrow>
        fst (rl_complete L req s) \<noteq> Inr True"
    and stale_refused:
      "inv s \<Longrightarrow> rl_get L tid s = Inr p \<Longrightarrow> cr_task_id req = tid \<Longrightarrow> attempts p \<noteq> cr_attempt req \<Longrightarrow>
        fst (rl_complete L req s) \<noteq> Inr True"
    and accepted_leaves:
      "inv s \<Longrightarrow> fst (rl_complete L req s) = Inr True \<Longrightarrow> cr_task_id req = tid \<Longrightarrow>
        rl_get L tid (snd (rl_complete L req s)) = Inl DbNotFound"
      "inv s \<Longrightarrow> fst (rl_requeue L tid s) = Inr True \<Longrightarrow>
        rl_get L tid (snd (rl_requeue L tid s)) = Inl DbNotFound"
      "inv s \<Longrightarrow> fst (rl_dead_letter L tid s) = Inr True \<Longrightarrow>
        rl_get L tid (snd (rl_dead_letter L tid s)) = Inl DbNotFound"
    and keeps:
      "inv s \<Longrightarrow> inv (snd (rl_complete L req s))"
      "inv s \<Longrightarrow> inv (snd (rl_requeue L tid s))"
      "inv s \<Longrightarrow> inv (snd (rl_dead_letter L tid s))"
    and current_not_refused:
      "inv s \<Longrightarrow> rl_get L tid s = Inr p \<Longrightarrow> cr_task_id req = tid \<Longrightarrow> attempts p = cr_attempt req \<Longrightarrow>
        fst (rl_complete L req s) \<noteq> Inr False"
      "inv s \<Longrightarrow> rl_get L tid s = Inr p \<Longrightarrow> fst (rl_requeue L tid s) \<noteq> Inr False"
      "inv s \<Longrightarrow> rl_get L tid s = Inr p \<Longrightarrow> fst (rl_dead_letter L tid s) \<noteq> Inr False"
begin

lemma not_current_refused:
  assumes "inv s" and "\<not> event_current L ev s" and "cr_task_id req = re_task_id ev" and "cr_attempt req = re_attempt ev"
  shows "snd (rl_complete L req s) = s"
proof (cases "rl_get L (re_task_id ev) s")
  case (Inl e)
  then show ?thesis using assms absent_refused refused_no_effect(1) by blast
next
  case (Inr p)
  then have "attempts p \<noteq> cr_attempt req" using assms(2,4) by (simp add: event_current_def)
  then show ?thesis using assms Inr stale_refused refused_no_effect(1) by blast
qed

lemma completion_request_ids [simp]:
  "cr_task_id (completion_request now ev) = re_task_id ev"
  "cr_attempt (completion_request now ev) = re_attempt ev"
  by (simp_all add: completion_request_def)

lemma stale_event_no_effect:
  assumes "inv s" and "\<not> event_current L ev s"
  shows "snd (consume (Some L) now (Some ev) s) = s"
proof -
  have w: "snd (write_terminal L now ev s) = s"
    using not_current_refused [OF assms, of "completion_request now ev"]
    by (auto simp: write_terminal_def split: prod.split sum.split)
  show ?thesis
  proof (cases "rl_get L (re_task_id ev) s")
    case (Inl e)
    then show ?thesis using w by (simp add: consume_def retry_def retry_apply_def retry_decide_def)
  next
    case (Inr p)
    then show ?thesis using w assms(2)
      by (simp add: consume_def retry_def retry_apply_def retry_decide_def event_current_def)
  qed
qed

text \<open>An accepted current event takes its task out of processing.\<close>

lemma gone_not_current: "rl_get L (re_task_id ev) s = Inl e \<Longrightarrow> \<not> event_current L ev s"
  by (simp add: event_current_def)

lemma accepted_not_current:
  assumes "inv s" and "event_current L ev s"
  shows "rl_complete L (completion_request now ev) s = (Inr ok, s') \<Longrightarrow> \<not> event_current L ev s'"
    and "rl_requeue L (re_task_id ev) s = (Inr ok, s') \<Longrightarrow> \<not> event_current L ev s'"
    and "rl_dead_letter L (re_task_id ev) s = (Inr ok, s') \<Longrightarrow> \<not> event_current L ev s'"
proof -
  obtain p where p: "rl_get L (re_task_id ev) s = Inr p" "attempts p = re_attempt ev"
    using assms(2) by (auto simp: event_current_def split: sum.splits)
  show "\<not> event_current L ev s'" if "rl_complete L (completion_request now ev) s = (Inr ok, s')"
    using that current_not_refused(1) [OF assms(1) p(1), of "completion_request now ev"] p(2)
      accepted_leaves(1) [OF assms(1), of "completion_request now ev" "re_task_id ev"] gone_not_current
    by (cases ok) auto
  show "\<not> event_current L ev s'" if "rl_requeue L (re_task_id ev) s = (Inr ok, s')"
    using that current_not_refused(2) [OF assms(1) p(1)] accepted_leaves(2) [OF assms(1), of "re_task_id ev"]
      gone_not_current by (cases ok) auto
  show "\<not> event_current L ev s'" if "rl_dead_letter L (re_task_id ev) s = (Inr ok, s')"
    using that current_not_refused(3) [OF assms(1) p(1)] accepted_leaves(3) [OF assms(1), of "re_task_id ev"]
      gone_not_current by (cases ok) auto
qed

lemma write_terminal_keeps: "inv s \<Longrightarrow> inv (snd (write_terminal L now ev s))"
  using keeps(1) [of s "completion_request now ev"]
  by (auto simp: write_terminal_def split: prod.split sum.split)

lemma retry_keeps: "inv s \<Longrightarrow> inv (snd (retry L ev s))"
  using keeps(2,3) [of s "re_task_id ev"]
  by (auto simp: retry_def retry_apply_def split: prod.split sum.split retry_decision.split)

lemma consume_keeps:
  assumes "inv s"
  shows "inv (snd (consume (Some L) now ev s))"
proof (cases ev)
  case None
  then show ?thesis using assms by (simp add: consume_def)
next
  case (Some e)
  then show ?thesis
    using assms write_terminal_keeps retry_keeps [OF assms, of e]
    by (cases "retry L e s") (auto simp: consume_def split: option.split sum.split)
qed

lemma consume_accepted_not_current:
  assumes "inv s" and "consume (Some L) now (Some ev) s = (Inr m, s')"
  shows "\<not> event_current L ev s'"
proof (cases "event_current L ev s")
  case False
  then show ?thesis using stale_event_no_effect [OF assms(1) False, of now] assms(2) by simp
next
  case True
  then obtain p where p: "rl_get L (re_task_id ev) s = Inr p" "attempts p = re_attempt ev"
    by (auto simp: event_current_def split: sum.splits)
  show ?thesis
    using assms(2) p accepted_not_current [OF assms(1) True]
    by (auto simp: consume_def retry_def retry_apply_def retry_decide_def write_terminal_def
        split: if_splits prod.splits sum.splits)
qed

lemma consume_twice:
  assumes "inv s" and "consume (Some L) now (Some ev) s = (Inr m, s')"
  shows "snd (consume (Some L) now' (Some ev) s') = s'"
  using stale_event_no_effect consume_accepted_not_current [OF assms] consume_keeps [OF assms(1), of now "Some ev"] assms(2)
  by simp

end


section \<open>The task ledger as the collector's ledger\<close>

definition task_ledger :: "tx_env \<Rightarrow> gotime \<Rightarrow> int \<Rightarrow> ledger result_ledger" where
  "task_ledger tx now nid = \<lparr>rl_complete = complete tx now nid, rl_get = get_processing,
     rl_requeue = requeue tx, rl_dead_letter = dead_letter tx now nid\<rparr>"

lemma get_processing_find:
  "get_processing tid s = Inr p \<longleftrightarrow> table_find task_id tid (processings s) = Some p"
  "get_processing tid s = Inl e \<longleftrightarrow> table_find task_id tid (processings s) = None \<and> e = DbNotFound"
  by (auto simp: get_processing_def read_row_def split: option.splits)

lemma terminal_move_leaves:
  assumes "terminal_move nid tid a out res err at chk s = Inr (x, s')"
  shows "get_processing tid s' = Inl DbNotFound"
proof -
  obtain p where p: "table_find task_id tid (processings s) = Some p"
    and d: "derive_callback nid p out at (moved_terminal p out res err at s) = Inr s'"
    using assms by (auto simp: ledger_simps)
  have "processings s' = processings (moved_terminal p out res err at s)"
    using derive_callback_effect [OF d] by (auto simp: adds_identity_def adds_pending_def)
  then show ?thesis
    using table_find_SomeD [OF p]
    by (simp add: get_processing_def read_row_def moved_terminal_def table_find_delete)
qed

lemma requeue_body_leaves:
  "requeue_body tid s = Inr (True, s') \<Longrightarrow> get_processing tid s' = Inl DbNotFound"
  by (auto simp: ledger_simps get_processing_def read_row_def table_find_delete split: option.splits)

lemma requeue_ok: "requeue tx tid s = (Inr b, s') \<Longrightarrow> requeue_body tid s = Inr (b, s')"
  unfolding requeue_def by (auto elim: with_tx_cases)

lemma complete_ok:
  "complete tx now nid req s = (Inr b, s') \<Longrightarrow>
   (b \<longrightarrow> (\<exists>at. terminal_move nid (cr_task_id req) (cr_attempt req) (cr_outcome req) (cr_result req)
      (cr_error req) at True s = Inr ((), s'))) \<and> (\<not> b \<longrightarrow> s' = s)"
  by (auto simp: complete_def Let_def terminal_outcome_def split: prod.splits sum.splits if_splits
      elim!: with_tx_cases)

lemma dead_letter_ok:
  "dead_letter tx now nid tid s = (Inr b, s') \<Longrightarrow>
   (b \<longrightarrow> terminal_move nid tid 0 OutcomeDead None '''' now False s = Inr ((), s')) \<and> (\<not> b \<longrightarrow> s' = s)"
  by (auto simp: dead_letter_def Let_def terminal_outcome_def split: prod.splits sum.splits if_splits
      elim!: with_tx_cases)

lemma terminal_move_refusal:
  assumes "ledger_ok s" and "table_find task_id tid (processings s) = Some p" and "chk \<longrightarrow> attempts p = a"
  shows "terminal_move nid tid a out res err at chk s \<noteq> Inl StaleAttempt \<and>
    terminal_move nid tid a out res err at chk s \<noteq> Inl DuplicateResult"
proof -
  have "valid_channel (task_channel p)"
    using assms(1,2) by (auto simp: ok_defs dest: table_find_SomeD)
  then show ?thesis
    using assms(3)
    by (auto simp: terminal_move_steps [OF assms(1,2)] result_simps dest: derive_callback_no_sentinel)
qed

lemma terminal_absent:
  "table_find task_id tid (processings s) = None \<Longrightarrow>
   terminal_move nid tid a out res err at chk s = Inl StaleAttempt"
  by (simp add: terminal_move_def)

lemma terminal_stale:
  "table_find task_id tid (processings s) = Some p \<Longrightarrow> attempts p \<noteq> a \<Longrightarrow>
   terminal_move nid tid a out res err at True s = Inl StaleAttempt"
  by (simp add: terminal_move_def)

lemma complete_ops:
  "fst (complete tx now nid req s) \<noteq> Inr True \<Longrightarrow> snd (complete tx now nid req s) = s"
  "fst (requeue tx tid s) \<noteq> Inr True \<Longrightarrow> snd (requeue tx tid s) = s"
  "fst (dead_letter tx now nid tid s) \<noteq> Inr True \<Longrightarrow> snd (dead_letter tx now nid tid s) = s"
  by (auto simp: complete_def dead_letter_def requeue_def Let_def with_tx_def terminal_outcome_def
      requeue_body_def result_simps split: sum.splits prod.splits if_splits option.splits)

lemma ops_keep_ok:
  "ledger_ok s \<Longrightarrow> ledger_ok (snd (complete tx now nid req s))"
  "ledger_ok s \<Longrightarrow> ledger_ok (snd (requeue tx tid s))"
  "ledger_ok s \<Longrightarrow> ledger_ok (snd (dead_letter tx now nid tid s))"
  by (rule ledger_ok_step [OF step_complete] ledger_ok_step [OF step_requeue]
      ledger_ok_step [OF step_dead_letter], assumption)+

lemma complete_not_current:
  assumes "\<And>at. \<exists>e. terminal_move nid (cr_task_id req) (cr_attempt req) (cr_outcome req) (cr_result req)
      (cr_error req) at True s = Inl e"
  shows "fst (complete tx now nid req s) \<noteq> Inr True"
  by (rule complete_refused(1)) (rule assms)

interpretation collector: result_ledger_laws "task_ledger tx now nid" ledger_ok
proof (unfold_locales, unfold task_ledger_def result_ledger.simps)
  fix s tid req e p
  note complete_not = complete_not_current [of nid req s tx now]
  show "fst (complete tx now nid req s) \<noteq> Inr True \<Longrightarrow> snd (complete tx now nid req s) = s"
    "fst (requeue tx tid s) \<noteq> Inr True \<Longrightarrow> snd (requeue tx tid s) = s"
    "fst (dead_letter tx now nid tid s) \<noteq> Inr True \<Longrightarrow> snd (dead_letter tx now nid tid s) = s"
    by (fact complete_ops)+
  show "get_processing tid s = Inl e \<Longrightarrow> cr_task_id req = tid \<Longrightarrow> fst (complete tx now nid req s) \<noteq> Inr True"
    using complete_not by (auto simp: get_processing_find terminal_absent)
  show "get_processing tid s = Inr p \<Longrightarrow> cr_task_id req = tid \<Longrightarrow> attempts p \<noteq> cr_attempt req \<Longrightarrow>
      fst (complete tx now nid req s) \<noteq> Inr True"
    using complete_not by (auto simp: get_processing_find terminal_stale)
  show "fst (complete tx now nid req s) = Inr True \<Longrightarrow> cr_task_id req = tid \<Longrightarrow>
      get_processing tid (snd (complete tx now nid req s)) = Inl DbNotFound"
    using complete_ok [of tx now nid req s True] terminal_move_leaves by (metis prod.collapse)
  show "fst (requeue tx tid s) = Inr True \<Longrightarrow> get_processing tid (snd (requeue tx tid s)) = Inl DbNotFound"
    using requeue_ok [of tx tid s] requeue_body_leaves by (metis prod.collapse)
  show "fst (dead_letter tx now nid tid s) = Inr True \<Longrightarrow>
      get_processing tid (snd (dead_letter tx now nid tid s)) = Inl DbNotFound"
    using dead_letter_ok [of tx now nid tid s True] terminal_move_leaves by (metis prod.collapse)
  show "ledger_ok s \<Longrightarrow> ledger_ok (snd (complete tx now nid req s))"
    "ledger_ok s \<Longrightarrow> ledger_ok (snd (requeue tx tid s))"
    "ledger_ok s \<Longrightarrow> ledger_ok (snd (dead_letter tx now nid tid s))"
    by (fact ops_keep_ok)+
  show "ledger_ok s \<Longrightarrow> get_processing tid s = Inr p \<Longrightarrow> cr_task_id req = tid \<Longrightarrow>
      attempts p = cr_attempt req \<Longrightarrow> fst (complete tx now nid req s) \<noteq> Inr False"
    using terminal_move_refusal [of s tid p True "cr_attempt req"]
    by (auto simp: get_processing_find complete_def Let_def terminal_outcome_def with_tx_def
        split: prod.splits sum.splits if_splits)
  show "get_processing tid s = Inr p \<Longrightarrow> fst (requeue tx tid s) \<noteq> Inr False"
    by (auto simp: get_processing_find requeue_def requeue_body_def with_tx_def result_simps
        split: sum.splits if_splits)
  show "ledger_ok s \<Longrightarrow> get_processing tid s = Inr p \<Longrightarrow> fst (dead_letter tx now nid tid s) \<noteq> Inr False"
    using terminal_move_refusal [of s tid p False 0]
    by (auto simp: get_processing_find dead_letter_def Let_def terminal_outcome_def with_tx_def
        split: prod.splits sum.splits if_splits)
qed


section \<open>Properties of the collector\<close>

lemma terminal_move_done_ids:
  assumes "terminal_move nid tid a out res err at chk s = Inr (x, s')"
  shows "tid \<in> done_ids s'"
proof -
  obtain p where p: "table_find task_id tid (processings s) = Some p"
    and d: "derive_callback nid p out at (moved_terminal p out res err at s) = Inr s'"
    using assms by (auto simp: ledger_simps)
  show ?thesis
    using moved_terminal_ids(4) [OF p] extends_done [OF derive_callback_extends [OF d]] by blast
qed

lemma requeue_fine:
  assumes "ledger_ok s" and "get_processing tid s = Inr p"
  shows "requeue tx_fine tid s =
    (Inr True, s\<lparr>schedulables := schedulables s @ [p],
                 processings := table_delete task_id [tid] (processings s)\<rparr>)"
proof -
  have f: "table_find task_id tid (processings s) = Some p" using assms(2) by (simp add: get_processing_find)
  then have p: "p \<in> set (processings s)" "task_id p = tid" by (auto dest: table_find_SomeD)
  have "task_id p \<notin> table_ids task_id (schedulables s)"
    using one_stage [OF assms(1) _ p(1)] by (fastforce simp: table_ids_def)
  then have "requeue_body tid s = Inr (True, s\<lparr>schedulables := schedulables s @ [p],
      processings := table_delete task_id [tid] (processings s)\<rparr>)"
    using f p assms(1) by (simp add: requeue_body_Inr ok_defs)
  then show ?thesis by (simp add: requeue_def)
qed

text \<open>A consumed event raises the fence of its task.\<close>

lemma consumed_event_fences:
  assumes ok: "ledger_ok s" and c: "consume (Some (task_ledger tx now nid)) now (Some ev) s = (Inr m, s')"
    and cur: "get_processing (re_task_id ev) s = Inr p" "attempts p = re_attempt ev"
  shows "attempt_level (re_attempt ev) (re_attempt ev + 1) (re_task_id ev) s'"
proof -
  let ?L = "task_ledger tx now nid" and ?tid = "re_task_id ev"
  have fin: "tid \<in> done_ids s' \<Longrightarrow> tid = ?tid \<Longrightarrow> attempt_level (re_attempt ev) (re_attempt ev + 1) ?tid s'" for tid
    by (simp add: attempt_level_def)
  have w: "attempt_level (re_attempt ev) (re_attempt ev + 1) ?tid s'"
    if "complete tx now nid (completion_request now ev) s = (Inr b, s')" for b
  proof -
    have b: "b" using collector.current_not_refused(1) [OF ok, of tx now nid ?tid p "completion_request now ev"]
        that cur by (cases b) (auto simp: task_ledger_def completion_request_def)
    then show ?thesis
      using complete_ok [OF that] b by (auto simp: completion_request_def dest!: terminal_move_done_ids intro: fin)
  qed
  have r: "attempt_level (re_attempt ev) (re_attempt ev + 1) ?tid s'"
    if "requeue tx ?tid s = (Inr b, s')" for b
  proof -
    have "requeue_body ?tid s = Inr (b, s')" using requeue_ok [OF that] .
    then have "attempt_row (re_attempt ev) (re_attempt ev + 1) p s' \<and> task_id p = ?tid"
      using cur by (auto simp: requeue_body_Inr get_processing_find attempt_row_def dest: table_find_SomeD)
    then show ?thesis by (blast intro: attempt_level_row)
  qed
  have d: "attempt_level (re_attempt ev) (re_attempt ev + 1) ?tid s'"
    if "dead_letter tx now nid ?tid s = (Inr b, s')" for b
  proof -
    have b: "b" using collector.current_not_refused(3) [OF ok, of tx now nid ?tid p] that cur
      by (cases b) (auto simp: task_ledger_def)
    then show ?thesis using dead_letter_ok [OF that] b by (auto dest!: terminal_move_done_ids intro: fin)
  qed
  show ?thesis
    using c cur w r d
    by (auto simp: consume_def retry_def retry_apply_def retry_decide_def write_terminal_def task_ledger_def
        split: if_splits prod.splits sum.splits)
qed

lemma fenced_not_current:
  assumes ok: "ledger_ok s" and f: "attempt_level a (a + 1) tid s" and nd: "tid \<notin> done_ids s"
    and p: "get_processing tid s = Inr p"
  shows "attempts p \<noteq> a"
proof -
  obtain q where q: "task_id q = tid" "attempt_row a (a + 1) q s"
    using f nd by (auto simp: attempt_level_def)
  have pp: "p \<in> set (processings s)" "task_id p = tid"
    using p by (auto simp: get_processing_find dest: table_find_SomeD)
  have "q \<notin> set (schedulables s)" using one_stage [OF ok _ pp(1)] q(1) pp(2) by auto
  then have qp: "q \<in> set (processings s)" "a + 1 \<le> attempts q" using q(2) by (auto simp: attempt_row_def)
  have "distinct (map task_id (processings s))" using ok by (simp add: ok_defs)
  then have "q = p" using qp(1) pp q(1) by (auto simp: distinct_map inj_on_def)
  then show ?thesis using qp(2) by simp
qed



definition sample_event :: "int \<Rightarrow> int \<Rightarrow> int \<Rightarrow> result_event" where
  "sample_event tid a out = \<lparr>re_task_id = tid, re_attempt = a, re_outcome = out, re_result = NoContent,
     re_error = ''boom'', re_source = ''w1'', re_trace = [], re_finished_ms = 0, re_operator = '''',
     re_type = ''probe''\<rparr>"

definition sample_collected :: "int \<Rightarrow> ledger" where
  "sample_collected out = snd (consume (Some (task_ledger tx_fine 30 99)) 30
     (Some (sample_event 1 1 out)) (sample_claimed None))"


text \<open>
  A failed result on every branch, for a task in processing: an event of another
  attempt is dropped; when the attempt limit is positive and reached, the task is
  dead-lettered; otherwise the row goes back to the schedulable stage as it is, with the
  same attempt and claim time, and nothing is written as terminal.
\<close>

theorem failed_result_branches:
  assumes "ledger_run empty_ledger s" and "get_processing (re_task_id ev) s = Inr p"
    and "re_task_id ev \<noteq> 0" and "re_outcome ev = wire_failed"
  shows "consume (Some (task_ledger tx_fine now nid)) now (Some ev) s =
    (if attempts p \<noteq> re_attempt ev then (Inr [], s)
     else if 0 < max_attempts p \<and> max_attempts p \<le> attempts p then
       (map_sum CollectFailed (\<lambda>_. [''dead'']) (fst (dead_letter tx_fine now nid (re_task_id ev) s)),
        snd (dead_letter tx_fine now nid (re_task_id ev) s))
     else (Inr [''retry''],
       s\<lparr>schedulables := schedulables s @ [p],
         processings := table_delete task_id [re_task_id ev] (processings s)\<rparr>))"
proof -
  have ok: "ledger_ok s" using assms(1) ledger_ok_run ledger_ok_empty by blast
  have o: "outcome_of_wire (re_outcome ev) = OutcomeFailed"
    by (simp add: assms(4) outcome_of_wire_def wire_failed_def wire_succeeded_def wire_dead_def)
  show ?thesis
    using assms(2,3) o requeue_fine [OF ok assms(2)]
    by (auto simp: consume_def retry_def retry_apply_def retry_decide_def task_ledger_def collect_record_def
        split: prod.split sum.split)
qed

theorem failed_result_branches_witness:
  "consume (Some (task_ledger tx_fine 30 99)) 30 (Some (sample_event 1 1 wire_failed)) (sample_claimed None) =
    (Inr [''retry''], (sample_claimed None)\<lparr>schedulables := [sample_claimed_row 1 20], processings := []\<rparr>)"
proof -
  have g: "get_processing (re_task_id (sample_event 1 1 wire_failed)) (sample_claimed None) =
      Inr (sample_claimed_row 1 20)" by code_simp
  have sch: "schedulables (sample_claimed None) = []" "processings (sample_claimed None) = [sample_claimed_row 1 20]"
    by code_simp+
  show ?thesis
    using failed_result_branches [OF sample_reachable(2) g, of 30 99]
    by (simp add: sample_event_def sample_claimed_row_def sch table_delete_def
        schedulable_of_pending_def pending_of_request_def sample_request_def)
qed

text \<open>
  C40. The decision to requeue is not fenced: between reading the row and requeueing it the
  task may be reset and claimed again, and the requeue then takes the newer attempt, which
  the event does not belong to, out of processing, so that the report of its worker will be
  refused.
\<close>

theorem retry_race_revokes_newer_attempt:
  assumes "ledger_run empty_ledger s"
    and "retry_decide ev (get_processing (re_task_id ev) s) = RetryRequeue" and "ledger_run s s2"
    and "get_processing (re_task_id ev) s2 = Inr p" and "attempts p \<noteq> re_attempt ev"
    and "cr_task_id req = re_task_id ev"
  shows "retry_apply (task_ledger tx_fine now nid) (re_task_id ev) RetryRequeue s2 =
      (Some (Inr [''retry'']),
       s2\<lparr>schedulables := schedulables s2 @ [p],
          processings := table_delete task_id [re_task_id ev] (processings s2)\<rparr>) \<and>
    fst (complete tx_fine now nid req
      (snd (retry_apply (task_ledger tx_fine now nid) (re_task_id ev) RetryRequeue s2))) = Inr False"
proof -
  have ok: "ledger_ok s2" using ok_of_runs [OF assms(1,3)] by blast
  have e: "retry_apply (task_ledger tx_fine now nid) (re_task_id ev) RetryRequeue s2 =
      (Some (Inr [''retry'']),
       s2\<lparr>schedulables := schedulables s2 @ [p],
          processings := table_delete task_id [re_task_id ev] (processings s2)\<rparr>)"
    using requeue_fine [OF ok assms(4)] by (simp add: retry_apply_def task_ledger_def)
  have "table_find task_id (re_task_id ev) (table_delete task_id [re_task_id ev] (processings s2)) = None"
    by (simp add: table_find_delete)
  then show ?thesis
    using e assms(6) by (simp add: complete_def Let_def terminal_absent terminal_outcome_def)
qed

theorem retry_race_revokes_newer_attempt_witness:
  "get_processing 1 sample_reclaimed = Inr (sample_claimed_row 2 60) \<and>
   fst (complete tx_fine 70 99 (sample_report 1 2)
     (snd (retry_apply (task_ledger tx_fine 70 99) 1 RetryRequeue sample_reclaimed))) = Inr False"
proof
  show g: "get_processing 1 sample_reclaimed = Inr (sample_claimed_row 2 60)" by code_simp
  have d: "retry_decide (sample_event 1 1 wire_failed)
      (get_processing (re_task_id (sample_event 1 1 wire_failed)) (sample_claimed None)) = RetryRequeue"
    by code_simp
  have r: "ledger_run (sample_claimed None) sample_reclaimed"
    unfolding sample_reclaimed_def
    by (rule run_step [OF run_one [OF step_reset_expired] step_claim])
  have i: "re_task_id (sample_event 1 1 wire_failed) = 1" by (simp add: sample_event_def)
  have g1: "get_processing (re_task_id (sample_event 1 1 wire_failed)) sample_reclaimed =
      Inr (sample_claimed_row 2 60)" using g i by simp
  have ne: "attempts (sample_claimed_row 2 60) \<noteq> re_attempt (sample_event 1 1 wire_failed)"
    and q: "cr_task_id (sample_report 1 2) = re_task_id (sample_event 1 1 wire_failed)"
    by (simp_all add: sample_claimed_row_def sample_event_def sample_report_def)
  show "fst (complete tx_fine 70 99 (sample_report 1 2)
      (snd (retry_apply (task_ledger tx_fine 70 99) 1 RetryRequeue sample_reclaimed))) = Inr False"
    using retry_race_revokes_newer_attempt [OF sample_reachable(2) d r g1 ne q, THEN conjunct2]
    unfolding i .
qed

end
