(* ===== verification/Cluster.thy ===== *)
theory Cluster
  imports Callback "HOL-Library.Word" "HOL-Library.Multiset"
begin

text \<open>
  The cluster view (\<open>internal/cluster/cluster.go\<close>, \<open>static.go\<close>): nodes and their
  permissions, snapshots, the choice of an execution node by scheduling constraints and
  hash bucket, and the cache that keeps the last good snapshot. Fetching a snapshot over
  HTTP or gRPC is an argument of the refresh.
\<close>

unbundle bit_operations_syntax

section \<open>Nodes\<close>

datatype permission = PermOperation | PermExecute | PermSchedule | PermCollect

record cluster_node =
  nd_id :: string
  nd_address :: string
  nd_vpc :: string
  nd_labels :: "string list"
  nd_roles :: "string list"
  nd_permissions :: "permission list"
  nd_online :: bool
  nd_leader :: bool

definition role_primary :: string where
  "role_primary = ''primary''"

definition role_standby :: string where
  "role_standby = ''standby''"

definition permissions_of :: "string list \<Rightarrow> permission list" where
  "permissions_of roles =
     (if role_primary \<in> set roles then [PermOperation, PermExecute, PermSchedule, PermCollect]
      else [PermOperation, PermExecute])"

text \<open>\<open>strings.EqualFold\<close>, on ASCII letters.\<close>

definition has_role :: "cluster_node \<Rightarrow> string \<Rightarrow> bool" where
  "has_role n r = list_ex (\<lambda>x. fold_name x = fold_name r) (nd_roles n)"

definition has_permission :: "cluster_node \<Rightarrow> permission \<Rightarrow> bool" where
  "has_permission n p = list_ex (\<lambda>q. q = p) (nd_permissions n)"

definition has_label :: "cluster_node \<Rightarrow> string \<Rightarrow> bool" where
  "has_label n l = list_ex (\<lambda>x. x = l) (nd_labels n)"

section \<open>Snapshots\<close>

record cluster_info =
  in_nodes :: "cluster_node list"
  in_node_id :: string
  in_scheduler :: string

definition empty_info :: cluster_info where
  "empty_info = \<lparr>in_nodes = [], in_node_id = '''', in_scheduler = ''''\<rparr>"

definition info_node :: "cluster_info \<Rightarrow> string \<Rightarrow> cluster_node option" where
  "info_node i k = find (\<lambda>n. nd_id n = k) (in_nodes i)"

definition info_scheduler :: "cluster_info \<Rightarrow> cluster_node option" where
  "info_scheduler i = info_node i (in_scheduler i)"

text \<open>The wire form of a node carries no permissions: they are derived from its roles.\<close>

record wire_node =
  wn_id :: string
  wn_address :: string
  wn_vpc :: string
  wn_labels :: "string list"
  wn_role :: "string list"
  wn_online :: bool
  wn_leader :: bool

definition zero_node :: cluster_node where
  "zero_node = \<lparr>nd_id = '''', nd_address = '''', nd_vpc = '''', nd_labels = [], nd_roles = [],
     nd_permissions = [], nd_online = False, nd_leader = False\<rparr>"

definition node_from_proto :: "wire_node option \<Rightarrow> cluster_node" where
  "node_from_proto w =
     (case w of None \<Rightarrow> zero_node
      | Some n \<Rightarrow> \<lparr>nd_id = wn_id n, nd_address = wn_address n, nd_vpc = wn_vpc n,
          nd_labels = wn_labels n, nd_roles = wn_role n, nd_permissions = permissions_of (wn_role n),
          nd_online = wn_online n, nd_leader = wn_leader n\<rparr>)"

fun info_add_nodes :: "wire_node option list \<Rightarrow> cluster_info \<Rightarrow> cluster_info" where
  "info_add_nodes [] i = i"
| "info_add_nodes (w # ws) i =
     (let n = node_from_proto w;
          i1 = (if nd_leader n \<and> in_scheduler i = '''' then i\<lparr>in_scheduler := nd_id n\<rparr> else i)
      in info_add_nodes ws (i1\<lparr>in_nodes := in_nodes i1 @ [n]\<rparr>))"

text \<open>The response: the reporting node's identifier and the nodes, or nothing.\<close>

definition info_from_proto :: "(string \<times> wire_node option list) option \<Rightarrow> cluster_info" where
  "info_from_proto r =
     (case r of None \<Rightarrow> empty_info
      | Some (self, ws) \<Rightarrow> info_add_nodes ws (empty_info\<lparr>in_node_id := self\<rparr>))"

section \<open>Choosing a node\<close>

definition node_matches :: "string \<Rightarrow> string \<Rightarrow> string \<Rightarrow> cluster_node \<Rightarrow> bool" where
  "node_matches nid vp lab n \<longleftrightarrow>
     \<not> (nid \<noteq> '''' \<and> nd_id n \<noteq> nid) \<and> \<not> (vp \<noteq> '''' \<and> nd_vpc n \<noteq> vp) \<and>
     \<not> (lab \<noteq> '''' \<and> \<not> has_label n lab)"

definition bucket_index :: "cluster_node list \<Rightarrow> int \<Rightarrow> nat" where
  "bucket_index ns b = nat ((if b < 0 then - b else b) mod int (length ns))"

definition select_node ::
  "cluster_node list \<Rightarrow> string \<Rightarrow> string \<Rightarrow> string \<Rightarrow> int \<Rightarrow> cluster_node option" where
  "select_node nodes nid vp lab b =
     (let cs = filter (node_matches nid vp lab) nodes in
      if cs = [] then None
      else let sorted_cs = sort_key nd_id cs in
        if b \<le> 0 \<or> length cs = 1 then Some (sorted_cs ! 0)
        else Some (sorted_cs ! bucket_index sorted_cs b))"

text \<open>\<open>hash/fnv\<close>: 32-bit FNV-1a, and the bucket of a business key.\<close>

definition fnv32a_step :: "32 word \<Rightarrow> char \<Rightarrow> 32 word" where
  "fnv32a_step h c = (h XOR word_of_nat (of_char c)) * 16777619"

definition fnv32a :: "string \<Rightarrow> 32 word" where
  "fnv32a s = foldl fnv32a_step 2166136261 s"

definition bucket_of :: "string \<Rightarrow> int" where
  "bucket_of key = (if key = '''' then 0 else uint (fnv32a key) mod 256)"

section \<open>The static view and the cache\<close>

definition default_local_node :: cluster_node where
  "default_local_node = \<lparr>nd_id = ''local'', nd_address = ''127.0.0.1:9090'', nd_vpc = '''',
     nd_labels = [], nd_roles = [role_primary],
     nd_permissions = [PermOperation, PermExecute, PermSchedule, PermCollect],
     nd_online = True, nd_leader = True\<rparr>"

text \<open>\<open>param\<close> reads a parameter of the cluster DSN; absent ones are empty.\<close>

definition static_view :: "(string \<Rightarrow> string) \<Rightarrow> cluster_info" where
  "static_view param =
     (let n0 = default_local_node;
          n1 = (if param ''node_id'' \<noteq> '''' then n0\<lparr>nd_id := param ''node_id''\<rparr> else n0);
          n2 = (if param ''address'' \<noteq> '''' then n1\<lparr>nd_address := param ''address''\<rparr> else n1)
      in \<lparr>in_nodes = [n2], in_node_id = nd_id n2, in_scheduler = nd_id n2\<rparr>)"

record 'e view_cache =
  vc_info :: cluster_info
  vc_err :: "'e option"

text \<open>A refresh keeps the last snapshot when fetching fails.\<close>

definition cache_refresh :: "'e + cluster_info \<Rightarrow> 'e view_cache \<Rightarrow> 'e view_cache" where
  "cache_refresh r c =
     (case r of
        Inl e \<Rightarrow> c\<lparr>vc_err := Some e\<rparr>
      | Inr i \<Rightarrow> c\<lparr>vc_info := i, vc_err := None\<rparr>)"

definition new_cache :: "'e + cluster_info \<Rightarrow> 'e view_cache" where
  "new_cache r = cache_refresh r \<lparr>vc_info = empty_info, vc_err = None\<rparr>"

definition cache_select ::
  "'e view_cache \<Rightarrow> string \<Rightarrow> string \<Rightarrow> string \<Rightarrow> int \<Rightarrow> cluster_node option" where
  "cache_select c nid vp lab b = select_node (in_nodes (vc_info c)) nid vp lab b"

definition cache_node :: "'e view_cache \<Rightarrow> string \<Rightarrow> cluster_node option" where
  "cache_node c k = info_node (vc_info c) k"

section \<open>Properties\<close>

lemma select_candidates:
  assumes "filter (node_matches nid vp lab) nodes \<noteq> []"
  shows "\<exists>i < length (filter (node_matches nid vp lab) nodes).
    select_node nodes nid vp lab b = Some (sort_key nd_id (filter (node_matches nid vp lab) nodes) ! i)"
proof (cases "b \<le> 0 \<or> length (filter (node_matches nid vp lab) nodes) = 1")
  case True
  then show ?thesis using assms by (auto simp: select_node_def Let_def intro!: exI [of _ 0])
next
  case False
  let ?cs = "sort_key nd_id (filter (node_matches nid vp lab) nodes)"
  have "bucket_index ?cs b < length ?cs"
    using assms by (auto simp: bucket_index_def nat_less_iff)
  then show ?thesis using False assms by (auto simp: select_node_def Let_def)
qed

text \<open>Sorting by a key that is injective on the list does not depend on the list's order.\<close>

lemma sort_key_unique:
  assumes "mset xs = mset ys" and "distinct (map f xs)"
  shows "sort_key f xs = sort_key f ys"
proof (rule properties_for_sort_key)
  show "mset (sort_key f ys) = mset xs" using assms(1) by simp
  show "sorted (map f (sort_key f ys))" by simp
  fix k assume "k \<in> set (sort_key f ys)"
  have one: "length (filter (\<lambda>x. f k = f x) zs) \<le> 1" if "distinct (map f zs)" for zs
    using that by (induction zs) (auto simp: filter_empty_conv image_iff)
  have dy: "distinct (map f (sort_key f ys))"
    using assms by (metis distinct_map mset_eq_imp_distinct_iff mset_sort set_mset_mset)
  have "mset (filter (\<lambda>x. f k = f x) (sort_key f ys)) = mset (filter (\<lambda>x. f k = f x) xs)"
    using assms(1) by simp
  then show "filter (\<lambda>x. f k = f x) (sort_key f ys) = filter (\<lambda>x. f k = f x) xs"
    using one [OF assms(2)] one [OF dy]
    by (cases "filter (\<lambda>x. f k = f x) xs"; cases "filter (\<lambda>x. f k = f x) (sort_key f ys)") auto
qed



definition sample_node :: "string \<Rightarrow> string \<Rightarrow> cluster_node" where
  "sample_node k lab = zero_node\<lparr>nd_id := k, nd_labels := [lab]\<rparr>"


lemma info_add_nodes_nodes:
  "in_nodes (info_add_nodes ws i) = in_nodes i @ map node_from_proto ws"
  by (induction ws arbitrary: i) (simp_all add: Let_def)

lemma info_add_nodes_scheduler:
  "in_scheduler (info_add_nodes ws i) =
     (if in_scheduler i \<noteq> '''' then in_scheduler i
      else case find (\<lambda>w. nd_leader (node_from_proto w) \<and> nd_id (node_from_proto w) \<noteq> '''') ws of
          None \<Rightarrow> ''''
        | Some w \<Rightarrow> nd_id (node_from_proto w))"
  by (induction ws arbitrary: i) (auto simp: Let_def)

text \<open>
  A snapshot received from the cluster names as scheduler the first node that is
  flagged leader and has an identifier, and none otherwise; every node present in it may
  execute tasks; scheduling and collecting are granted together, exactly to the nodes whose
  roles contain \<open>primary\<close>.
\<close>

theorem snapshot_roles:
  assumes "i = info_from_proto (Some (self, map Some ws))"
  shows "in_nodes i = map (\<lambda>w. node_from_proto (Some w)) ws \<and>
    in_scheduler i = (case find (\<lambda>w. wn_leader w \<and> wn_id w \<noteq> '''') ws of None \<Rightarrow> '''' | Some w \<Rightarrow> wn_id w) \<and>
    (\<forall>n\<in>set (in_nodes i). has_permission n PermExecute \<and>
       (has_permission n PermSchedule \<longleftrightarrow> role_primary \<in> set (nd_roles n)) \<and>
       (has_permission n PermCollect \<longleftrightarrow> has_permission n PermSchedule))"
proof (intro conjI)
  show "in_nodes i = map (\<lambda>w. node_from_proto (Some w)) ws"
    by (simp add: assms info_from_proto_def info_add_nodes_nodes empty_info_def comp_def)
  have "find (\<lambda>w. nd_leader (node_from_proto w) \<and> nd_id (node_from_proto w) \<noteq> '''') (map Some ws) =
      map_option Some (find (\<lambda>w. wn_leader w \<and> wn_id w \<noteq> '''') ws)"
    by (induction ws) (auto simp: node_from_proto_def)
  then show "in_scheduler i =
      (case find (\<lambda>w. wn_leader w \<and> wn_id w \<noteq> '''') ws of None \<Rightarrow> '''' | Some w \<Rightarrow> wn_id w)"
    by (simp add: assms info_from_proto_def info_add_nodes_scheduler empty_info_def node_from_proto_def
        split: option.split)
  show "\<forall>n\<in>set (in_nodes i). has_permission n PermExecute \<and>
       (has_permission n PermSchedule \<longleftrightarrow> role_primary \<in> set (nd_roles n)) \<and>
       (has_permission n PermCollect \<longleftrightarrow> has_permission n PermSchedule)"
    by (auto simp: assms info_from_proto_def info_add_nodes_nodes empty_info_def node_from_proto_def
        has_permission_def permissions_of_def)
qed

definition sample_wire :: "string \<Rightarrow> string \<Rightarrow> bool \<Rightarrow> wire_node" where
  "sample_wire k r lead = \<lparr>wn_id = k, wn_address = '''', wn_vpc = '''', wn_labels = [], wn_role = [r],
     wn_online = True, wn_leader = lead\<rparr>"

theorem snapshot_roles_witness:
  "in_scheduler (info_from_proto (Some (''a'', map Some [sample_wire ''a'' ''standby'' False,
     sample_wire ''b'' ''primary'' True]))) = ''b''"
  using snapshot_roles [OF refl, of "''a''" "[sample_wire ''a'' ''standby'' False, sample_wire ''b'' ''primary'' True]"]
  by (simp add: sample_wire_def)

end
