(* ===== verification/CacheView.thy ===== *)
theory CacheView
  imports Prelude Schema "HOL-Library.AList"
begin

text \<open>
  The asynchronous view of running tasks (\<open>internal/domain/cacheview\<close>): task states,
  deduplication marks, in-flight counters and queue routes, in the in-process
  implementation \<open>MemView\<close>. The maps are association lists with distinct keys, so that
  \<open>Purge\<close> can count them. The contract that the exactly-once dispatch relies on is the
  locale \<open>dedupe_window\<close>.
\<close>

datatype task_view_state = StateDispatched | StateProcessing | StateSucceeded | StateFailed

record task_state =
  ts_task :: int
  ts_attempt :: int
  ts_state :: task_view_state
  ts_node :: string
  ts_queue :: string
  ts_error :: string
  ts_updated :: gotime

record view_options =
  vo_prefix :: string
  vo_task_ttl :: int
  vo_dedupe_ttl :: int
  vo_route_ttl :: int

definition default_view_ttl :: int where
  "default_view_ttl = 600 * 10 ^ 9"

definition default_view_prefix :: string where
  "default_view_prefix = ''stateflux:cacheview:''"

definition with_defaults :: "view_options \<Rightarrow> view_options" where
  "with_defaults v = \<lparr>
     vo_prefix = (if vo_prefix v = '''' then default_view_prefix else vo_prefix v),
     vo_task_ttl = (if vo_task_ttl v \<le> 0 then default_view_ttl else vo_task_ttl v),
     vo_dedupe_ttl = (if vo_dedupe_ttl v \<le> 0 then default_view_ttl else vo_dedupe_ttl v),
     vo_route_ttl = (if vo_route_ttl v \<le> 0 then default_view_ttl else vo_route_ttl v)\<rparr>"

record mem_view =
  mv_opts :: view_options
  mv_tasks :: "(int \<times> task_state) list"
  mv_dedupe :: "(string \<times> gotime) list"
  mv_inflight :: "(string \<times> int) list"
  mv_routes :: "(string \<times> string) list"

definition new_mem :: "view_options \<Rightarrow> mem_view" where
  "new_mem v = \<lparr>mv_opts = with_defaults v, mv_tasks = [], mv_dedupe = [], mv_inflight = [], mv_routes = []\<rparr>"

definition set_task_state :: "gotime \<Rightarrow> task_state \<Rightarrow> mem_view \<Rightarrow> mem_view" where
  "set_task_state now st v =
     (let st1 = (if is_zero_time (ts_updated st) then st\<lparr>ts_updated := now\<rparr> else st)
      in v\<lparr>mv_tasks := AList.update (ts_task st1) st1 (mv_tasks v)\<rparr>)"

definition get_task_state :: "int \<Rightarrow> mem_view \<Rightarrow> task_state option" where
  "get_task_state tid v = map_of (mv_tasks v) tid"

definition delete_task_state :: "int \<Rightarrow> mem_view \<Rightarrow> mem_view" where
  "delete_task_state tid v = v\<lparr>mv_tasks := AList.delete tid (mv_tasks v)\<rparr>"

text \<open>The mark is claimed unless it is present and has not expired.\<close>

definition claim_dedupe :: "gotime \<Rightarrow> string \<Rightarrow> mem_view \<Rightarrow> bool \<times> mem_view" where
  "claim_dedupe now k v =
     (if (case map_of (mv_dedupe v) k of None \<Rightarrow> False | Some e \<Rightarrow> now < e) then (False, v)
      else (True, v\<lparr>mv_dedupe := AList.update k (now + vo_dedupe_ttl (mv_opts v)) (mv_dedupe v)\<rparr>))"

definition release_dedupe :: "string \<Rightarrow> mem_view \<Rightarrow> mem_view" where
  "release_dedupe k v = v\<lparr>mv_dedupe := AList.delete k (mv_dedupe v)\<rparr>"

definition inflight :: "string \<Rightarrow> mem_view \<Rightarrow> int" where
  "inflight n v = (case map_of (mv_inflight v) n of None \<Rightarrow> 0 | Some c \<Rightarrow> c)"

definition incr_inflight :: "string \<Rightarrow> mem_view \<Rightarrow> int \<times> mem_view" where
  "incr_inflight n v =
     (let v' = v\<lparr>mv_inflight := AList.update n (inflight n v + 1) (mv_inflight v)\<rparr> in (inflight n v', v'))"

definition decr_inflight :: "string \<Rightarrow> mem_view \<Rightarrow> int \<times> mem_view" where
  "decr_inflight n v =
     (let v' = (if inflight n v > 0
                then v\<lparr>mv_inflight := AList.update n (inflight n v - 1) (mv_inflight v)\<rparr> else v)
      in (inflight n v', v'))"

definition set_queue_route :: "string \<Rightarrow> string \<Rightarrow> mem_view \<Rightarrow> mem_view" where
  "set_queue_route q n v = v\<lparr>mv_routes := AList.update q n (mv_routes v)\<rparr>"

definition get_queue_route :: "string \<Rightarrow> mem_view \<Rightarrow> string option" where
  "get_queue_route q v = map_of (mv_routes v) q"

definition queue_routes :: "mem_view \<Rightarrow> (string \<times> string) list" where
  "queue_routes v = mv_routes v"

definition has_prefix :: "string \<Rightarrow> string \<Rightarrow> bool" where
  "has_prefix s p = (take (length p) s = p)"

definition purge :: "string \<Rightarrow> mem_view \<Rightarrow> int \<times> mem_view" where
  "purge p v =
     (if p \<noteq> '''' \<and> \<not> has_prefix p (vo_prefix (mv_opts v)) then (0, v)
      else (int (length (mv_tasks v) + length (mv_dedupe v) + length (mv_inflight v) + length (mv_routes v)),
            v\<lparr>mv_tasks := [], mv_dedupe := [], mv_inflight := [], mv_routes := []\<rparr>))"

section \<open>The deduplication window\<close>

text \<open>The claims of one execution, and how many of one key were granted.\<close>

fun claims :: "(gotime \<Rightarrow> string \<Rightarrow> 's \<Rightarrow> bool \<times> 's) \<Rightarrow> (gotime \<times> string) list \<Rightarrow> 's \<Rightarrow> bool list" where
  "claims claim [] s = []"
| "claims claim ((t, k) # cs) s = fst (claim t k s) # claims claim cs (snd (claim t k s))"

definition granted ::
  "(gotime \<Rightarrow> string \<Rightarrow> 's \<Rightarrow> bool \<times> 's) \<Rightarrow> string \<Rightarrow> (gotime \<times> string) list \<Rightarrow> 's \<Rightarrow> nat" where
  "granted claim k cs s = length (filter (\<lambda>((t, k'), b). k' = k \<and> b) (zip cs (claims claim cs s)))"

lemma granted_Nil [simp]: "granted claim k [] s = 0"
  by (simp add: granted_def)

lemma granted_Cons [simp]:
  "granted claim k ((t, k') # cs) s =
     (if k' = k \<and> fst (claim t k' s) then 1 else 0) + granted claim k cs (snd (claim t k' s))"
  by (auto simp: granted_def)

text \<open>
  The contract: a granted claim blocks the key for the length of the window, claims of
  other keys do not interfere, and a refused claim changes nothing.
\<close>

locale dedupe_window =
  fixes claim :: "gotime \<Rightarrow> string \<Rightarrow> 's \<Rightarrow> bool \<times> 's"
    and blocked :: "gotime \<Rightarrow> string \<Rightarrow> 's \<Rightarrow> bool"
    and window :: "'s \<Rightarrow> int"
    and valid :: "'s \<Rightarrow> bool"
  assumes granted_iff: "fst (claim t k s) \<longleftrightarrow> \<not> blocked t k s"
    and granted_blocks:
      "fst (claim t k s) \<Longrightarrow> t' < t + window s \<Longrightarrow> blocked t' k (snd (claim t k s))"
    and others: "k' \<noteq> k \<Longrightarrow> blocked t' k' (snd (claim t k s)) = blocked t' k' s"
    and refused_same: "\<not> fst (claim t k s) \<Longrightarrow> snd (claim t k s) = s"
    and window_pos: "valid s \<Longrightarrow> 0 < window s"
    and keeps: "window (snd (claim t k s)) = window s" "valid s \<Longrightarrow> valid (snd (claim t k s))"
begin

definition blocked_until :: "gotime \<Rightarrow> string \<Rightarrow> 's \<Rightarrow> bool" where
  "blocked_until u k s \<longleftrightarrow> valid s \<and> (\<forall>t<u. blocked t k s)"

lemma blocked_until_claim:
  assumes "blocked_until u k s"
  shows "blocked_until u k (snd (claim t k' s))"
proof (cases "k' = k \<and> fst (claim t k s)")
  case True
  then have "u \<le> t" using assms granted_iff unfolding blocked_until_def by force
  moreover have "0 < window s" using assms window_pos by (simp add: blocked_until_def)
  ultimately have "blocked t' k (snd (claim t k s))" if "t' < u" for t'
    using that granted_blocks [of t k s t'] True by simp
  then show ?thesis using assms keeps(2) True by (simp add: blocked_until_def)
next
  case False
  then show ?thesis
    using assms keeps(2) others refused_same by (cases "k' = k") (auto simp: blocked_until_def)
qed

lemma none_granted:
  "blocked_until u k s \<Longrightarrow> \<forall>(t, k') \<in> set cs. t < u \<Longrightarrow> granted claim k cs s = 0"
proof (induction cs arbitrary: s)
  case (Cons c cs)
  obtain t k' where c: "c = (t, k')" by (cases c)
  have "\<not> (k' = k \<and> fst (claim t k' s))"
    using Cons.prems granted_iff by (auto simp: c blocked_until_def)
  then show ?case
    using Cons.IH [OF blocked_until_claim [OF Cons.prems(1)]] Cons.prems(2) by (auto simp: c)
qed simp

lemma granted_at_most_once:
  assumes "valid s" and "\<forall>(t, k') \<in> set cs. start \<le> t \<and> t < start + window s"
  shows "granted claim k cs s \<le> 1"
  using assms
proof (induction cs arbitrary: s)
  case (Cons c cs)
  obtain t k' where c: "c = (t, k')" by (cases c)
  let ?s = "snd (claim t k' s)"
  have rest: "granted claim k cs ?s \<le> 1"
    using Cons keeps by simp
  show ?case
  proof (cases "k' = k \<and> fst (claim t k' s)")
    case True
    have "blocked_until (start + window s) k ?s"
      using True granted_blocks [of t k s] Cons.prems keeps(2) by (auto simp: blocked_until_def c)
    moreover have "\<forall>(t, k') \<in> set cs. t < start + window s" using Cons.prems(2) by auto
    ultimately have "granted claim k cs ?s = 0" by (rule none_granted)
    then show ?thesis using True by (simp add: c)
  next
    case False
    then show ?thesis using rest by (auto simp: c)
  qed
qed simp

end

section \<open>The in-process view keeps the contract\<close>

definition dedupe_blocked :: "gotime \<Rightarrow> string \<Rightarrow> mem_view \<Rightarrow> bool" where
  "dedupe_blocked now k v = (case map_of (mv_dedupe v) k of None \<Rightarrow> False | Some e \<Rightarrow> now < e)"

definition dedupe_ttl :: "mem_view \<Rightarrow> int" where
  "dedupe_ttl v = vo_dedupe_ttl (mv_opts v)"

definition view_valid :: "mem_view \<Rightarrow> bool" where
  "view_valid v \<longleftrightarrow> 0 < vo_task_ttl (mv_opts v) \<and> 0 < vo_dedupe_ttl (mv_opts v) \<and>
     0 < vo_route_ttl (mv_opts v) \<and> vo_prefix (mv_opts v) \<noteq> '''' \<and>
     (\<forall>(n, c) \<in> set (mv_inflight v). 0 \<le> c)"

lemma view_valid_new: "view_valid (new_mem v)"
  by (simp add: view_valid_def new_mem_def with_defaults_def default_view_ttl_def default_view_prefix_def)

interpretation mem_dedupe: dedupe_window claim_dedupe dedupe_blocked dedupe_ttl view_valid
  by unfold_locales
    (auto simp: claim_dedupe_def dedupe_blocked_def dedupe_ttl_def view_valid_def update_conv'
      split: option.splits)

lemma inflight_nonneg: "view_valid v \<Longrightarrow> 0 \<le> inflight n v"
  by (auto simp: view_valid_def inflight_def split: option.split dest!: map_of_SomeD)

lemma set_update: "set (AList.update k x al) \<subseteq> insert (k, x) (set al)"
  by (induction al) auto

lemma view_valid_update:
  "view_valid v \<Longrightarrow> 0 \<le> x \<Longrightarrow> view_valid (v\<lparr>mv_inflight := AList.update n x (mv_inflight v)\<rparr>)"
  using set_update [of n x "mv_inflight v"] by (auto simp: view_valid_def)

lemma view_valid_counters:
  assumes "view_valid v"
  shows "view_valid (snd (incr_inflight n v))" and "view_valid (snd (decr_inflight n v))"
  using view_valid_update [OF assms] inflight_nonneg [OF assms, of n] assms
  by (simp_all add: incr_inflight_def decr_inflight_def Let_def)

text \<open>
  The deduplication of the in-process view: among all claims of an execution that fall
  into one interval no longer than the window, in any order and mixed with claims of other
  keys, each key is granted at most once.
\<close>

theorem dedupe_granted_once:
  assumes "view_valid v" and "\<forall>(t, k') \<in> set cs. start \<le> t \<and> t < start + vo_dedupe_ttl (mv_opts v)"
  shows "granted claim_dedupe k cs v \<le> 1"
  by (rule mem_dedupe.granted_at_most_once [OF assms(1)]) (use assms(2) in \<open>simp add: dedupe_ttl_def\<close>)

theorem dedupe_granted_once_witness:
  "claims claim_dedupe [(5, ''a''), (6, ''b''), (7, ''a''), (9, ''a'')]
     (new_mem \<lparr>vo_prefix = '''', vo_task_ttl = 0, vo_dedupe_ttl = 10, vo_route_ttl = 0\<rparr>)
   = [True, True, False, False] \<and>
   granted claim_dedupe ''a'' [(5, ''a''), (6, ''b''), (7, ''a''), (9, ''a'')]
     (new_mem \<lparr>vo_prefix = '''', vo_task_ttl = 0, vo_dedupe_ttl = 10, vo_route_ttl = 0\<rparr>) \<le> 1"
proof
  let ?cs = "[(5, ''a''), (6, ''b''), (7, ''a''), (9, ''a'')]"
  let ?v = "new_mem \<lparr>vo_prefix = '''', vo_task_ttl = 0, vo_dedupe_ttl = 10, vo_route_ttl = 0\<rparr>"
  show "claims claim_dedupe ?cs ?v = [True, True, False, False]" by code_simp
  have "vo_dedupe_ttl (mv_opts ?v) = 10" by code_simp
  then show "granted claim_dedupe ''a'' ?cs ?v \<le> 1"
    by (intro dedupe_granted_once [where start = 5] view_valid_new) simp
qed

end
