(* ===== verification/EventBus.thy ===== *)
theory EventBus
  imports Cluster "HOL-Library.AList"
begin

text \<open>
  The event bus (\<open>internal/eventbus/eventbus.go\<close>, \<open>channel/channel.go\<close>): resolving a call to
  a logical channel, opening channels lazily and caching them, and closing; and the queue
  registry of the process (\<open>cmd/stateflux/eventbus_wiring.go\<close>). A channel is its reference,
  kind and declared capabilities; what it does when called is an argument of the calls.
  The lock makes each operation atomic.
\<close>

section \<open>Channels\<close>

datatype channel_kind =
    KindRPCUnary | KindRPCStream | KindMemory
  | KindRedisList | KindRedisZSet | KindRedisStream | KindRedisPubSub

datatype duplex = DuplexSimplex | DuplexHalf | DuplexFull

record capabilities =
  cap_subscribe :: bool
  cap_request_reply :: bool
  cap_full_duplex :: bool
  cap_local_ack :: bool

definition duplex_of :: "capabilities \<Rightarrow> duplex" where
  "duplex_of c =
     (if cap_full_duplex c then DuplexFull
      else if cap_request_reply c then DuplexHalf
      else DuplexSimplex)"

record chan =
  ch_ref :: nat
  ch_kind :: channel_kind
  ch_caps :: capabilities

text \<open>The payload type is left open: the bus moves it unchanged.\<close>

record 'p envelope =
  env_topic :: string
  env_key :: string
  env_attempt :: int
  env_correlation :: string
  env_target :: string
  env_headers :: "(string \<times> string) list"
  env_payload :: 'p

record channel_spec =
  sp_name :: string
  sp_kind :: channel_kind
  sp_dsn :: string

datatype bus_error =
    BusClosed
  | EmptyName
  | NilChannel string
  | UnknownDefault string
  | Unresolved string
  | NoRegistry string
  | NoMapping string
  | UnknownNode string
  | NodeWithoutQueue string
  | NoDefaultChannel
  | NoFactory string
  | OpenFailed string
  | NoSubscribe string
  | ChannelError string

record registry =
  qr_spec :: "string \<Rightarrow> channel_spec option"
  qr_queue_for_node :: "string \<Rightarrow> string option"
  qr_default :: "channel_spec option"

record bus =
  eb_view :: "(string \<Rightarrow> cluster_node option) option"
  eb_queues :: "registry option"
  eb_factory :: "(channel_spec \<Rightarrow> string + chan) option"
  eb_default :: string
  eb_channels :: "(string \<times> chan) list"
  eb_closed :: bool

section \<open>Construction and cache\<close>

definition register :: "string \<Rightarrow> chan option \<Rightarrow> bus \<Rightarrow> (bus_error + unit) \<times> bus" where
  "register name co b =
     (if name = '''' then (Inl EmptyName, b)
      else case co of None \<Rightarrow> (Inl (NilChannel name), b)
        | Some c \<Rightarrow> (Inr (), b\<lparr>eb_channels := AList.update name c (eb_channels b)\<rparr>))"

fun register_all :: "(string \<times> chan option) list \<Rightarrow> bus \<Rightarrow> bus_error + bus" where
  "register_all [] b = Inr b"
| "register_all ((name, co) # cs) b =
     (case register name co b of
        (Inl e, _) \<Rightarrow> Inl e
      | (Inr _, b') \<Rightarrow> register_all cs b')"

definition new_bus ::
  "(string \<Rightarrow> cluster_node option) option \<Rightarrow> registry option \<Rightarrow> (channel_spec \<Rightarrow> string + chan) option
     \<Rightarrow> (string \<times> chan option) list \<Rightarrow> string \<Rightarrow> bus_error + bus" where
  "new_bus view qs factory channels def_name =
     rbind (register_all channels \<lparr>eb_view = view, eb_queues = qs, eb_factory = factory,
              eb_default = def_name, eb_channels = [], eb_closed = False\<rparr>)
       (\<lambda>b. if def_name \<noteq> '''' \<and> map_of (eb_channels b) def_name = None then Inl (UnknownDefault def_name)
            else Inr b)"

definition resolve_existing :: "string \<Rightarrow> bus \<Rightarrow> bus_error + chan" where
  "resolve_existing name b =
     (case map_of (eb_channels b) name of None \<Rightarrow> Inl (Unresolved name) | Some c \<Rightarrow> Inr c)"

definition invalidate :: "string \<Rightarrow> bus \<Rightarrow> (bus_error + unit) \<times> bus" where
  "invalidate name b =
     (case map_of (eb_channels b) name of
        None \<Rightarrow> (Inl (Unresolved name), b)
      | Some _ \<Rightarrow> (Inr (), b\<lparr>eb_channels := AList.delete name (eb_channels b)\<rparr>))"

section \<open>Resolution and lazy opening\<close>

record resolved =
  rs_name :: string
  rs_node :: string

definition spec_for :: "resolved \<Rightarrow> bus \<Rightarrow> bus_error + channel_spec" where
  "spec_for r b =
     (case eb_queues b of None \<Rightarrow> Inl (NoRegistry (rs_name r))
      | Some q \<Rightarrow>
          (let found = (case qr_spec q (rs_name r) of
                 Some sp \<Rightarrow> Some sp
               | None \<Rightarrow> (case qr_default q of
                     Some d \<Rightarrow> if sp_name d = rs_name r then Some d else None
                   | None \<Rightarrow> None))
           in case found of None \<Rightarrow> Inl (NoMapping (rs_name r))
              | Some sp \<Rightarrow>
                  (if rs_node r = '''' then Inr sp
                   else case eb_view b of None \<Rightarrow> Inr sp
                     | Some view \<Rightarrow>
                         (case view (rs_node r) of None \<Rightarrow> Inl (UnknownNode (rs_node r))
                          | Some n \<Rightarrow> Inr (if sp_dsn sp = '''' then sp\<lparr>sp_dsn := nd_address n\<rparr> else sp)))))"

definition acquire :: "resolved \<Rightarrow> bus \<Rightarrow> (bus_error + chan) \<times> bus" where
  "acquire r b =
     (case map_of (eb_channels b) (rs_name r) of
        Some c \<Rightarrow> (Inr c, b)
      | None \<Rightarrow>
          if eb_closed b then (Inl BusClosed, b)
          else case spec_for r b of
              Inl e \<Rightarrow> (Inl e, b)
            | Inr sp \<Rightarrow>
                (case eb_factory b of None \<Rightarrow> (Inl (NoFactory (rs_name r)), b)
                 | Some f \<Rightarrow>
                     (case f sp of
                        Inl _ \<Rightarrow> (Inl (OpenFailed (sp_name sp)), b)
                      | Inr c \<Rightarrow> (Inr c, b\<lparr>eb_channels := AList.update (rs_name r) c (eb_channels b)\<rparr>))))"

definition channel_named :: "string \<Rightarrow> bus \<Rightarrow> (bus_error + chan) \<times> bus" where
  "channel_named name b = acquire \<lparr>rs_name = name, rs_node = ''''\<rparr> b"

text \<open>The option \<open>WithChannel\<close> is the name; the empty name means automatic resolution.\<close>

definition resolve_call :: "string \<Rightarrow> string \<Rightarrow> bus \<Rightarrow> bus_error + resolved" where
  "resolve_call opt target b =
     (if opt \<noteq> '''' then Inr \<lparr>rs_name = opt, rs_node = ''''\<rparr>
      else if target \<noteq> '''' then
        (case eb_queues b of None \<Rightarrow> Inl (NoRegistry target)
         | Some q \<Rightarrow> (case qr_queue_for_node q target of
               None \<Rightarrow> Inl (NodeWithoutQueue target)
             | Some name \<Rightarrow> Inr \<lparr>rs_name = name, rs_node = target\<rparr>))
      else if eb_default b \<noteq> '''' then Inr \<lparr>rs_name = eb_default b, rs_node = ''''\<rparr>
      else case eb_queues b of None \<Rightarrow> Inl NoDefaultChannel
        | Some q \<Rightarrow> (case qr_default q of None \<Rightarrow> Inl NoDefaultChannel
            | Some sp \<Rightarrow> Inr \<lparr>rs_name = sp_name sp, rs_node = ''''\<rparr>))"

definition acquire_for :: "string \<Rightarrow> string \<Rightarrow> bus \<Rightarrow> (bus_error + chan) \<times> bus" where
  "acquire_for opt target b =
     (case resolve_call opt target b of Inl e \<Rightarrow> (Inl e, b) | Inr r \<Rightarrow> acquire r b)"

text \<open>
  \<open>Call\<close>: \<open>io\<close> is the channel's own \<open>Call\<close>, acting on the state \<open>w\<close> outside the bus.
\<close>

definition bus_call ::
  "(chan \<Rightarrow> 'p envelope \<Rightarrow> 'w \<Rightarrow> (string + 'p envelope) \<times> 'w) \<Rightarrow> string \<Rightarrow> 'p envelope \<Rightarrow> bus \<Rightarrow> 'w
     \<Rightarrow> (bus_error + 'p envelope) \<times> bus \<times> 'w" where
  "bus_call io opt env b w =
     (case acquire_for opt (env_target env) b of
        (Inl e, b') \<Rightarrow> (Inl e, b', w)
      | (Inr c, b') \<Rightarrow>
          (let (r, w') = io c env w
           in ((case r of Inl m \<Rightarrow> Inl (ChannelError m) | Inr v \<Rightarrow> Inr v), b', w')))"

definition bus_send ::
  "(chan \<Rightarrow> 'p envelope \<Rightarrow> 'w \<Rightarrow> (string + 'p envelope) \<times> 'w) \<Rightarrow> string \<Rightarrow> 'p envelope \<Rightarrow> bus \<Rightarrow> 'w
     \<Rightarrow> (bus_error + unit) \<times> bus \<times> 'w" where
  "bus_send io opt env b w =
     (let (r, b', w') = bus_call io opt env b w in (map_sum id (\<lambda>_. ()) r, b', w'))"

text \<open>
  \<open>SubscribeTopic\<close>: \<open>can\<close> says which channels implement the subscriber interface, \<open>sub\<close> is
  their \<open>Subscribe\<close>.
\<close>

definition subscribe_topic ::
  "(chan \<Rightarrow> bool) \<Rightarrow> (chan \<Rightarrow> string \<Rightarrow> 'w \<Rightarrow> (string + 'h) \<times> 'w) \<Rightarrow> string \<Rightarrow> string \<Rightarrow> bus \<Rightarrow> 'w
     \<Rightarrow> (bus_error + 'h) \<times> bus \<times> 'w" where
  "subscribe_topic can sub opt topic b w =
     (case acquire_for opt '''' b of
        (Inl e, b') \<Rightarrow> (Inl e, b', w)
      | (Inr c, b') \<Rightarrow>
          if \<not> can c then (Inl (NoSubscribe opt), b', w)
          else (let (r, w') = sub c topic w
                in ((case r of Inl m \<Rightarrow> Inl (ChannelError m) | Inr h \<Rightarrow> Inr h), b', w')))"

text \<open>
  \<open>Close\<close> empties the cache and refuses new channels; a second call does nothing. Each
  distinct channel that can be closed is closed once; \<open>shut\<close> is the channel's \<open>Close\<close>, with
  its error. The result is the list of the errors and of the channels closed.
\<close>

definition close_bus ::
  "(chan \<Rightarrow> bool) \<Rightarrow> (chan \<Rightarrow> string option) \<Rightarrow> bus \<Rightarrow> string list \<times> chan list \<times> bus" where
  "close_bus can shut b =
     (if eb_closed b then ([], [], b)
      else let cs = filter can (remdups (map snd (eb_channels b)))
        in (List.map_filter shut cs, cs, b\<lparr>eb_closed := True, eb_channels := []\<rparr>))"

section \<open>The queue registry of the process (eventbus_wiring.go)\<close>

definition queue_spec :: "(string \<Rightarrow> channel_kind option) \<Rightarrow> string \<Rightarrow> channel_spec option" where
  "queue_spec kinds name =
     (if name = '''' then None
      else Some \<lparr>sp_name = name,
        sp_kind = (case kinds name of None \<Rightarrow> KindRedisList | Some k \<Rightarrow> k), sp_dsn = ''''\<rparr>)"

definition channel_names :: "string \<Rightarrow> channel_kind option" where
  "channel_names = map_of [
     (''default'', KindRedisList), (''sync'', KindRPCUnary), (''stream'', KindRPCStream),
     (''redis-list'', KindRedisList), (''redis-zset'', KindRedisZSet),
     (''redis-stream'', KindRedisStream), (''redis-pubsub'', KindRedisPubSub),
     (''rpc-unary'', KindRPCUnary), (''rpc-stream'', KindRPCStream), (''memory'', KindMemory)]"

text \<open>
  \<open>QueueForNode\<close>: the least queue routed to the node, over the routes in any order.
  \<open>None\<close> as routes stands for an absent view or a failed read.
\<close>

fun best_queue :: "string \<Rightarrow> string \<Rightarrow> (string \<times> string) list \<Rightarrow> string" where
  "best_queue nid best [] = best"
| "best_queue nid best ((q, n) # rs) =
     best_queue nid (if n = nid \<and> (best = '''' \<or> q < best) then q else best) rs"

definition queue_for_node :: "(string \<times> string) list option \<Rightarrow> string \<Rightarrow> string option" where
  "queue_for_node routes nid =
     (case routes of None \<Rightarrow> None
      | Some rs \<Rightarrow>
          if nid = '''' then None
          else let best = best_queue nid '''' rs in if best \<noteq> '''' then Some best else None)"

definition wired_registry :: "(string \<times> string) list option \<Rightarrow> registry" where
  "wired_registry routes = \<lparr>qr_spec = queue_spec channel_names, qr_queue_for_node = queue_for_node routes,
     qr_default = Some \<lparr>sp_name = ''default'', sp_kind = KindRedisList, sp_dsn = ''''\<rparr>\<rparr>"

section \<open>Properties\<close>

lemma acquire_cached:
  "map_of (eb_channels b) (rs_name r) = Some c \<Longrightarrow> acquire r b = (Inr c, b)"
  by (simp add: acquire_def)

lemma acquire_Inr:
  assumes "acquire r b = (Inr c, b')"
  shows "map_of (eb_channels b') (rs_name r) = Some c \<and>
    (\<forall>name. name \<noteq> rs_name r \<longrightarrow> map_of (eb_channels b') name = map_of (eb_channels b) name) \<and>
    (b' = b \<or> map_of (eb_channels b) (rs_name r) = None \<and> \<not> eb_closed b)"
  using assms
  by (auto simp: acquire_def update_conv' split: option.splits if_splits sum.splits)

lemma acquire_Inl: "acquire r b = (Inl e, b') \<Longrightarrow> b' = b"
  by (auto simp: acquire_def split: option.splits if_splits sum.splits)

lemma acquire_keeps:
  assumes "map_of (eb_channels b) name = Some c"
  shows "map_of (eb_channels (snd (acquire r b))) name = Some c"
proof (cases "name = rs_name r")
  case True
  then show ?thesis using assms by (simp add: acquire_cached)
next
  case False
  show ?thesis
  proof (cases "acquire r b")
    case (Pair x b')
    show ?thesis
      using assms False acquire_Inr [of r b] acquire_Inl [of r b] Pair by (cases x) auto
  qed
qed

text \<open>The acquisitions of an execution.\<close>

definition acquire_all :: "resolved list \<Rightarrow> bus \<Rightarrow> bus" where
  "acquire_all rs b = fold (\<lambda>r b. snd (acquire r b)) rs b"

lemma acquire_all_keeps:
  "map_of (eb_channels b) name = Some c \<Longrightarrow> map_of (eb_channels (acquire_all rs b)) name = Some c"
  unfolding acquire_all_def by (induction rs arbitrary: b) (simp_all add: acquire_keeps)

text \<open>
  A channel is opened once per name: after a successful acquisition, every later one
  under that name, for whatever node and after any number of other acquisitions, returns
  the same channel and leaves the bus as it is. (The name alone is the cache key: a queue
  first opened for one node serves all nodes.)
\<close>

theorem channel_opened_once:
  assumes "acquire r b = (Inr c, b')" and "rs_name r' = rs_name r"
  shows "acquire r' (acquire_all rs b') = (Inr c, acquire_all rs b')"
  by (rule acquire_cached) (simp add: assms(2) acquire_all_keeps acquire_Inr [OF assms(1)])

definition sample_bus :: bus where
  "sample_bus = \<lparr>eb_view = Some (\<lambda>k. Some (zero_node\<lparr>nd_id := k, nd_address := k\<rparr>)),
     eb_queues = Some (wired_registry (Some [(''q1'', ''n1''), (''q1'', ''n2'')])),
     eb_factory = Some (\<lambda>sp. Inr \<lparr>ch_ref = length (sp_dsn sp), ch_kind = sp_kind sp,
       ch_caps = \<lparr>cap_subscribe = True, cap_request_reply = False, cap_full_duplex = False,
         cap_local_ack = False\<rparr>\<rparr>),
     eb_default = '''', eb_channels = [], eb_closed = False\<rparr>"

theorem channel_opened_once_witness:
  "fst (acquire_for '''' ''n1'' sample_bus) = fst (acquire_for '''' ''n2'' (snd (acquire_for '''' ''n1'' sample_bus)))"
proof -
  let ?r = "\<lparr>rs_name = ''q1'', rs_node = ''n1''\<rparr>" and ?r2 = "\<lparr>rs_name = ''q1'', rs_node = ''n2''\<rparr>"
  let ?c = "\<lparr>ch_ref = 2, ch_kind = KindRedisList, ch_caps = \<lparr>cap_subscribe = True,
    cap_request_reply = False, cap_full_duplex = False, cap_local_ack = False\<rparr>\<rparr>"
  have "fst (acquire ?r sample_bus) = Inr ?c" by code_simp
  then have c: "acquire ?r sample_bus = (Inr ?c, snd (acquire ?r sample_bus))" by (simp add: prod_eq_iff)
  have n1: "resolve_call '''' ''n1'' sample_bus = Inr ?r" by code_simp
  have n2: "resolve_call '''' ''n2'' (snd (acquire ?r sample_bus)) = Inr ?r2" by code_simp
  have "acquire ?r2 (snd (acquire ?r sample_bus)) = (Inr ?c, snd (acquire ?r sample_bus))"
    using channel_opened_once [OF c, of ?r2 "[]"] by (simp add: acquire_all_def)
  then show ?thesis using c n1 n2 by (simp add: acquire_for_def)
qed

text \<open>The queues routed to a node.\<close>

definition node_queues :: "string \<Rightarrow> (string \<times> string) list \<Rightarrow> string set" where
  "node_queues nid rs = {q. (q, nid) \<in> set rs}"

lemma node_queues_simps [simp]:
  "node_queues nid [] = {}"
  "node_queues nid ((q, n) # rs) = (if n = nid then insert q (node_queues nid rs) else node_queues nid rs)"
  by (auto simp: node_queues_def)

lemma finite_node_queues [simp]: "finite (node_queues nid rs)"
  by (induction rs) auto

lemma best_queue_Min:
  "best \<noteq> '''' \<Longrightarrow> '''' \<notin> node_queues nid rs \<Longrightarrow>
   best_queue nid best rs = Min (insert best (node_queues nid rs))"
proof (induction rs arbitrary: best)
  case (Cons r rs)
  obtain q n where r: "r = (q, n)" by (cases r)
  show ?case
  proof (cases "n = nid")
    case True
    have "Min (insert best (insert q (node_queues nid rs))) =
        Min (insert (if q < best then q else best) (node_queues nid rs))"
      by (cases "node_queues nid rs = {}") (auto simp: min_def Min_insert2 min.assoc [symmetric])
    then show ?thesis using Cons True by (auto simp: r)
  qed (use Cons in \<open>simp add: r\<close>)
qed simp

lemma best_queue_first:
  "'''' \<notin> node_queues nid rs \<Longrightarrow>
   best_queue nid '''' rs = (if node_queues nid rs = {} then '''' else Min (node_queues nid rs))"
proof (induction rs)
  case (Cons r rs)
  obtain q n where r: "r = (q, n)" by (cases r)
  show ?case
  proof (cases "n = nid")
    case True
    then show ?thesis using r Cons.prems best_queue_Min [of q nid rs] by auto
  next
    case False
    then show ?thesis using r Cons by simp
  qed
qed simp

text \<open>
  The queue chosen for a node is reproducible: for routes with non-empty queue names it
  is the least queue routed to the node, whatever the order of the routes, and there is none
  exactly if no queue is routed to it.
\<close>

theorem queue_for_node_least:
  assumes "nid \<noteq> ''''" and "'''' \<notin> node_queues nid rs"
  shows "queue_for_node (Some rs) nid =
    (if node_queues nid rs = {} then None else Some (Min (node_queues nid rs)))"
proof -
  have "Min (node_queues nid rs) \<noteq> ''''" if "node_queues nid rs \<noteq> {}"
    using Min_in [OF finite_node_queues that] assms(2) by auto
  then show ?thesis
    using assms by (simp add: queue_for_node_def best_queue_first)
qed

theorem queue_for_node_least_witness:
  "queue_for_node (Some [(''q2'', ''n''), (''q1'', ''n''), (''q0'', ''m'')]) ''n'' = Some ''q1'' \<and>
   Min (node_queues ''n'' [(''q2'', ''n''), (''q1'', ''n''), (''q0'', ''m'')]) = ''q1''"
proof -
  let ?rs = "[(''q2'', ''n''), (''q1'', ''n''), (''q0'', ''m'')]"
  have s: "node_queues ''n'' ?rs = {''q2'', ''q1''}" by simp
  have q: "queue_for_node (Some ?rs) ''n'' = Some ''q1''" by code_simp
  show ?thesis
    using queue_for_node_least [of "''n''" ?rs] q by (simp add: s)
qed

end
