(* ===== verification/Dispatch.thy ===== *)
theory Dispatch
  imports Cluster CacheView Messages EventBus
begin

text \<open>
  Delivering a claimed task (\<open>internal/task/dispatch/dispatch.go\<close>, \<open>internal/task/semantics.go\<close>):
  entry deduplication for exactly-once, the choice of the target node, the envelope, the
  call on the channel and the asynchronous view. The view is used through its operations
  (\<open>view_ops\<close>), the bus through its \<open>Call\<close>; the encoders are arguments. \<open>'v\<close> is the state
  of the view, \<open>'w\<close> the state behind the bus.
\<close>

section \<open>Semantics and delivery forms\<close>

definition at_least_once :: string where "at_least_once = ''at_least_once''"
definition at_most_once :: string where "at_most_once = ''at_most_once''"
definition exactly_once :: string where "exactly_once = ''exactly_once''"
definition delivery_redis_queue :: string where "delivery_redis_queue = ''redis_queue''"
definition delivery_sync_rpc :: string where "delivery_sync_rpc = ''sync_rpc''"

section \<open>Requests, results and the environment\<close>

record dispatch_request =
  dr_queue :: string
  dr_message :: "task_message option"
  dr_delivery :: string
  dr_semantics :: string
  dr_target :: cluster_node
  dr_dedupe_key :: string
  dr_correlation :: string

record dispatch_result =
  ds_task_id :: int
  ds_target :: string
  ds_accepted :: bool
  ds_duplicate :: bool
  ds_retryable :: bool
  ds_message :: string
  ds_result :: "result_event option"

datatype dispatch_error =
    NilMessage | EmptyQueue | DedupeFailed string | NoTargetNode | EncodeFailed string | CallFailed string

record 'v view_ops =
  vw_claim :: "string \<Rightarrow> 'v \<Rightarrow> (string + bool) \<times> 'v"
  vw_set_state :: "task_state \<Rightarrow> 'v \<Rightarrow> (string + unit) \<times> 'v"
  vw_incr :: "string \<Rightarrow> 'v \<Rightarrow> (string + int) \<times> 'v"
  vw_set_route :: "string \<Rightarrow> string \<Rightarrow> 'v \<Rightarrow> (string + unit) \<times> 'v"

text \<open>
  The dispatcher: its node view (a selection function, or none), its own identifier, the
  configured defaults, the two encoders, the decoder of a reply, and the bus.
\<close>

record ('p, 'w) dispatcher =
  di_select :: "(string \<Rightarrow> string \<Rightarrow> string \<Rightarrow> int \<Rightarrow> cluster_node option) option"
  di_self :: string
  di_default_delivery :: string
  di_default_semantics :: string
  di_marshal :: "task_message \<Rightarrow> string + 'p"
  di_encode :: "task_message \<Rightarrow> string + 'p"
  di_reply :: "'p \<Rightarrow> result_event option"
  di_call :: "string \<Rightarrow> 'p envelope \<Rightarrow> 'w \<Rightarrow> (string + 'p envelope) \<times> 'w"

definition resolve_task_target :: "('p, 'w) dispatcher \<Rightarrow> task_message \<Rightarrow> cluster_node option" where
  "resolve_task_target d m =
     (case di_select d of
        Some sel \<Rightarrow> sel (tm_node m) (tm_vpc m) (tm_label m) (tm_hash_bucket m)
      | None \<Rightarrow> if di_self d = '''' then None else Some (zero_node\<lparr>nd_id := di_self d\<rparr>))"

definition resolve_target :: "('p, 'w) dispatcher \<Rightarrow> dispatch_request \<Rightarrow> task_message \<Rightarrow> cluster_node option" where
  "resolve_target d req m =
     (if nd_id (dr_target req) \<noteq> '''' then Some (dr_target req) else resolve_task_target d m)"

definition build_envelope ::
  "('p, 'w) dispatcher \<Rightarrow> string \<Rightarrow> string \<Rightarrow> dispatch_request \<Rightarrow> task_message \<Rightarrow> cluster_node
     \<Rightarrow> string + 'p envelope" where
  "build_envelope d queue delivery req m target =
     map_sum id (\<lambda>p. \<lparr>env_topic = queue, env_key = show_int (tm_task_id m),
         env_attempt = tm_attempt m, env_correlation = dr_correlation req,
         env_target = nd_address target, env_headers = [], env_payload = p\<rparr>)
       (if delivery = delivery_sync_rpc then di_marshal d m else di_encode d m)"

definition dedupe_key :: "dispatch_request \<Rightarrow> task_message \<Rightarrow> string" where
  "dedupe_key req m =
     (if dr_dedupe_key req \<noteq> '''' then dr_dedupe_key req
      else if tm_idempotency_key m \<noteq> '''' then tm_idempotency_key m
      else show_int (tm_task_id m))"

text \<open>The best-effort updates of the asynchronous view after a queue delivery.\<close>

definition note_dispatched ::
  "'v view_ops \<Rightarrow> task_message \<Rightarrow> string \<Rightarrow> string \<Rightarrow> 'v \<Rightarrow> 'v" where
  "note_dispatched V m queue nid v =
     (let v1 = snd (vw_set_state V \<lparr>ts_task = tm_task_id m, ts_attempt = tm_attempt m,
            ts_state = StateDispatched, ts_node = nid, ts_queue = queue, ts_error = '''', ts_updated = 0\<rparr> v);
          v2 = snd (vw_incr V nid v1)
      in snd (vw_set_route V queue nid v2))"

text \<open>Everything after the deduplication.\<close>

definition send_to_target ::
  "'v view_ops \<Rightarrow> ('p, 'w) dispatcher \<Rightarrow> dispatch_request \<Rightarrow> task_message \<Rightarrow> string \<Rightarrow> string \<Rightarrow> string
     \<Rightarrow> dispatch_result \<Rightarrow> 'v \<times> 'w \<Rightarrow> (dispatch_error option \<times> dispatch_result option) \<times> ('v \<times> 'w)" where
  "send_to_target V d req m queue delivery semantics res st =
     (case resolve_target d req m of
        None \<Rightarrow> ((Some NoTargetNode, None), st)
      | Some target \<Rightarrow>
          (let res1 = res\<lparr>ds_target := nd_id target\<rparr> in
           case build_envelope d queue delivery req m target of
             Inl e \<Rightarrow> ((Some (EncodeFailed e), None), st)
           | Inr env \<Rightarrow>
               (let (v, w) = st; (r, w') = di_call d queue env w in
                case r of
                  Inl e \<Rightarrow>
                    (let res2 = res1\<lparr>ds_message := e\<rparr> in
                     if semantics = at_most_once then ((None, Some res2), (v, w'))
                     else ((Some (CallFailed e), Some res2), (v, w')))
                | Inr resp \<Rightarrow>
                    (let res2 = res1\<lparr>ds_accepted := True\<rparr>;
                         res3 = (if delivery = delivery_sync_rpc then
                            (case di_reply d (env_payload resp) of
                               None \<Rightarrow> res2
                             | Some ev \<Rightarrow> if re_task_id ev \<noteq> 0 then res2\<lparr>ds_result := Some ev\<rparr> else res2)
                            else res2);
                         v' = (if delivery = delivery_redis_queue
                               then note_dispatched V m queue (nd_id target) v else v)
                     in ((None, Some res3), (v', w'))))))"

definition deliver ::
  "'v view_ops \<Rightarrow> ('p, 'w) dispatcher \<Rightarrow> dispatch_request \<Rightarrow> 'v \<times> 'w
     \<Rightarrow> (dispatch_error option \<times> dispatch_result option) \<times> ('v \<times> 'w)" where
  "deliver V d req st =
     (case dr_message req of None \<Rightarrow> ((Some NilMessage, None), st)
      | Some m \<Rightarrow>
          (let queue = (if dr_queue req = '''' then tm_channel m else dr_queue req);
               delivery = (if dr_delivery req = '''' then di_default_delivery d else dr_delivery req);
               semantics = (if dr_semantics req = '''' then di_default_semantics d else dr_semantics req);
               res = \<lparr>ds_task_id = tm_task_id m, ds_target = '''', ds_accepted = False, ds_duplicate = False,
                 ds_retryable = (semantics \<noteq> at_most_once), ds_message = '''', ds_result = None\<rparr>
           in
           if queue = '''' then ((Some EmptyQueue, None), st)
           else if semantics = exactly_once then
             (let (v, w) = st; (first, v') = vw_claim V (dedupe_key req m) v in
              case first of
                Inl e \<Rightarrow> ((Some (DedupeFailed e), None), (v', w))
              | Inr False \<Rightarrow>
                  ((None, Some (res\<lparr>ds_accepted := True, ds_duplicate := True,
                      ds_message := ''exactly_once dedupe hit''\<rparr>)), (v', w))
              | Inr True \<Rightarrow> send_to_target V d req m queue delivery semantics res (v', w))
           else send_to_target V d req m queue delivery semantics res st))"

section \<open>The view's contract for exactly-once\<close>

locale exactly_once_view =
  fixes V :: "gotime \<Rightarrow> 'v view_ops" and marked :: "gotime \<Rightarrow> string \<Rightarrow> 'v \<Rightarrow> bool"
    and window :: "'v \<Rightarrow> int"
  assumes claim_marks: "vw_claim (V t) k v = (Inr True, v') \<Longrightarrow> marked (t + window v) k v'"
    and marked_refuses: "marked u k v \<Longrightarrow> t < u \<Longrightarrow> vw_claim (V t) k v = (Inr False, v)"
    and updates_keep:
      "marked u k v \<Longrightarrow> marked u k (snd (vw_set_state (V t) st v))"
      "marked u k v \<Longrightarrow> marked u k (snd (vw_incr (V t) n v))"
      "marked u k v \<Longrightarrow> marked u k (snd (vw_set_route (V t) q n v))"
begin

lemma note_dispatched_keeps:
  "marked u k v \<Longrightarrow> marked u k (note_dispatched (V t) m queue n v)"
  by (simp add: note_dispatched_def updates_keep)

lemma send_keeps:
  assumes "marked u k v"
    and "send_to_target (V t) d req m queue delivery semantics res (v, w) = (out, (v', w'))"
  shows "marked u k v'"
  using assms note_dispatched_keeps
  by (auto simp: send_to_target_def Let_def split: option.splits sum.splits prod.splits if_splits)

lemma second_delivery_dropped:
  assumes "dr_message req = Some m" and "dr_semantics req = exactly_once"
    and "vw_claim (V t) (dedupe_key req m) v = (Inr True, x)"
    and "dr_queue req \<noteq> ''''"
    and "deliver (V t) d req (v, w) = (out, (v1, w1))"
    and "dr_message req2 = Some m2" and "dr_semantics req2 = exactly_once" and "dr_queue req2 \<noteq> ''''"
    and "dedupe_key req2 m2 = dedupe_key req m" and "t' < t + window v"
  shows "\<exists>r. deliver (V t') d' req2 (v1, w1) = ((None, Some r), (v1, w1)) \<and> ds_accepted r \<and> ds_duplicate r"
proof -
  have ne: "exactly_once \<noteq> ''''" by (simp add: exactly_once_def)
  have "marked (t + window v) (dedupe_key req m) x" using claim_marks [OF assms(3)] .
  moreover have "\<exists>dl res. send_to_target (V t) d req m (dr_queue req) dl exactly_once res (x, w) = (out, (v1, w1))"
    using assms(1-5) ne by (simp add: deliver_def Let_def) blast
  ultimately have "marked (t + window v) (dedupe_key req m) v1"
    by (elim exE) (rule send_keeps)
  then have "vw_claim (V t') (dedupe_key req2 m2) v1 = (Inr False, v1)"
    using marked_refuses [OF _ assms(10)] assms(9) by simp
  then show ?thesis using assms(6-8) ne by (simp add: deliver_def Let_def)
qed

end

text \<open>The in-process view.\<close>

definition mem_view_ops :: "gotime \<Rightarrow> mem_view view_ops" where
  "mem_view_ops now = \<lparr>
     vw_claim = (\<lambda>k v. let (b, v') = claim_dedupe now k v in (Inr b, v')),
     vw_set_state = (\<lambda>st v. (Inr (), set_task_state now st v)),
     vw_incr = (\<lambda>n v. let (c, v') = incr_inflight n v in (Inr c, v')),
     vw_set_route = (\<lambda>q n v. (Inr (), set_queue_route q n v))\<rparr>"

definition dedupe_marked :: "gotime \<Rightarrow> string \<Rightarrow> mem_view \<Rightarrow> bool" where
  "dedupe_marked u k v \<longleftrightarrow> (case map_of (mv_dedupe v) k of None \<Rightarrow> False | Some e \<Rightarrow> u \<le> e)"

interpretation mem_exactly_once: exactly_once_view mem_view_ops dedupe_marked dedupe_ttl
  by unfold_locales
    (auto simp: mem_view_ops_def claim_dedupe_def dedupe_marked_def dedupe_ttl_def update_conv'
      set_task_state_def incr_inflight_def set_queue_route_def Let_def
      split: if_splits option.splits)

section \<open>Properties\<close>

text \<open>
  C19. Exactly-once deliveries over the in-process view: once a delivery has claimed its
  deduplication key, every later delivery under the same key within the window is answered
  as accepted and duplicate, without calling a channel and without touching the view. This
  holds whatever the first delivery came to: the mark is not released when no target was
  found, the encoding failed or the call failed.
\<close>

theorem exactly_once_second_delivery:
  assumes "dr_message req = Some m" and "dr_semantics req = exactly_once" and "dr_queue req \<noteq> ''''"
    and "fst (claim_dedupe now (dedupe_key req m) v)"
    and "deliver (mem_view_ops now) d req (v, w) = (out, (v1, w1))"
    and "dr_message req2 = Some m2" and "dr_semantics req2 = exactly_once" and "dr_queue req2 \<noteq> ''''"
    and "dedupe_key req2 m2 = dedupe_key req m" and "now' < now + vo_dedupe_ttl (mv_opts v)"
  shows "\<exists>r. deliver (mem_view_ops now') d' req2 (v1, w1) = ((None, Some r), (v1, w1)) \<and>
    ds_accepted r \<and> ds_duplicate r"
proof (rule mem_exactly_once.second_delivery_dropped [OF assms(1,2) _ assms(3,5-9)])
  show "vw_claim (mem_view_ops now) (dedupe_key req m) v =
      (Inr True, snd (claim_dedupe now (dedupe_key req m) v))"
    using assms(4) by (simp add: mem_view_ops_def split_beta)
  show "now' < now + dedupe_ttl v" using assms(10) by (simp add: dedupe_ttl_def)
qed


definition sample_message :: task_message where
  "sample_message = \<lparr>tm_task_id = 7, tm_attempt = 1, tm_type = ''probe'', tm_operator = '''',
     tm_payload = NoContent, tm_priority = 50, tm_deadline_ms = 0, tm_timeout_ms = 1000, tm_trace = [],
     tm_channel = ''q'', tm_vpc = '''', tm_node = '''', tm_label = '''', tm_hash_bucket = 0,
     tm_idempotency_key = '''', tm_origin_node = ''s'', tm_visited = [], tm_created_ms = 0\<rparr>"

definition sample_dispatch :: "string \<Rightarrow> dispatch_request" where
  "sample_dispatch sem = \<lparr>dr_queue = ''q'', dr_message = Some sample_message, dr_delivery = delivery_redis_queue,
     dr_semantics = sem, dr_target = zero_node, dr_dedupe_key = '''', dr_correlation = ''''\<rparr>"

text \<open>A dispatcher whose channel fails; the world counts the calls.\<close>

definition failing_dispatcher :: "(unit, nat) dispatcher" where
  "failing_dispatcher = \<lparr>di_select = Some (\<lambda>_ _ _ _. Some (zero_node\<lparr>nd_id := ''w1''\<rparr>)), di_self = ''s'',
     di_default_delivery = '''', di_default_semantics = '''', di_marshal = (\<lambda>_. Inr ()),
     di_encode = (\<lambda>_. Inr ()), di_reply = (\<lambda>_. None), di_call = (\<lambda>_ _ n. (Inl ''refused'', Suc n))\<rparr>"

definition sample_view :: mem_view where
  "sample_view = new_mem \<lparr>vo_prefix = '''', vo_task_ttl = 0, vo_dedupe_ttl = 100, vo_route_ttl = 0\<rparr>"

theorem exactly_once_second_delivery_witness:
  "fst (fst (deliver (mem_view_ops 5) failing_dispatcher (sample_dispatch exactly_once) (sample_view, 0))) =
     Some (CallFailed ''refused'') \<and>
   (\<exists>r. fst (deliver (mem_view_ops 50) failing_dispatcher (sample_dispatch exactly_once)
      (snd (deliver (mem_view_ops 5) failing_dispatcher (sample_dispatch exactly_once) (sample_view, 0)))) =
      (None, Some r) \<and> ds_accepted r \<and> ds_duplicate r)"
proof
  let ?d = "failing_dispatcher" and ?q = "sample_dispatch exactly_once"
  let ?o = "deliver (mem_view_ops 5) ?d ?q (sample_view, 0)"
  show "fst (fst ?o) = Some (CallFailed ''refused'')" by code_simp
  have m: "dr_message ?q = Some sample_message" "dr_semantics ?q = exactly_once" "dr_queue ?q \<noteq> ''''"
    by (simp_all add: sample_dispatch_def)
  have c: "fst (claim_dedupe 5 (dedupe_key ?q sample_message) sample_view)" by code_simp
  have w: "50 < 5 + vo_dedupe_ttl (mv_opts sample_view)" by code_simp
  have o: "?o = (fst ?o, (fst (snd ?o), snd (snd ?o)))" by simp
  show "\<exists>r. fst (deliver (mem_view_ops 50) ?d ?q (snd ?o)) = (None, Some r) \<and> ds_accepted r \<and> ds_duplicate r"
    using exactly_once_second_delivery [OF m(1,2,3) c o m refl w, of ?d] by auto
qed

text \<open>
  How a failed call is reported: with at-most-once semantics there is no error, the
  result is not accepted and not retryable; with the other semantics the error is returned
  together with a result that is retryable. In every case the channel was called exactly
  once, with the envelope of the resolved target, and the asynchronous view is untouched.
\<close>

theorem failed_call_reporting:
  assumes "dr_message req = Some m" and "dr_queue req \<noteq> ''''" and "dr_semantics req = sem" and "sem \<noteq> ''''"
    and "sem \<noteq> exactly_once" and "resolve_target d req m = Some target" and "dr_delivery req = dl" and "dl \<noteq> ''''"
    and "build_envelope d (dr_queue req) dl req m target = Inr env"
    and "di_call d (dr_queue req) env w = (Inl e, w')"
  shows "deliver V d req (v, w) =
    ((if sem = at_most_once then None else Some (CallFailed e),
      Some \<lparr>ds_task_id = tm_task_id m, ds_target = nd_id target, ds_accepted = False, ds_duplicate = False,
        ds_retryable = (sem \<noteq> at_most_once), ds_message = e, ds_result = None\<rparr>), (v, w'))"
  using assms by (simp add: deliver_def send_to_target_def Let_def)

theorem failed_call_reporting_witness:
  "fst (deliver (mem_view_ops 5) failing_dispatcher (sample_dispatch at_most_once) (sample_view, 0)) =
    (None, Some \<lparr>ds_task_id = 7, ds_target = ''w1'', ds_accepted = False, ds_duplicate = False,
        ds_retryable = False, ds_message = ''refused'', ds_result = None\<rparr>)"
proof -
  let ?q = "sample_dispatch at_most_once" and ?d = failing_dispatcher
  have t: "resolve_target ?d ?q sample_message = Some (zero_node\<lparr>nd_id := ''w1''\<rparr>)" by code_simp
  have e: "\<exists>env. build_envelope ?d (dr_queue ?q) delivery_redis_queue ?q sample_message (zero_node\<lparr>nd_id := ''w1''\<rparr>) = Inr env"
    by (simp add: build_envelope_def failing_dispatcher_def)
  then obtain env where e: "build_envelope ?d (dr_queue ?q) delivery_redis_queue ?q sample_message
      (zero_node\<lparr>nd_id := ''w1''\<rparr>) = Inr env" by blast
  have c: "di_call ?d (dr_queue ?q) env 0 = (Inl ''refused'', 1)" by (simp add: failing_dispatcher_def)
  show ?thesis
    using failed_call_reporting [OF _ _ refl _ _ t refl _ _ c, of "mem_view_ops 5" sample_view] e
    by (simp add: sample_dispatch_def at_most_once_def exactly_once_def delivery_redis_queue_def
        sample_message_def zero_node_def)
qed

end
