(* ===== verification/Scheduler.thy ===== *)
theory Scheduler
  imports Collector Dispatch "HOL-Library.Sublist"
begin

text \<open>
  One scheduling cycle (\<open>internal/runtime/scheduler/cycle.go\<close>): promote, claim, and deliver
  the claimed tasks one by one; and one reconciliation round
  (\<open>internal/runtime/reconcile/reconcile.go\<close>). The ledger is used through its operations,
  the dispatcher through \<open>Deliver\<close>. \<open>cancelled i\<close> says whether the context has ended when
  the \<open>i\<close>-th claimed task is taken, \<open>clk i\<close> is the clock then.
\<close>

section \<open>The cycle\<close>

record 's cycle_ledger =
  cl_promote :: "int \<Rightarrow> 's \<Rightarrow> (db_error + int) \<times> 's"
  cl_claim :: "int \<Rightarrow> 's \<Rightarrow> (db_error + claimable list) \<times> 's"
  cl_payload :: "int \<Rightarrow> 's \<Rightarrow> db_error + json"
  cl_dead_letter :: "int \<Rightarrow> 's \<Rightarrow> (db_error + bool) \<times> 's"

type_synonym 'w deliverer =
  "dispatch_request \<Rightarrow> 'w \<Rightarrow> (dispatch_error option \<times> dispatch_result option) \<times> 'w"

record cycle =
  cy_node :: string
  cy_promote_limit :: int
  cy_claim_batch :: int
  cy_default_delivery :: string
  cy_default_semantics :: string
  cy_caps :: "string \<Rightarrow> capabilities option"

definition new_cycle ::
  "string \<Rightarrow> int \<Rightarrow> int \<Rightarrow> string \<Rightarrow> string \<Rightarrow> (string \<Rightarrow> capabilities option) \<Rightarrow> cycle" where
  "new_cycle nid prom batch dl sem caps =
     (let p1 = (if prom \<le> 0 then batch else prom); p2 = (if p1 \<le> 0 then 500 else p1);
          c = (if batch \<le> 0 then 500 else batch)
      in \<lparr>cy_node = nid, cy_promote_limit = p2, cy_claim_batch = c, cy_default_delivery = dl,
          cy_default_semantics = sem, cy_caps = caps\<rparr>)"

record cycle_result =
  cy_promoted :: int
  cy_claimed :: int
  cy_dispatched :: int
  cy_skipped :: int

definition no_result :: cycle_result where
  "no_result = \<lparr>cy_promoted = 0, cy_claimed = 0, cy_dispatched = 0, cy_skipped = 0\<rparr>"

datatype cycle_error = CycleLedger db_error | CycleCancelled

text \<open>\<open>time.Duration(timeout) * time.Millisecond\<close> is a 64-bit product of nanoseconds.\<close>

definition cycle_message :: "cycle \<Rightarrow> gotime \<Rightarrow> claimable \<Rightarrow> json \<Rightarrow> task_message" where
  "cycle_message c now p payload =
     (let timeout = (if timeout_ms p \<le> 0 then 60000 else timeout_ms p) in
      \<lparr>tm_task_id = task_id p, tm_attempt = attempts p, tm_type = task_type p,
       tm_operator = operator p, tm_payload = JsonContent payload, tm_priority = priority p,
       tm_deadline_ms = unix_milli (now + to_int64 (timeout * 10 ^ 6)), tm_timeout_ms = timeout,
       tm_trace = [], tm_channel = task_channel p, tm_vpc = vpc p, tm_node = node p,
       tm_label = label p, tm_hash_bucket = hash_bucket p,
       tm_idempotency_key = idempotency_key p, tm_origin_node = cy_node c, tm_visited = [],
       tm_created_ms = unix_milli (created_at p)\<rparr>)"

definition cycle_route :: "cycle \<Rightarrow> string \<Rightarrow> string \<times> string" where
  "cycle_route c ch =
     ((case cy_caps c ch of
         None \<Rightarrow> cy_default_delivery c
       | Some k \<Rightarrow>
           if cap_request_reply k then delivery_sync_rpc
           else if cap_subscribe k then delivery_redis_queue
           else cy_default_delivery c),
      (if cy_default_semantics c = '''' then at_least_once else cy_default_semantics c))"

definition cycle_request :: "cycle \<Rightarrow> gotime \<Rightarrow> claimable \<Rightarrow> json \<Rightarrow> dispatch_request" where
  "cycle_request c now p payload =
     (let (dl, sem) = cycle_route c (task_channel p) in
      \<lparr>dr_queue = task_channel p, dr_message = Some (cycle_message c now p payload),
       dr_delivery = dl, dr_semantics = sem, dr_target = zero_node, dr_dedupe_key = '''',
       dr_correlation = claimed_node p\<rparr>)"

text \<open>What counts as dispatched: no error, a result, and accepted.\<close>

definition delivery_accepted :: "dispatch_error option \<times> dispatch_result option \<Rightarrow> bool" where
  "delivery_accepted o' =
     (case o' of
        (None, Some r) \<Rightarrow> ds_accepted r
      | _ \<Rightarrow> False)"

fun cycle_rows ::
  "cycle \<Rightarrow> 's cycle_ledger \<Rightarrow> 'w deliverer \<Rightarrow> (nat \<Rightarrow> bool) \<Rightarrow> (nat \<Rightarrow> gotime) \<Rightarrow> nat
     \<Rightarrow> claimable list \<Rightarrow> cycle_result \<Rightarrow> 's \<times> 'w \<Rightarrow> (cycle_error option \<times> cycle_result) \<times> ('s \<times> 'w)"
where
  "cycle_rows c L dl cancelled clk i [] res st = ((None, res), st)"
| "cycle_rows c L dl cancelled clk i (p # ps) res (s, w) =
     (if cancelled i then ((Some CycleCancelled, res), (s, w))
      else if attempts p > max_attempts p then
        cycle_rows c L dl cancelled clk (Suc i) ps (res\<lparr>cy_skipped := cy_skipped res + 1\<rparr>)
          (snd (cl_dead_letter L (task_id p) s), w)
      else case cl_payload L (task_id p) s of
          Inl _ \<Rightarrow>
            cycle_rows c L dl cancelled clk (Suc i) ps (res\<lparr>cy_skipped := cy_skipped res + 1\<rparr>) (s, w)
        | Inr payload \<Rightarrow>
            (let (out, w') = dl (cycle_request c (clk i) p payload) w in
             cycle_rows c L dl cancelled clk (Suc i) ps
               (if delivery_accepted out then res\<lparr>cy_dispatched := cy_dispatched res + 1\<rparr>
                else res\<lparr>cy_skipped := cy_skipped res + 1\<rparr>) (s, w')))"

definition run_cycle ::
  "cycle \<Rightarrow> 's cycle_ledger \<Rightarrow> 'w deliverer \<Rightarrow> (nat \<Rightarrow> bool) \<Rightarrow> (nat \<Rightarrow> gotime) \<Rightarrow> 's \<times> 'w
     \<Rightarrow> (cycle_error option \<times> cycle_result) \<times> ('s \<times> 'w)" where
  "run_cycle c L dl cancelled clk st =
     (let (s, w) = st in
      case cl_promote L (cy_promote_limit c) s of
        (Inl e, s1) \<Rightarrow> ((Some (CycleLedger e), no_result), (s1, w))
      | (Inr n, s1) \<Rightarrow>
          (let res = no_result\<lparr>cy_promoted := n\<rparr> in
           case cl_claim L (cy_claim_batch c) s1 of
             (Inl e, s2) \<Rightarrow> ((Some (CycleLedger e), res), (s2, w))
           | (Inr rows, s2) \<Rightarrow>
               cycle_rows c L dl cancelled clk 0 rows (res\<lparr>cy_claimed := int (length rows)\<rparr>) (s2, w)))"

section \<open>Reconciliation\<close>

record reconciler =
  rc_interval :: int
  rc_grace :: int
  rc_skew :: int
  rc_limit :: int
  rc_prefix :: string
  rc_every :: int
  rc_orphan_age :: int
  rc_probe_tick :: int

text \<open>The defaults of \<open>New\<close>, in nanoseconds.\<close>

definition new_reconciler ::
  "int \<Rightarrow> int \<Rightarrow> int \<Rightarrow> int \<Rightarrow> string \<Rightarrow> int \<Rightarrow> int \<Rightarrow> int \<Rightarrow> reconciler" where
  "new_reconciler interval grace skew limit pre every age tick =
     (let g = (if grace \<le> 0 then 90 * 10 ^ 9 else grace); k = (if skew < 0 then 0 else skew) in
      \<lparr>rc_interval = (if interval \<le> 0 then 10 * 10 ^ 9 else interval), rc_grace = g, rc_skew = k,
       rc_limit = (if limit \<le> 0 then 500 else limit), rc_prefix = pre,
       rc_every = (if every \<le> 0 then 30 else every),
       rc_orphan_age = (if age \<le> 0 then 2 * (g + k) else age),
       rc_probe_tick = (if tick \<le> 0 then 2 * 10 ^ 9 else tick)\<rparr>)"

definition reset_deadline :: "reconciler \<Rightarrow> gotime \<Rightarrow> gotime" where
  "reset_deadline r now = now - (rc_grace r + rc_skew r)"

text \<open>
  \<open>RunOnce\<close>: the round counter is the reconciler's only state. The optional view is its
  purge, the optional orphan scanner its query; both only feed metrics, whose labels are
  returned with their counts.
\<close>

definition scan_orphans ::
  "reconciler \<Rightarrow> (gotime \<Rightarrow> int \<Rightarrow> db_error + string list) option \<Rightarrow> gotime \<Rightarrow> (string \<times> int) list" where
  "scan_orphans r orphans now =
     (case orphans of None \<Rightarrow> []
      | Some f \<Rightarrow>
          (case f (now - rc_orphan_age r) (rc_limit r) of
             Inl _ \<Rightarrow> [(''orphan_error'', 1)]
           | Inr ids \<Rightarrow> if ids = [] then [] else [(''factory_orphan'', int (length ids))]))"

definition reconcile_once ::
  "reconciler \<Rightarrow> (gotime \<Rightarrow> int \<Rightarrow> 's \<Rightarrow> (db_error + int) \<times> 's) \<Rightarrow> (string \<Rightarrow> 'v \<Rightarrow> 'v) option
     \<Rightarrow> ('s \<Rightarrow> gotime \<Rightarrow> int \<Rightarrow> db_error + string list) option \<Rightarrow> gotime \<Rightarrow> int \<times> 's \<times> 'v
     \<Rightarrow> ((db_error + int) \<times> (string \<times> int) list) \<times> (int \<times> 's \<times> 'v)" where
  "reconcile_once r reset view_purge orphans now st =
     (let (rounds, s, v) = st in
      case reset (reset_deadline r now) (rc_limit r) s of
        (Inl e, s1) \<Rightarrow> ((Inl e, [(''r1_error'', 1)]), (rounds, s1, v))
      | (Inr n, s1) \<Rightarrow>
          (let m1 = (if n > 0 then [(''r1_timeout'', n)] else []);
               rounds1 = rounds + 1;
               v1 = (case view_purge of None \<Rightarrow> v
                     | Some f \<Rightarrow> if rc_prefix r \<noteq> '''' \<and> rounds1 mod rc_every r = 0 then f (rc_prefix r) v else v)
           in ((Inr n, m1 @ scan_orphans r (map_option (\<lambda>f. f s1) orphans) now), (rounds1, s1, v1))))"


section \<open>Properties of the cycle\<close>

lemma cycle_rows_counts:
  "cycle_rows c L dl cancelled clk i rows res st = ((e, res'), st') \<Longrightarrow>
   cy_dispatched res \<le> cy_dispatched res' \<and> cy_skipped res \<le> cy_skipped res' \<and>
   cy_claimed res' = cy_claimed res \<and>
   (if e = None then cy_dispatched res' + cy_skipped res' = cy_dispatched res + cy_skipped res + int (length rows)
    else cy_dispatched res' + cy_skipped res' \<le> cy_dispatched res + cy_skipped res + int (length rows))"
proof (induction c L dl cancelled clk i rows res st rule: cycle_rows.induct)
  case (2 c L dl cancelled clk i p ps res s w)
  show ?case
  proof (cases "cancelled i")
    case True
    then show ?thesis using "2.prems" by auto
  next
    case nc: False
    show ?thesis
    proof (cases "attempts p > max_attempts p")
      case True
      then show ?thesis using "2.IH"(1) [OF nc True] "2.prems" nc by (auto split: if_splits)
    next
      case na: False
      show ?thesis
      proof (cases "cl_payload L (task_id p) s")
        case (Inl x)
        then show ?thesis using "2.IH"(2) [OF nc na Inl] "2.prems" nc na by (auto split: if_splits)
      next
        case (Inr payload)
        obtain out w' where o: "dl (cycle_request c (clk i) p payload) w = (out, w')" by fastforce
        show ?thesis
          using "2.IH"(3) [OF nc na Inr refl o [symmetric]] "2.prems" nc na Inr o
          by (auto split: if_splits)
      qed
    qed
  qed
qed simp


lemma cycle_rows_promoted:
  "cycle_rows c L dl cancelled clk i rows res st = ((e, res'), st') \<Longrightarrow> cy_promoted res' = cy_promoted res"
proof (induction rows arbitrary: i res st)
  case (Cons p ps)
  obtain s w where st: "st = (s, w)" by fastforce
  show ?case
    using Cons.prems Cons.IH by (fastforce simp: st split: if_splits sum.splits prod.splits)
qed simp

text \<open>The deliveries of a cycle, recorded in order.\<close>

definition logged :: "'w deliverer \<Rightarrow> ('w \<times> dispatch_request list) deliverer" where
  "logged dl req st =
     (let (w, log) = st; (out, w') = dl req w in (out, (w', log @ [req])))"

definition request_attempt :: "dispatch_request \<Rightarrow> int \<times> int" where
  "request_attempt q =
     (case dr_message q of None \<Rightarrow> (0, 0) | Some m \<Rightarrow> (tm_task_id m, tm_attempt m))"

lemma request_attempt_cycle [simp]:
  "request_attempt (cycle_request c now p payload) = (task_id p, attempts p)"
  by (simp add: request_attempt_def cycle_request_def cycle_message_def Let_def split: prod.split)

lemma cycle_rows_log:
  "cycle_rows c L (logged dl) cancelled clk i rows res (s, (w, log)) = (out, (s', (w', log'))) \<Longrightarrow>
   \<exists>reqs. log' = log @ reqs \<and>
     subseq (map request_attempt reqs)
       (map (\<lambda>p. (task_id p, attempts p)) (filter (\<lambda>p. attempts p \<le> max_attempts p) rows))"
proof (induction rows arbitrary: i res s w log)
  case (Cons p ps)
  show ?case
  proof (cases "cancelled i")
    case True
    then show ?thesis using Cons.prems by (intro exI [of _ "[]"]) simp
  next
    case nc: False
    show ?thesis
    proof (cases "attempts p > max_attempts p")
      case True
      then show ?thesis using Cons.IH Cons.prems nc by auto
    next
      case na: False
      show ?thesis
      proof (cases "cl_payload L (task_id p) s")
        case (Inl x)
        then show ?thesis using Cons.IH Cons.prems nc na by (fastforce intro: subseq_Cons')
      next
        case (Inr payload)
        obtain out w1 where o: "dl (cycle_request c (clk i) p payload) w = (out, w1)" by fastforce
        have "\<exists>reqs. log' = (log @ [cycle_request c (clk i) p payload]) @ reqs \<and>
            subseq (map request_attempt reqs)
              (map (\<lambda>p. (task_id p, attempts p)) (filter (\<lambda>p. attempts p \<le> max_attempts p) ps))"
          using Cons.prems nc na Inr o by (intro Cons.IH) (auto simp: logged_def split: if_splits)
        then obtain reqs where r: "log' = log @ (cycle_request c (clk i) p payload # reqs)"
          "subseq (map request_attempt reqs)
              (map (\<lambda>p. (task_id p, attempts p)) (filter (\<lambda>p. attempts p \<le> max_attempts p) ps))"
          by auto
        then show ?thesis using na by (intro exI [of _ "cycle_request c (clk i) p payload # reqs"]) auto
      qed
    qed
  qed
qed simp

section \<open>The cycle on the task ledger\<close>

text \<open>\<open>nid t\<close> is the identifier generated for the callback of task \<open>t\<close>.\<close>

definition cycle_task_ledger ::
  "tx_env \<Rightarrow> gotime \<Rightarrow> (int \<Rightarrow> bool) \<Rightarrow> (int \<Rightarrow> int) \<Rightarrow> ledger cycle_ledger" where
  "cycle_task_ledger tx now lk nid = \<lparr>cl_promote = promote tx lk, cl_claim = claim tx now lk,
     cl_payload = get_payload, cl_dead_letter = (\<lambda>t. dead_letter tx now (nid t) t)\<rparr>"

lemma cycle_task_ledger_simps [simp]:
  "cl_promote (cycle_task_ledger tx now lk nid) = promote tx lk"
  "cl_claim (cycle_task_ledger tx now lk nid) = claim tx now lk"
  "cl_payload (cycle_task_ledger tx now lk nid) = get_payload"
  "cl_dead_letter (cycle_task_ledger tx now lk nid) = (\<lambda>t. dead_letter tx now (nid t) t)"
  by (simp_all add: cycle_task_ledger_def)

lemma dead_letter_effect:
  shows "t' \<noteq> t \<Longrightarrow> get_processing t' (snd (dead_letter tx now nid t s)) = get_processing t' s"
    and "snd (dead_letter tx now nid t s) = s \<or> t \<in> done_ids (snd (dead_letter tx now nid t s))"
proof -
  obtain b s' where d: "dead_letter tx now nid t s = (b, s')" by fastforce
  have "(\<forall>t'. t' \<noteq> t \<longrightarrow> get_processing t' s' = get_processing t' s) \<and> (s' = s \<or> t \<in> done_ids s')"
  proof (cases "b = Inr True")
    case False
    then show ?thesis using complete_ops(3) [of tx now nid t s] d by simp
  next
    case True
    then have m: "terminal_move nid t 0 OutcomeDead None '''' now False s = Inr ((), s')"
      using dead_letter_ok d by blast
    then obtain p where p: "table_find task_id t (processings s) = Some p"
      and dc: "derive_callback nid p OutcomeDead now (moved_terminal p OutcomeDead None '''' now s) = Inr s'"
      by (auto simp: ledger_simps)
    have "processings s' = table_delete task_id [t] (processings s)"
      using derive_callback_effect [OF dc] table_find_SomeD [OF p]
      by (auto simp: adds_identity_def adds_pending_def moved_terminal_def)
    then show ?thesis
      using terminal_move_done_ids [OF m] by (simp add: get_processing_def table_find_delete)
  qed
  then show "t' \<noteq> t \<Longrightarrow> get_processing t' (snd (dead_letter tx now nid t s)) = get_processing t' s"
    and "snd (dead_letter tx now nid t s) = s \<or> t \<in> done_ids (snd (dead_letter tx now nid t s))"
    using d by auto
qed

lemma dead_letter_done:
  "t' \<in> done_ids s \<Longrightarrow> t' \<in> done_ids (snd (dead_letter tx now nid t s))"
  using extends_done [OF extends_step [OF step_dead_letter]] by blast

text \<open>A row in processing survives the cycle, unless the cycle dead-letters it.\<close>

lemma cycle_rows_ledger:
  "cycle_rows c (cycle_task_ledger tx now lk nid) dl cancelled clk i rows res (s, w) = (out, (s', w')) \<Longrightarrow>
   get_processing t s = Inr r \<or> t \<in> done_ids s \<Longrightarrow>
   (get_processing t s = Inr r \<longrightarrow> get_processing t s' = Inr r \<or>
      t \<in> done_ids s' \<and> (\<exists>p\<in>set rows. task_id p = t \<and> max_attempts p < attempts p)) \<and>
   (t \<in> done_ids s \<longrightarrow> t \<in> done_ids s')"
proof (induction rows arbitrary: i res s w)
  case (Cons p ps)
  show ?case
  proof (cases "cancelled i")
    case True
    then show ?thesis using Cons.prems by simp
  next
    case nc: False
    show ?thesis
    proof (cases "attempts p > max_attempts p")
      case True
      let ?s = "snd (dead_letter tx now (nid (task_id p)) (task_id p) s)"
      have rec: "cycle_rows c (cycle_task_ledger tx now lk nid) dl cancelled clk (Suc i) ps
          (res\<lparr>cy_skipped := cy_skipped res + 1\<rparr>) (?s, w) = (out, (s', w'))"
        using Cons.prems(1) nc True by (simp add: cycle_task_ledger_def)
      have "get_processing t ?s = Inr r \<or> t \<in> done_ids ?s"
        using Cons.prems(2) dead_letter_effect(1) [of t "task_id p" tx now "nid (task_id p)" s]
          dead_letter_effect(2) [of tx now "nid (task_id p)" "task_id p" s] dead_letter_done
        by (cases "t = task_id p") auto
      note ih = Cons.IH [OF rec this]
      have eff: "t \<noteq> task_id p \<Longrightarrow> get_processing t ?s = get_processing t s"
        "?s = s \<or> task_id p \<in> done_ids ?s" "t \<in> done_ids s \<Longrightarrow> t \<in> done_ids ?s"
        using dead_letter_effect dead_letter_done by blast+
      show ?thesis
      proof (cases "t = task_id p")
        case tp: True
        then show ?thesis using ih eff True by (metis list.set_intros(1) list.set_intros(2))
      next
        case False
        then show ?thesis using ih eff by auto
      qed
    next
      case na: False
      have "\<exists>res' i' w1. cycle_rows c (cycle_task_ledger tx now lk nid) dl cancelled clk i' ps res' (s, w1) =
          (out, (s', w'))"
      proof (cases "get_payload (task_id p) s")
        case (Inl x)
        then show ?thesis using Cons.prems(1) nc na by auto
      next
        case (Inr payload)
        then show ?thesis using Cons.prems(1) nc na
          by (cases "dl (cycle_request c (clk i) p payload) w") auto
      qed
      then show ?thesis using Cons.IH Cons.prems(2) by fastforce
    qed
  qed
qed simp



definition accept_all :: "nat deliverer" where
  "accept_all req n = ((None, Some \<lparr>ds_task_id = 0, ds_target = '''', ds_accepted = True, ds_duplicate = False,
     ds_retryable = True, ds_message = '''', ds_result = None\<rparr>), Suc n)"

definition sample_cycle :: cycle where
  "sample_cycle = new_cycle ''s'' 10 10 '''' '''' (\<lambda>_. None)"


text \<open>
  A cycle delivers each claimed task at most once, in claim order, at its claimed
  attempt, and never a task whose attempts exceed its limit: the deliveries are a
  subsequence of the claimed rows within the limit.
\<close>

theorem cycle_deliveries:
  assumes "cycle_rows c L (logged dl) cancelled clk i rows res (s, (w, [])) = (out, (s', (w', log)))"
  shows "subseq (map request_attempt log)
    (map (\<lambda>p. (task_id p, attempts p)) (filter (\<lambda>p. attempts p \<le> max_attempts p) rows))"
  using cycle_rows_log [OF assms] by auto

theorem cycle_deliveries_witness:
  "map request_attempt (snd (snd (snd (cycle_rows sample_cycle (cycle_task_ledger tx_fine 20 no_locks (\<lambda>t. t))
      (logged accept_all) (\<lambda>_. False) (\<lambda>_. 20) 0 [sample_claimed_row 1 20, sample_claimed_row 9 20] no_result
      (sample_claimed None, (0, [])))))) = [(1, 1)] \<and>
   subseq [(1, 1)] (map (\<lambda>p. (task_id p, attempts p))
     (filter (\<lambda>p. attempts p \<le> max_attempts p) [sample_claimed_row 1 20, sample_claimed_row 9 20]))"
proof -
  let ?o = "cycle_rows sample_cycle (cycle_task_ledger tx_fine 20 no_locks (\<lambda>t. t))
      (logged accept_all) (\<lambda>_. False) (\<lambda>_. 20) 0 [sample_claimed_row 1 20, sample_claimed_row 9 20] no_result
      (sample_claimed None, (0, []))"
  have l: "map request_attempt (snd (snd (snd ?o))) = [(1, 1)]" by code_simp
  have o: "?o = (fst ?o, (fst (snd ?o), (fst (snd (snd ?o)), snd (snd (snd ?o)))))" by simp
  show ?thesis using cycle_deliveries [OF o] l by simp
qed


section \<open>Reconciliation on the task ledger\<close>

definition expired :: "(int \<Rightarrow> bool) \<Rightarrow> gotime \<Rightarrow> claimable \<Rightarrow> bool" where
  "expired lk deadline p \<longleftrightarrow> updated_at p < deadline \<and> \<not> lk (task_id p)"

lemma reset_pick_expired: "reset_pick lk deadline limit s =
    take (nat limit) (sort_key updated_at (filter (expired lk deadline) (processings s)))"
  by (simp add: reset_pick_def expired_def [abs_def])

lemma reset_expired_fine:
  assumes "ledger_ok s" and "0 < limit"
  shows "reset_expired tx_fine lk deadline limit s =
    (Inr (int (length (reset_pick lk deadline limit s))),
     s\<lparr>schedulables := schedulables s @ reset_pick lk deadline limit s,
       processings := table_delete task_id (map task_id (reset_pick lk deadline limit s)) (processings s)\<rparr>)"
proof -
  let ?rows = "reset_pick lk deadline limit s"
  have "\<forall>p\<in>set ?rows. valid_channel (task_channel p) \<and> claimable_check p"
    using pick_sub(3) assms(1) by (fastforce simp: ok_defs)
  moreover have "set (map task_id ?rows) \<inter> table_ids task_id (schedulables s) = {}"
    using ids_of_rows [OF pick_sub(3), of task_id lk deadline limit s] assms(1)
    unfolding ledger_ok_def stages_disjoint_def ids_defs by blast
  ultimately have "reset_body lk deadline limit s =
      Inr (int (length ?rows), s\<lparr>schedulables := schedulables s @ ?rows,
        processings := table_delete task_id (map task_id ?rows) (processings s)\<rparr>)"
    using pick_distinct(3) [OF assms(1)] by (simp add: reset_body_Inr Let_def)
  then show ?thesis using assms(2) by (simp add: reset_expired_def)
qed

text \<open>
  A reconciliation round on the task ledger succeeds and resets exactly the processing
  rows not renewed for longer than grace plus skew, up to its limit: it reports how many it
  moved, a row that is not expired (or is locked) stays in processing, every row of the
  processing stage is afterwards in processing or, unchanged with its attempt, in the
  schedulable stage, and if the limit suffices no expired row is left.
\<close>

theorem reconcile_resets_expired:
  assumes "ledger_run empty_ledger s" and "0 < rc_limit r"
    and "dl = now - (rc_grace r + rc_skew r)"
    and "reconcile_once r (reset_expired tx_fine lk) vp orphans now (k, s, v) = ((x, m), (k', s', v'))"
  shows "x = Inr (int (min (nat (rc_limit r)) (length (filter (expired lk dl) (processings s))))) \<and>
    (\<forall>p\<in>set (processings s). p \<in> set (processings s') \<or> (p \<in> set (schedulables s') \<and> expired lk dl p)) \<and>
    (int (length (filter (expired lk dl) (processings s))) \<le> rc_limit r \<longrightarrow>
       (\<forall>p\<in>set (processings s'). \<not> expired lk dl p))"
proof -
  have ok: "ledger_ok s" using assms(1) ledger_ok_run ledger_ok_empty by blast
  let ?rows = "reset_pick lk dl (rc_limit r) s"
  have f: "reset_expired tx_fine lk (reset_deadline r now) (rc_limit r) s =
    (Inr (int (length ?rows)), s\<lparr>schedulables := schedulables s @ ?rows,
       processings := table_delete task_id (map task_id ?rows) (processings s)\<rparr>)"
    using reset_expired_fine [OF ok assms(2)] by (simp add: reset_deadline_def assms(3))
  have x: "x = Inr (int (length ?rows))" and s': "set (schedulables s') = set (schedulables s) \<union> set ?rows"
    "processings s' = table_delete task_id (map task_id ?rows) (processings s)"
    using assms(4) by (auto simp: reconcile_once_def f Let_def)
  have rows: "set ?rows \<subseteq> {p \<in> set (processings s). expired lk dl p}"
    using reset_pick_set by (auto simp: expired_def)
  have d: "distinct (map task_id (processings s))" using ok by (simp add: ok_defs)
  have stays: "p \<in> set (processings s') \<or> (p \<in> set (schedulables s') \<and> expired lk dl p)"
    if "p \<in> set (processings s)" for p
    using row_stays_or_picked [OF d pick_sub(3) that, of lk dl "rc_limit r"] subsetD [OF rows, of p] s' by auto
  have gone: "\<not> expired lk dl p"
    if "int (length (filter (expired lk dl) (processings s))) \<le> rc_limit r" "p \<in> set (processings s')" for p
  proof
    assume "expired lk dl p"
    then have "p \<in> set (filter (expired lk dl) (processings s))"
      using that(2) s'(2) by (simp add: set_delete_iff)
    moreover have "set ?rows = set (filter (expired lk dl) (processings s))"
      using that(1) by (simp add: reset_pick_expired)
    ultimately show False using that(2) s'(2) by (auto simp: set_delete_iff)
  qed
  have len: "length ?rows = min (nat (rc_limit r)) (length (filter (expired lk dl) (processings s)))"
    by (simp add: reset_pick_expired min.commute)
  show ?thesis
  proof (intro conjI impI ballI)
    show "x = Inr (int (min (nat (rc_limit r)) (length (filter (expired lk dl) (processings s)))))"
      by (simp only: x len)
  qed (use stays gone in blast)+
qed

theorem reconcile_resets_expired_witness:
  "fst (fst (reconcile_once (new_reconciler 0 5 1 10 '''' 0 0 0) (reset_expired tx_fine no_locks)
     None None 30 (0, sample_claimed None, 0 :: nat))) = Inr 1"
proof -
  let ?r = "new_reconciler 0 5 1 10 '''' 0 0 0"
  let ?o = "reconcile_once ?r (reset_expired tx_fine no_locks) None None 30 (0, sample_claimed None, 0 :: nat)"
  have l: "0 < rc_limit ?r" by code_simp
  have o: "?o = ((fst (fst ?o), snd (fst ?o)), (fst (snd ?o), fst (snd (snd ?o)), snd (snd (snd ?o))))" by simp
  have n: "min (nat (rc_limit ?r))
      (length (filter (expired no_locks (30 - (rc_grace ?r + rc_skew ?r))) (processings (sample_claimed None)))) = 1"
    by code_simp
  show ?thesis
    using reconcile_resets_expired [OF sample_reachable(2) l refl o] n by simp
qed

end
