(* ===== verification/GoBinary.thy ===== *)
theory GoBinary
  imports Prelude "HOL-Library.Word"
begin

text \<open>
  The part of Go's \<open>encoding/binary\<close> the program uses: variable-length integers. Bytes are
  8-bit words; an unsigned value below \<open>2 ^ 64\<close> is a \<open>nat\<close>.
\<close>

type_synonym byte = "8 word"

text \<open>\<open>AppendUvarint\<close>: seven bits per byte, low bits first, the high bit marks more.\<close>

fun uvarint :: "nat \<Rightarrow> byte list" where
  "uvarint x =
     (if x < 128 then [word_of_nat x] else word_of_nat (x mod 128 + 128) # uvarint (x div 128))"

declare uvarint.simps [simp del]

text \<open>
  \<open>ReadUvarint\<close>: at most ten bytes; the tenth may only be 0 or 1. The result is the value
  and the rest of the input, or an error (end of input, overflow).
\<close>

fun read_uvarint_at :: "nat \<Rightarrow> nat \<Rightarrow> byte list \<Rightarrow> (nat \<times> byte list) option" where
  "read_uvarint_at i acc [] = None"
| "read_uvarint_at i acc (b # bs) =
     (if i \<ge> 10 then None
      else if unat b < 128 then
        (if i = 9 \<and> unat b > 1 then None else Some (acc + unat b * 2 ^ (7 * i), bs))
      else read_uvarint_at (Suc i) (acc + (unat b - 128) * 2 ^ (7 * i)) bs)"

definition read_uvarint :: "byte list \<Rightarrow> (nat \<times> byte list) option" where
  "read_uvarint bs = read_uvarint_at 0 0 bs"

text \<open>\<open>AppendVarint\<close> and \<open>ReadVarint\<close>: zigzag coding of a 64-bit integer.\<close>

definition zigzag :: "int \<Rightarrow> nat" where
  "zigzag n = (if n < 0 then nat (- 2 * n - 1) else nat (2 * n))"

definition unzigzag :: "nat \<Rightarrow> int" where
  "unzigzag u = (if u mod 2 = 1 then - int (u div 2) - 1 else int (u div 2))"

definition varint :: "int \<Rightarrow> byte list" where
  "varint n = uvarint (zigzag n)"

definition read_varint :: "byte list \<Rightarrow> (int \<times> byte list) option" where
  "read_varint bs = map_option (\<lambda>(u, r). (unzigzag u, r)) (read_uvarint bs)"

lemma unat_byte: "n < 256 \<Longrightarrow> unat (word_of_nat n :: byte) = n"
  by (simp add: unat_of_nat)

lemma read_uvarint_at_uvarint:
  "i \<le> 9 \<Longrightarrow> x < 2 ^ (64 - 7 * i) \<Longrightarrow>
   read_uvarint_at i acc (uvarint x @ rest) = Some (acc + x * 2 ^ (7 * i), rest)"
proof (induction x arbitrary: i acc rule: uvarint.induct)
  case (1 x)
  show ?case
  proof (cases "x < 128")
    case True
    then show ?thesis using "1.prems" by (auto simp: uvarint.simps [of x] unat_byte)
  next
    case False
    have i: "i < 9" using "1.prems" False by (cases "i = 9") auto
    have m: "x mod 128 + 128 < 256" by simp
    have "x < 2 ^ (7 + (64 - 7 * Suc i))" using "1.prems"(2) i by (simp add: algebra_simps)
    then have d: "x div 128 < 2 ^ (64 - 7 * Suc i)"
      by (simp add: power_add less_mult_imp_div_less mult.commute)
    have "acc + x mod 128 * 2 ^ (7 * i) + x div 128 * 2 ^ (7 * Suc i) = acc + x * 2 ^ (7 * i)"
    proof -
      have e: "x div 128 * 2 ^ (7 * Suc i) = x div 128 * 128 * 2 ^ (7 * i)"
        by (simp add: power_add)
      have "x mod 128 * 2 ^ (7 * i) + x div 128 * 2 ^ (7 * Suc i) =
          (x mod 128 + x div 128 * 128) * 2 ^ (7 * i)"
        unfolding e by (rule add_mult_distrib [symmetric])
      then show ?thesis unfolding mod_div_mult_eq by linarith
    qed
    note tot = this
    have u: "uvarint x = word_of_nat (x mod 128 + 128) # uvarint (x div 128)"
      using False by (simp add: uvarint.simps [of x])
    have "read_uvarint_at i acc (uvarint x @ rest) =
        read_uvarint_at (Suc i) (acc + x mod 128 * 2 ^ (7 * i)) (uvarint (x div 128) @ rest)"
      unfolding u append_Cons read_uvarint_at.simps unat_byte [OF m] using i by (simp del: of_nat_add)
    also have "\<dots> = Some (acc + x mod 128 * 2 ^ (7 * i) + x div 128 * 2 ^ (7 * Suc i), rest)"
      using i by (intro "1.IH" [OF False _ d]) simp
    finally show ?thesis unfolding tot .
  qed
qed

lemma read_uvarint_uvarint: "x < 2 ^ 64 \<Longrightarrow> read_uvarint (uvarint x @ rest) = Some (x, rest)"
  using read_uvarint_at_uvarint [of 0 x 0 rest] by (simp add: read_uvarint_def)

lemma unzigzag_zigzag [simp]: "unzigzag (zigzag n) = n"
proof (cases "n < 0")
  case True
  define m where "m = nat (- n - 1)"
  then have n: "n = - int m - 1" using True by simp
  have "zigzag n = Suc (2 * m)" unfolding n by (simp add: zigzag_def nat_add_distrib nat_mult_distrib)
  then show ?thesis by (simp add: n unzigzag_def)
next
  case False
  then show ?thesis by (simp add: zigzag_def unzigzag_def nat_mult_distrib)
qed

lemma zigzag_bound: "in_int64 n \<Longrightarrow> zigzag n < 2 ^ 64"
  by (auto simp: in_int64_def zigzag_def)

lemma read_varint_varint: "in_int64 n \<Longrightarrow> read_varint (varint n @ rest) = Some (n, rest)"
  unfolding read_varint_def varint_def using read_uvarint_uvarint [OF zigzag_bound, of n rest]
  by simp

text \<open>Reading consumes input.\<close>

lemma read_uvarint_at_shorter:
  "read_uvarint_at i acc bs = Some (x, rest) \<Longrightarrow> length rest < length bs"
  by (induction i acc bs rule: read_uvarint_at.induct) (auto split: if_splits)

lemma read_uvarint_shorter: "read_uvarint bs = Some (x, rest) \<Longrightarrow> length rest < length bs"
  unfolding read_uvarint_def by (rule read_uvarint_at_shorter)

lemma read_varint_shorter: "read_varint bs = Some (x, rest) \<Longrightarrow> length rest < length bs"
  unfolding read_varint_def by (auto dest: read_uvarint_shorter)

text \<open>A number cut short is not read.\<close>

lemma read_uvarint_at_prefix:
  "n < length (uvarint x) \<Longrightarrow> read_uvarint_at i acc (take n (uvarint x)) = None"
proof (induction x arbitrary: n i acc rule: uvarint.induct)
  case (1 x)
  show ?case
  proof (cases "x < 128 \<or> n = 0")
    case True
    then show ?thesis using "1.prems" by (auto simp: uvarint.simps [of x])
  next
    case False
    have m: "x mod 128 + 128 < 256" by simp
    obtain n' where n: "n = Suc n'" using False by (cases n) auto
    have u: "uvarint x = word_of_nat (x mod 128 + 128) # uvarint (x div 128)"
      using False by (simp add: uvarint.simps [of x])
    have "n' < length (uvarint (x div 128))" using "1.prems" unfolding u n by simp
    then show ?thesis
      using "1.IH" False unfolding u n take_Suc_Cons read_uvarint_at.simps unat_byte [OF m]
      by (simp del: of_nat_add)
  qed
qed

lemma read_uvarint_prefix: "n < length (uvarint x) \<Longrightarrow> read_uvarint (take n (uvarint x)) = None"
  by (simp add: read_uvarint_def read_uvarint_at_prefix)

lemma read_varint_prefix: "n < length (varint x) \<Longrightarrow> read_varint (take n (varint x)) = None"
  by (simp add: read_varint_def varint_def read_uvarint_prefix)

end
