(* ===== verification/Wal.thy ===== *)
theory Wal
  imports Messages GoBinary "HOL-Library.AList"
begin

text \<open>
  The worker's write-ahead log of unpublished results (\<open>internal/worker/wal.go\<close>,
  \<open>internal/worker/wal_disk.go\<close>). \<open>MemWAL\<close> and the in-memory part of \<open>DiskWAL\<close> keep the same
  structure: a Go map from (task, attempt) to the event (an association list here), the
  insertion order and a byte count. The size of an event, \<open>proto.Size\<close>, is the argument \<open>sz\<close>.
\<close>

named_theorems wal_simps \<open>what the log's operations do to the pending events\<close>

section \<open>The in-memory log\<close>

type_synonym wal_key = "int \<times> int"

definition re_key :: "result_event \<Rightarrow> wal_key" where
  "re_key e = (re_task_id e, re_attempt e)"

record wal =
  wal_max :: int
  wal_max_bytes :: int
  wal_entries :: "(wal_key \<times> result_event) list"
  wal_order :: "wal_key list"
  wal_bytes :: int

definition default_wal_max :: int where
  "default_wal_max = 10000"

definition default_wal_max_bytes :: int where
  "default_wal_max_bytes = 256 * 2 ^ 20"

definition new_wal :: "int \<Rightarrow> wal" where
  "new_wal mx =
     \<lparr>wal_max = (if mx \<le> 0 then default_wal_max else mx), wal_max_bytes = default_wal_max_bytes,
      wal_entries = [], wal_order = [], wal_bytes = 0\<rparr>"

text \<open>The loop \<open>for len(w.order) > w.max\<close>: drop the oldest entries.\<close>

fun wal_trim ::
  "(result_event \<Rightarrow> int) \<Rightarrow> int \<Rightarrow> wal_key list \<Rightarrow> (wal_key \<times> result_event) list \<Rightarrow> int
     \<Rightarrow> wal_key list \<times> (wal_key \<times> result_event) list \<times> int" where
  "wal_trim sz mx [] es b = ([], es, b)"
| "wal_trim sz mx (k # ks) es b =
     (if int (length (k # ks)) > mx then
        (case map_of es k of
           Some old \<Rightarrow> wal_trim sz mx ks (AList.delete k es) (b - sz old)
         | None \<Rightarrow> wal_trim sz mx ks es b)
      else (k # ks, es, b))"

definition wal_put :: "(result_event \<Rightarrow> int) \<Rightarrow> result_event \<Rightarrow> wal \<Rightarrow> wal" where
  "wal_put sz ev w =
     (let k = re_key ev;
          (order, b) =
            (case map_of (wal_entries w) k of
               Some old \<Rightarrow> (wal_order w, wal_bytes w - sz old)
             | None \<Rightarrow> (wal_order w @ [k], wal_bytes w));
          (order', es', b') =
            wal_trim sz (wal_max w) order (AList.update k ev (wal_entries w)) (b + sz ev)
      in w\<lparr>wal_order := order', wal_entries := es', wal_bytes := b'\<rparr>)"

text \<open>\<open>MemWAL.Add\<close>; \<open>None\<close> is the nil event.\<close>

definition mem_add :: "(result_event \<Rightarrow> int) \<Rightarrow> result_event option \<Rightarrow> wal \<Rightarrow> wal" where
  "mem_add sz oev w = (case oev of None \<Rightarrow> w | Some ev \<Rightarrow> wal_put sz ev w)"

definition wal_ack :: "(result_event \<Rightarrow> int) \<Rightarrow> wal_key \<Rightarrow> wal \<Rightarrow> wal" where
  "wal_ack sz k w =
     (case map_of (wal_entries w) k of
        None \<Rightarrow> w
      | Some ev \<Rightarrow>
          w\<lparr>wal_bytes := wal_bytes w - sz ev, wal_entries := AList.delete k (wal_entries w),
            wal_order := remove1 k (wal_order w)\<rparr>)"

definition wal_pending :: "wal \<Rightarrow> result_event list" where
  "wal_pending w = List.map_filter (map_of (wal_entries w)) (wal_order w)"

definition wal_len :: "wal \<Rightarrow> int" where
  "wal_len w = int (length (wal_entries w))"

definition wal_high_water :: "wal \<Rightarrow> bool" where
  "wal_high_water w \<longleftrightarrow>
     wal_len w \<ge> wal_max w \<or> (wal_max_bytes w > 0 \<and> wal_bytes w \<ge> wal_max_bytes w)"

section \<open>What a result log promises\<close>

text \<open>
  The abstract log is the list of unconfirmed events, oldest first, with distinct keys. An
  addition replaces the event of the same key in place or goes to the end, then the oldest
  events beyond the capacity are dropped; an acknowledgement removes its key.
\<close>

definition log_put :: "result_event \<Rightarrow> result_event list \<Rightarrow> result_event list" where
  "log_put ev l =
     (if re_key ev \<in> re_key ` set l then map (\<lambda>e. if re_key e = re_key ev then ev else e) l
      else l @ [ev])"

definition log_add :: "nat \<Rightarrow> result_event \<Rightarrow> result_event list \<Rightarrow> result_event list" where
  "log_add cap ev l = (let l' = log_put ev l in drop (length l' - cap) l')"

definition log_ack :: "wal_key \<Rightarrow> result_event list \<Rightarrow> result_event list" where
  "log_ack k l = filter (\<lambda>e. re_key e \<noteq> k) l"

datatype log_op = LogAdd result_event | LogAck wal_key

fun log_apply :: "nat \<Rightarrow> log_op \<Rightarrow> result_event list \<Rightarrow> result_event list" where
  "log_apply cap (LogAdd ev) l = log_add cap ev l"
| "log_apply cap (LogAck k) l = log_ack k l"

fun log_perform :: "(result_event \<Rightarrow> 's \<Rightarrow> 's) \<Rightarrow> (wal_key \<Rightarrow> 's \<Rightarrow> 's) \<Rightarrow> log_op \<Rightarrow> 's \<Rightarrow> 's"
where
  "log_perform add ack (LogAdd ev) s = add ev s"
| "log_perform add ack (LogAck k) s = ack k s"

fun op_accepted :: "(result_event \<Rightarrow> bool) \<Rightarrow> log_op \<Rightarrow> bool" where
  "op_accepted accept (LogAdd ev) = accept ev"
| "op_accepted accept (LogAck k) = True"

lemma op_accepted_all [simp]: "op_accepted (\<lambda>_. True) x"
  by (cases x) auto

definition log_run :: "nat \<Rightarrow> log_op list \<Rightarrow> result_event list \<Rightarrow> result_event list" where
  "log_run cap ops l = fold (log_apply cap) ops l"

lemma log_run_simps [simp]:
  "log_run cap [] l = l"
  "log_run cap (x # xs) l = log_run cap xs (log_apply cap x l)"
  "log_run cap (xs @ ys) l = log_run cap ys (log_run cap xs l)"
  by (simp_all add: log_run_def)

lemma log_put_keys:
  "map re_key (log_put ev l) =
     (if re_key ev \<in> re_key ` set l then map re_key l else map re_key l @ [re_key ev])"
  by (auto simp: log_put_def)

lemma log_put_distinct: "distinct (map re_key l) \<Longrightarrow> distinct (map re_key (log_put ev l))"
  by (simp add: log_put_keys)

lemma log_add_distinct: "distinct (map re_key l) \<Longrightarrow> distinct (map re_key (log_add cap ev l))"
  by (simp add: log_add_def Let_def drop_map [symmetric] log_put_distinct)

lemma log_add_length: "length (log_add cap ev l) \<le> cap"
  by (simp add: log_add_def Let_def)

lemma log_ack_distinct: "distinct (map re_key l) \<Longrightarrow> distinct (map re_key (log_ack k l))"
  by (simp add: log_ack_def distinct_map_filter)

lemma log_apply_ok:
  "distinct (map re_key l) \<and> length l \<le> cap \<Longrightarrow>
     distinct (map re_key (log_apply cap op' l)) \<and> length (log_apply cap op' l) \<le> cap"
  by (cases op') (auto simp: log_add_distinct log_add_length log_ack_distinct distinct_map_filter log_ack_def
      intro: order.trans [OF length_filter_le])

lemma log_run_ok:
  "distinct (map re_key l) \<and> length l \<le> cap \<Longrightarrow>
     distinct (map re_key (log_run cap ops l)) \<and> length (log_run cap ops l) \<le> cap"
proof (induction ops arbitrary: l)
  case (Cons x xs)
  show ?case using Cons.IH [OF log_apply_ok [OF Cons.prems]] by simp
qed simp

text \<open>The contract of the interface \<open>WAL\<close>, for a state \<open>'s\<close> with its own invariant.\<close>

locale result_log =
  fixes add :: "result_event \<Rightarrow> 's \<Rightarrow> 's"
    and ack :: "wal_key \<Rightarrow> 's \<Rightarrow> 's"
    and accept :: "result_event \<Rightarrow> bool"
    and pend :: "'s \<Rightarrow> result_event list"
    and cap :: "'s \<Rightarrow> nat"
    and ok :: "'s \<Rightarrow> bool"
  assumes ok_add: "ok s \<Longrightarrow> ok (add ev s) \<and> cap (add ev s) = cap s"
    and ok_ack: "ok s \<Longrightarrow> ok (ack k s) \<and> cap (ack k s) = cap s"
    and pend_add: "ok s \<Longrightarrow> pend (add ev s) = (if accept ev then log_add (cap s) ev (pend s) else pend s)"
    and pend_ack: "ok s \<Longrightarrow> pend (ack k s) = log_ack k (pend s)"
begin

lemma perform_step:
  "ok s \<Longrightarrow> ok (log_perform add ack x s) \<and> cap (log_perform add ack x s) = cap s \<and>
     pend (log_perform add ack x s) = log_run (cap s) (filter (op_accepted accept) [x]) (pend s)"
  by (cases x) (simp_all add: ok_add ok_ack pend_add pend_ack)

text \<open>Any history of additions and acknowledgements has the effect it has on the abstract log.\<close>

lemma history:
  "ok s \<Longrightarrow> ok (fold (log_perform add ack) ops s) \<and> cap (fold (log_perform add ack) ops s) = cap s \<and>
     pend (fold (log_perform add ack) ops s) = log_run (cap s) (filter (op_accepted accept) ops) (pend s)"
proof (induction ops arbitrary: s)
  case (Cons x xs)
  then show ?case using perform_step [OF Cons.prems, of x] by simp
qed simp

end

section \<open>The in-memory log keeps the promise\<close>

definition wal_sum :: "(result_event \<Rightarrow> int) \<Rightarrow> (wal_key \<times> result_event) list \<Rightarrow> wal_key list \<Rightarrow> int" where
  "wal_sum sz es ks = (\<Sum>k\<in>set ks. sz (the (map_of es k)))"

text \<open>Order, entries and byte count fit together.\<close>

definition wal_fits ::
  "(result_event \<Rightarrow> int) \<Rightarrow> wal_key list \<Rightarrow> (wal_key \<times> result_event) list \<Rightarrow> int \<Rightarrow> bool" where
  "wal_fits sz ks es b \<longleftrightarrow>
     distinct ks \<and> distinct (map fst es) \<and> dom (map_of es) = set ks \<and>
     (\<forall>k e. map_of es k = Some e \<longrightarrow> re_key e = k) \<and> b = wal_sum sz es ks"

definition wal_ok :: "(result_event \<Rightarrow> int) \<Rightarrow> wal \<Rightarrow> bool" where
  "wal_ok sz w \<longleftrightarrow>
     wal_fits sz (wal_order w) (wal_entries w) (wal_bytes w) \<and>
     0 < wal_max w \<and> int (length (wal_order w)) \<le> wal_max w"

abbreviation wal_cap :: "wal \<Rightarrow> nat" where
  "wal_cap w \<equiv> nat (wal_max w)"

lemma new_wal_ok: "wal_ok sz (new_wal mx)"
  by (simp add: wal_ok_def new_wal_def wal_fits_def wal_sum_def default_wal_max_def)

lemma new_wal_pending [simp]: "wal_pending (new_wal mx) = []"
  by (simp add: wal_pending_def new_wal_def List.map_filter_def)

lemma map_filter_dom:
  "set ks \<subseteq> dom m \<Longrightarrow> List.map_filter m ks = map (\<lambda>k. the (m k)) ks"
  by (induction ks) (auto simp: List.map_filter_def)

lemma map_filter_cong_on:
  "(\<And>k. k \<in> set ks \<Longrightarrow> m k = m' k) \<Longrightarrow> List.map_filter m ks = List.map_filter m' ks"
  by (induction ks) (auto simp: List.map_filter_def)

lemma wal_sum_cong:
  "(\<And>k. k \<in> set ks \<Longrightarrow> map_of es k = map_of es' k) \<Longrightarrow> wal_sum sz es ks = wal_sum sz es' ks"
  by (simp add: wal_sum_def)

lemma wal_fits_delete:
  assumes "wal_fits sz ks es b" and "map_of es k = Some old"
  shows "wal_fits sz (remove1 k ks) (AList.delete k es) (b - sz old)"
proof -
  have k: "k \<in> set ks" using assms by (auto simp: wal_fits_def)
  then have "wal_sum sz es ks = sz old + wal_sum sz es (remove1 k ks)"
    using assms sum.remove [of "set ks" k "\<lambda>k. sz (the (map_of es k))"]
    by (simp add: wal_fits_def wal_sum_def)
  moreover have "wal_sum sz (AList.delete k es) (remove1 k ks) = wal_sum sz es (remove1 k ks)"
    using assms by (intro wal_sum_cong) (auto simp: wal_fits_def delete_conv')
  ultimately show ?thesis
    using assms by (auto simp: wal_fits_def delete_conv' distinct_delete split: if_splits)
qed

lemma wal_trim_fits:
  assumes "wal_fits sz ks es b" and "0 \<le> mx" and "wal_trim sz mx ks es b = (ks', es', b')"
  shows "wal_fits sz ks' es' b' \<and> ks' = drop (length ks - nat mx) ks \<and>
    (\<forall>k\<in>set ks'. map_of es' k = map_of es k)"
  using assms
proof (induction sz mx ks es b rule: wal_trim.induct)
  case (1 sz mx es b)
  then show ?case by simp
next
  case (2 sz mx k ks es b)
  show ?case
  proof (cases "int (length (k # ks)) > mx")
    case False
    then show ?thesis using "2.prems" by auto
  next
    case True
    have "k \<in> dom (map_of es)" using "2.prems"(1) by (simp add: wal_fits_def)
    then obtain old where old: "map_of es k = Some old" by blast
    have nk: "k \<notin> set ks" using "2.prems"(1) by (simp add: wal_fits_def)
    have f: "wal_fits sz ks (AList.delete k es) (b - sz old)"
      using wal_fits_delete [OF "2.prems"(1) old] by simp
    have "wal_fits sz ks' es' b' \<and> ks' = drop (length ks - nat mx) ks \<and>
        (\<forall>k'\<in>set ks'. map_of es' k' = map_of (AList.delete k es) k')"
      by (rule "2.IH"(2) [OF True old f "2.prems"(2)]) (use "2.prems"(3) True old in simp)
    moreover have "drop (length (k # ks) - nat mx) (k # ks) = drop (length ks - nat mx) ks"
      using True "2.prems"(2) by (cases "nat mx \<le> length ks") (auto simp: Suc_diff_le nat_le_iff)
    ultimately show ?thesis
      using nk set_drop_subset [of "length ks - nat mx" ks] by (auto simp: delete_conv')
  qed
qed

lemma wal_fits_update:
  assumes "wal_fits sz ks es b"
  shows "wal_fits sz (if re_key ev \<in> set ks then ks else ks @ [re_key ev])
    (AList.update (re_key ev) ev es)
    ((case map_of es (re_key ev) of None \<Rightarrow> b | Some old \<Rightarrow> b - sz old) + sz ev)"
proof -
  let ?k = "re_key ev" and ?es = "AList.update (re_key ev) ev es"
  let ?ks = "if re_key ev \<in> set ks then ks else ks @ [re_key ev]"
  have rest: "(\<Sum>k\<in>set ks - {?k}. sz (the (map_of ?es k))) = (\<Sum>k\<in>set ks - {?k}. sz (the (map_of es k)))"
    by (rule sum.cong) (auto simp: update_conv')
  have "wal_sum sz ?es ?ks = sz ev + (\<Sum>k\<in>set ks - {?k}. sz (the (map_of es k)))"
    unfolding rest [symmetric] wal_sum_def
    by (cases "?k \<in> set ks") (simp_all add: sum.remove [of "set ks" ?k] update_conv')
  moreover have "(case map_of es ?k of None \<Rightarrow> b | Some old \<Rightarrow> b - sz old) =
      (\<Sum>k\<in>set ks - {?k}. sz (the (map_of es k)))"
  proof (cases "map_of es ?k")
    case None
    then have "?k \<notin> set ks" using assms by (auto simp: wal_fits_def)
    then show ?thesis using assms None by (simp add: wal_fits_def wal_sum_def)
  next
    case (Some old)
    then have "?k \<in> set ks" using assms by (auto simp: wal_fits_def)
    then show ?thesis using assms Some by (simp add: wal_fits_def wal_sum_def sum.remove [of "set ks" ?k])
  qed
  moreover have "distinct (map fst ?es)" using assms by (simp add: wal_fits_def distinct_update)
  ultimately show ?thesis
    using assms by (auto simp: wal_fits_def update_conv' split: if_splits)
qed

lemma wal_pending_map:
  "wal_ok sz w \<Longrightarrow> wal_pending w = map (\<lambda>k. the (map_of (wal_entries w) k)) (wal_order w)"
  by (simp add: wal_pending_def wal_ok_def wal_fits_def map_filter_dom)

lemma wal_fits_key: "wal_fits sz ks es b \<Longrightarrow> k \<in> set ks \<longleftrightarrow> map_of es k \<noteq> None"
  unfolding wal_fits_def by (metis domIff)

lemma wal_fits_the:
  assumes "wal_fits sz ks es b" and "k \<in> set ks"
  shows "re_key (the (map_of es k)) = k"
proof -
  obtain e where "map_of es k = Some e" using wal_fits_key [OF assms(1)] assms(2) by auto
  moreover from this have "re_key e = k" using assms(1) unfolding wal_fits_def by blast
  ultimately show ?thesis by simp
qed

lemma wal_pending_keys: "wal_ok sz w \<Longrightarrow> map re_key (wal_pending w) = wal_order w"
  unfolding wal_pending_map map_map comp_def
  by (rule map_idI) (auto simp: wal_ok_def wal_fits_the simp del: split_paired_All)

lemma wal_key_in_order: "wal_ok sz w \<Longrightarrow> k \<in> set (wal_order w) \<longleftrightarrow> k \<in> re_key ` set (wal_pending w)"
  by (simp flip: wal_pending_keys)

lemma log_put_map:
  assumes "wal_fits sz ks es b"
  shows "map (\<lambda>k. the (map_of (AList.update (re_key ev) ev es) k))
      (if re_key ev \<in> set ks then ks else ks @ [re_key ev]) =
    log_put ev (map (\<lambda>k. the (map_of es k)) ks)"
proof -
  have keys: "re_key ` set (map (\<lambda>k. the (map_of es k)) ks) = set ks"
    using wal_fits_the [OF assms] by (force simp: image_iff)
  show ?thesis
    unfolding log_put_def keys using wal_fits_the [OF assms] by (auto simp: update_conv')
qed

lemma wal_put_ok:
  assumes "wal_ok sz w"
  shows "wal_ok sz (wal_put sz ev w) \<and> wal_max (wal_put sz ev w) = wal_max w \<and>
    wal_pending (wal_put sz ev w) = log_add (wal_cap w) ev (wal_pending w)"
proof -
  let ?k = "re_key ev" and ?es = "AList.update (re_key ev) ev (wal_entries w)"
  define ks where "ks = (if ?k \<in> set (wal_order w) then wal_order w else wal_order w @ [?k])"
  define b where "b = (case map_of (wal_entries w) ?k of None \<Rightarrow> wal_bytes w | Some old \<Rightarrow> wal_bytes w - sz old) + sz ev"
  obtain ks' es' b' where t: "wal_trim sz (wal_max w) ks ?es b = (ks', es', b')"
    by (cases "wal_trim sz (wal_max w) ks ?es b") auto
  have f: "wal_fits sz (wal_order w) (wal_entries w) (wal_bytes w)" and m: "0 \<le> wal_max w"
    using assms by (simp_all add: wal_ok_def)
  have "?k \<in> set (wal_order w) \<longleftrightarrow> map_of (wal_entries w) ?k \<noteq> None"
    by (rule wal_fits_key [OF f])
  then have p: "wal_put sz ev w = w\<lparr>wal_order := ks', wal_entries := es', wal_bytes := b'\<rparr>"
    using t by (auto simp: wal_put_def ks_def b_def Let_def split: option.splits)
  have r: "wal_fits sz ks' es' b'" "ks' = drop (length ks - wal_cap w) ks"
    "\<forall>k\<in>set ks'. map_of es' k = map_of ?es k"
    using wal_trim_fits [OF wal_fits_update [OF f, of ev, folded ks_def b_def] m t] by auto
  have ok: "wal_ok sz (wal_put sz ev w)"
    using r(1,2) assms by (auto simp: p wal_ok_def)
  have "wal_pending (wal_put sz ev w) = map (\<lambda>k. the (map_of ?es k)) ks'"
    using wal_pending_map [OF ok] r(3) by (simp add: p)
  also have "\<dots> = drop (length ks - wal_cap w) (log_put ev (wal_pending w))"
    using log_put_map [OF f, of ev] by (simp add: r(2) ks_def wal_pending_map [OF assms] flip: drop_map)
  also have "length ks = length (log_put ev (wal_pending w))"
    using log_put_keys [of ev "wal_pending w"] wal_pending_keys [OF assms] wal_key_in_order [OF assms]
    by (metis ks_def length_map)
  finally show ?thesis using ok by (simp add: log_add_def Let_def) (simp add: p)
qed

lemma wal_ack_ok:
  assumes "wal_ok sz w"
  shows "wal_ok sz (wal_ack sz k w) \<and> wal_max (wal_ack sz k w) = wal_max w \<and>
    wal_pending (wal_ack sz k w) = log_ack k (wal_pending w)"
proof (cases "map_of (wal_entries w) k")
  case None
  then have "k \<notin> set (wal_order w)" using assms unfolding wal_ok_def by (metis wal_fits_key)
  then have "log_ack k (wal_pending w) = wal_pending w"
    using wal_key_in_order [OF assms] by (auto simp: log_ack_def intro!: filter_True)
  then show ?thesis using assms None by (simp add: wal_ack_def)
next
  case (Some old)
  have f: "wal_fits sz (wal_order w) (wal_entries w) (wal_bytes w)" using assms by (simp add: wal_ok_def)
  have d: "distinct (wal_order w)" using f by (simp add: wal_fits_def)
  have ok: "wal_ok sz (wal_ack sz k w)"
    using wal_fits_delete [OF f Some] assms Some
    by (auto simp: wal_ok_def wal_ack_def intro: order.trans [OF _ assms [unfolded wal_ok_def, THEN conjunct2, THEN conjunct2]]
        simp: length_remove1)
  have "wal_pending (wal_ack sz k w) =
      map (\<lambda>k. the (map_of (wal_entries w) k)) (filter ((\<noteq>) k) (wal_order w))"
    using wal_pending_map [OF ok] Some
    by (auto simp: wal_ack_def distinct_remove1_removeAll d removeAll_filter_not_eq delete_conv')
  also have "\<dots> = log_ack k (wal_pending w)"
    unfolding wal_pending_map [OF assms] log_ack_def filter_map
    using wal_fits_the [OF f] by (intro arg_cong [where f = "map _"] filter_cong) auto
  finally show ?thesis using ok Some by (simp add: wal_ack_def)
qed

interpretation mem_log: result_log "wal_put sz" "wal_ack sz" "\<lambda>_. True" wal_pending wal_cap "wal_ok sz"
  by unfold_locales (simp_all add: wal_put_ok wal_ack_ok)

lemma wal_numbers:
  assumes "wal_ok sz w"
  shows "wal_len w = int (length (wal_pending w))" and "wal_bytes w = sum_list (map sz (wal_pending w))"
proof -
  have f: "wal_fits sz (wal_order w) (wal_entries w) (wal_bytes w)" using assms by (simp add: wal_ok_def)
  have "length (wal_entries w) = card (set (wal_order w))"
    using f distinct_card [of "map fst (wal_entries w)"] by (simp add: wal_fits_def dom_map_of_conv_image_fst)
  then show "wal_len w = int (length (wal_pending w))"
    using f by (simp add: wal_len_def wal_pending_map [OF assms] wal_fits_def distinct_card)
  show "wal_bytes w = sum_list (map sz (wal_pending w))"
    using f by (simp add: wal_pending_map [OF assms] wal_fits_def wal_sum_def sum_list_distinct_conv_sum_set comp_def)
qed

section \<open>The log on disk\<close>

text \<open>
  The file is a sequence of records: \<open>01\<close>, the length of the body as an unsigned varint and
  the body, for an addition; \<open>02\<close> and two signed varints for an acknowledgement. The protobuf
  codec and the largest slice \<open>make\<close> can allocate are arguments.
\<close>

record wal_codec =
  wc_marshal :: "result_event \<Rightarrow> byte list option"
  wc_unmarshal :: "byte list \<Rightarrow> result_event option"
  wc_size :: "result_event \<Rightarrow> int"
  wc_max_alloc :: nat

definition wal_record_add :: byte where
  "wal_record_add = 1"

definition wal_record_ack :: byte where
  "wal_record_ack = 2"

definition compact_ack_threshold :: int where
  "compact_ack_threshold = 1024"

definition add_record :: "byte list \<Rightarrow> byte list" where
  "add_record body = wal_record_add # uvarint (length body) @ body"

definition ack_record :: "wal_key \<Rightarrow> byte list" where
  "ack_record k = wal_record_ack # varint (fst k) @ varint (snd k)"

text \<open>
  \<open>DiskWAL.replay\<close> after the file has been opened. \<open>None\<close> is the run-time panic of
  \<open>make([]byte, n)\<close> for an absurd length; every other defect of the file ends the replay or
  skips one record.
\<close>

function (sequential) wal_replay :: "wal_codec \<Rightarrow> byte list \<Rightarrow> wal \<Rightarrow> wal option" where
  "wal_replay c [] w = Some w"
| "wal_replay c (b # r) w =
     (if b = wal_record_add then
        (case read_uvarint r of
           None \<Rightarrow> Some w
         | Some (n, r1) \<Rightarrow>
             if n > wc_max_alloc c then None
             else if length r1 < n then Some w
             else (case wc_unmarshal c (take n r1) of
                     None \<Rightarrow> wal_replay c (drop n r1) w
                   | Some ev \<Rightarrow> wal_replay c (drop n r1) (wal_put (wc_size c) ev w)))
      else if b = wal_record_ack then
        (case read_varint r of
           None \<Rightarrow> Some w
         | Some (tid, r1) \<Rightarrow>
             (case read_varint r1 of
                None \<Rightarrow> Some w
              | Some (att, r2) \<Rightarrow> wal_replay c r2 (wal_ack (wc_size c) (tid, att) w)))
      else Some w)"
  by pat_completeness auto
termination
  by (relation "measure (\<lambda>(c, bs, w). length bs)")
    (auto dest!: read_uvarint_shorter read_varint_shorter)

text \<open>
  The handle: open; closed underneath but still held (after a compaction that failed at the
  end); or nil after \<open>Close\<close>.
\<close>

datatype wal_handle = HandleOpen | HandleDead | HandleNil

record disk_wal =
  dw_mem :: wal
  dw_file :: "byte list"
  dw_handle :: wal_handle
  dw_acks :: int

datatype open_error = EmptyPath | MkdirFailed | ReplayReadFailed | ReplayPanic | AppendOpenFailed

text \<open>
  \<open>OpenDiskWAL\<close>. \<open>file\<close> is the file at the path (\<open>None\<close>: it does not exist), or the error of
  opening it; \<open>mkdir_ok\<close> and \<open>append_ok\<close> are the outcomes of the other two system calls.
\<close>

definition open_disk_wal ::
  "wal_codec \<Rightarrow> string \<Rightarrow> int \<Rightarrow> int \<Rightarrow> bool \<Rightarrow> (unit + byte list option) \<Rightarrow> bool
     \<Rightarrow> open_error + disk_wal" where
  "open_disk_wal c path mx mxb mkdir_ok file append_ok =
     (if path = '''' then Inl EmptyPath
      else if \<not> mkdir_ok then Inl MkdirFailed
      else
        let w0 = \<lparr>wal_max = (if mx \<le> 0 then default_wal_max else mx),
                  wal_max_bytes = (if mxb \<le> 0 then default_wal_max_bytes else mxb),
                  wal_entries = [], wal_order = [], wal_bytes = 0\<rparr>
        in case file of
             Inl _ \<Rightarrow> Inl ReplayReadFailed
           | Inr content \<Rightarrow>
               let bs = (case content of None \<Rightarrow> [] | Some bs \<Rightarrow> bs)
               in case wal_replay c bs w0 of
                    None \<Rightarrow> Inl ReplayPanic
                  | Some w \<Rightarrow>
                      if append_ok
                      then Inr \<lparr>dw_mem = w, dw_file = bs, dw_handle = HandleOpen, dw_acks = 0\<rparr>
                      else Inl AppendOpenFailed)"

text \<open>
  One \<open>Write\<close>: \<open>None\<close> is success, \<open>Some n\<close> a failure after \<open>n\<close> bytes. A closed handle writes
  nothing. The second component says whether the call returned nil.
\<close>

definition wal_write :: "nat option \<Rightarrow> byte list \<Rightarrow> disk_wal \<Rightarrow> disk_wal \<times> bool" where
  "wal_write wr bs d =
     (case dw_handle d of
        HandleOpen \<Rightarrow>
          (case wr of
             None \<Rightarrow> (d\<lparr>dw_file := dw_file d @ bs\<rparr>, True)
           | Some n \<Rightarrow> (d\<lparr>dw_file := dw_file d @ take n bs\<rparr>, False))
      | _ \<Rightarrow> (d, False))"

definition disk_add :: "wal_codec \<Rightarrow> nat option \<Rightarrow> result_event option \<Rightarrow> disk_wal \<Rightarrow> disk_wal" where
  "disk_add c wr oev d =
     (case oev of
        None \<Rightarrow> d
      | Some ev \<Rightarrow>
          (case wc_marshal c ev of
             None \<Rightarrow> d
           | Some body \<Rightarrow>
               (let (d', ok) = wal_write wr (add_record body) d
                in if ok then d'\<lparr>dw_mem := wal_put (wc_size c) ev (dw_mem d')\<rparr> else d')))"

text \<open>
  \<open>compactLocked\<close>: the unconfirmed events go to a new file which then replaces the log. It can
  fail before the log is touched, when the old handle is closed or the new file renamed, or
  when the log is reopened. Closing a handle a second time is an error.
\<close>

datatype compact_io = CompactDone | CompactEarly | CompactRename | CompactReopen

definition compact_image :: "wal_codec \<Rightarrow> wal \<Rightarrow> byte list" where
  "compact_image c w =
     concat (map add_record (List.map_filter (wc_marshal c) (wal_pending w)))"

definition disk_compact :: "wal_codec \<Rightarrow> compact_io \<Rightarrow> disk_wal \<Rightarrow> disk_wal \<times> bool" where
  "disk_compact c io d =
     (if dw_handle d = HandleNil then (d, True)
      else if dw_handle d = HandleDead then (d, False)
      else case io of
          CompactEarly \<Rightarrow> (d, False)
        | CompactRename \<Rightarrow> (d\<lparr>dw_handle := HandleDead\<rparr>, False)
        | CompactReopen \<Rightarrow> (d\<lparr>dw_file := compact_image c (dw_mem d), dw_handle := HandleDead\<rparr>, False)
        | CompactDone \<Rightarrow> (d\<lparr>dw_file := compact_image c (dw_mem d), dw_acks := 0\<rparr>, True))"

definition disk_ack ::
  "wal_codec \<Rightarrow> nat option \<Rightarrow> compact_io \<Rightarrow> wal_key \<Rightarrow> disk_wal \<Rightarrow> disk_wal" where
  "disk_ack c wr io k d =
     (if map_of (wal_entries (dw_mem d)) k = None then d
      else
        let (d1, ok) = wal_write wr (ack_record k) d
        in if \<not> ok then d1
           else
             let d2 = d1\<lparr>dw_mem := wal_ack (wc_size c) k (dw_mem d1), dw_acks := dw_acks d1 + 1\<rparr>
             in if dw_acks d2 \<ge> compact_ack_threshold then fst (disk_compact c io d2) else d2)"

definition disk_pending :: "disk_wal \<Rightarrow> result_event list" where
  "disk_pending d = wal_pending (dw_mem d)"

definition disk_close :: "disk_wal \<Rightarrow> disk_wal" where
  "disk_close d = d\<lparr>dw_handle := HandleNil\<rparr>"

section \<open>What a file says\<close>

text \<open>What the code relies on of the protobuf library: decoding inverts encoding.\<close>

definition codec_ok :: "wal_codec \<Rightarrow> bool" where
  "codec_ok c \<longleftrightarrow>
     wc_max_alloc c < 2 ^ 64 \<and>
     (\<forall>ev b. wc_marshal c ev = Some b \<longrightarrow>
        wc_unmarshal c b = Some ev \<and> length b \<le> wc_max_alloc c \<and>
        in_int64 (re_task_id ev) \<and> in_int64 (re_attempt ev))"

fun op_record :: "wal_codec \<Rightarrow> log_op \<Rightarrow> byte list" where
  "op_record c (LogAdd ev) = add_record (the (wc_marshal c ev))"
| "op_record c (LogAck k) = ack_record k"

fun op_valid :: "wal_codec \<Rightarrow> log_op \<Rightarrow> bool" where
  "op_valid c (LogAdd ev) \<longleftrightarrow> wc_marshal c ev \<noteq> None"
| "op_valid c (LogAck k) \<longleftrightarrow> in_int64 (fst k) \<and> in_int64 (snd k)"

definition ops_file :: "wal_codec \<Rightarrow> log_op list \<Rightarrow> byte list" where
  "ops_file c ops = concat (map (op_record c) ops)"

lemma ops_file_simps [simp]:
  "ops_file c [] = []"
  "ops_file c (x # xs) = op_record c x @ ops_file c xs"
  "ops_file c (xs @ ys) = ops_file c xs @ ops_file c ys"
  by (simp_all add: ops_file_def)

lemma record_types [simp]: "wal_record_ack \<noteq> wal_record_add" "wal_record_add \<noteq> wal_record_ack"
  by (simp_all add: wal_record_add_def wal_record_ack_def)

declare wal_replay.simps [simp del]

lemma wal_replay_Nil [simp]: "wal_replay c [] w = Some w"
  by (simp add: wal_replay.simps)

lemma codec_okD:
  assumes "codec_ok c" and "wc_marshal c ev = Some b"
  shows "wc_unmarshal c b = Some ev" and "length b \<le> wc_max_alloc c" and "length b < 2 ^ 64"
    and "in_int64 (re_task_id ev)" and "in_int64 (re_attempt ev)"
  using assms by (auto simp: codec_ok_def dest: order.strict_trans1)

lemma wal_replay_record:
  assumes "codec_ok c" and "op_valid c x"
  shows "wal_replay c (op_record c x @ rest) w =
    wal_replay c rest (log_perform (wal_put (wc_size c)) (wal_ack (wc_size c)) x w)"
proof (cases x)
  case (LogAdd ev)
  then obtain b where b: "wc_marshal c ev = Some b" using assms(2) by auto
  note d = codec_okD [OF assms(1) b]
  show ?thesis
    using d(1,2) by (simp add: LogAdd b add_record_def wal_replay.simps(2)
        read_uvarint_uvarint [OF d(3)])
next
  case (LogAck k)
  then show ?thesis
    using assms(2) by (simp add: ack_record_def wal_replay.simps(2) read_varint_varint)
qed

lemma wal_replay_ops:
  assumes "codec_ok c" and "\<forall>x\<in>set ops. op_valid c x"
  shows "wal_replay c (ops_file c ops @ rest) w =
    wal_replay c rest (fold (log_perform (wal_put (wc_size c)) (wal_ack (wc_size c))) ops w)"
  using assms(2)
proof (induction ops arbitrary: w)
  case (Cons x xs)
  then show ?case using wal_replay_record [OF assms(1), of x "ops_file c xs @ rest" w] by simp
qed simp

section \<open>The state of the disk log\<close>

text \<open>
  The handle is open and the file, read as operations on the abstract log, gives the events
  held in memory.
\<close>

definition disk_ok :: "wal_codec \<Rightarrow> disk_wal \<Rightarrow> bool" where
  "disk_ok c d \<longleftrightarrow>
     codec_ok c \<and> wal_ok (wc_size c) (dw_mem d) \<and> dw_handle d = HandleOpen \<and>
     (\<forall>e\<in>set (disk_pending d). wc_marshal c e \<noteq> None) \<and>
     (\<exists>ops. (\<forall>x\<in>set ops. op_valid c x) \<and> dw_file d = ops_file c ops \<and>
        disk_pending d = log_run (wal_cap (dw_mem d)) ops [])"

lemma log_put_set: "set (log_put ev l) \<subseteq> insert ev (set l)"
  by (auto simp: log_put_def)

lemma log_add_set: "set (log_add cap ev l) \<subseteq> insert ev (set l)"
  using log_put_set [of ev l] set_drop_subset unfolding log_add_def Let_def by fast

lemma log_run_adds:
  assumes "distinct (map re_key (l @ es))" and "length (l @ es) \<le> cap"
  shows "log_run cap (map LogAdd es) l = l @ es"
  using assms
proof (induction es arbitrary: l)
  case (Cons e es)
  have "log_add cap e l = l @ [e]" using Cons.prems by (auto simp: log_add_def log_put_def)
  then show ?case using Cons.IH [of "l @ [e]"] Cons.prems by simp
qed simp

lemma wal_pending_ok:
  assumes "wal_ok sz w"
  shows "distinct (map re_key (wal_pending w))" and "length (wal_pending w) \<le> wal_cap w"
proof -
  have keys: "map re_key (wal_pending w) = wal_order w" by (rule wal_pending_keys [OF assms])
  have n: "length (wal_pending w) = length (wal_order w)" by (simp flip: keys)
  show "distinct (map re_key (wal_pending w))" unfolding keys using assms by (simp add: wal_ok_def wal_fits_def)
  show "length (wal_pending w) \<le> wal_cap w" unfolding n using assms by (simp add: wal_ok_def le_nat_iff)
qed

lemma disk_add_ok:
  assumes "disk_ok c d"
  shows "disk_ok c (disk_add c None (Some ev) d) \<and>
    wal_max (dw_mem (disk_add c None (Some ev) d)) = wal_max (dw_mem d) \<and>
    disk_pending (disk_add c None (Some ev) d) =
      (if wc_marshal c ev \<noteq> None then log_add (wal_cap (dw_mem d)) ev (disk_pending d)
       else disk_pending d)"
proof (cases "wc_marshal c ev")
  case None
  then show ?thesis using assms by (simp add: disk_add_def)
next
  case (Some b)
  obtain ops where ops: "\<forall>x\<in>set ops. op_valid c x" "dw_file d = ops_file c ops"
    "disk_pending d = log_run (wal_cap (dw_mem d)) ops []" using assms by (auto simp: disk_ok_def)
  have d': "disk_add c None (Some ev) d =
      d\<lparr>dw_file := dw_file d @ add_record b, dw_mem := wal_put (wc_size c) ev (dw_mem d)\<rparr>"
    using assms Some by (simp add: disk_add_def wal_write_def disk_ok_def)
  have p: "wal_ok (wc_size c) (wal_put (wc_size c) ev (dw_mem d))"
    "wal_max (wal_put (wc_size c) ev (dw_mem d)) = wal_max (dw_mem d)"
    "wal_pending (wal_put (wc_size c) ev (dw_mem d)) = log_add (wal_cap (dw_mem d)) ev (disk_pending d)"
    using wal_put_ok [of "wc_size c" "dw_mem d" ev] assms by (simp_all add: disk_ok_def disk_pending_def)
  have "\<exists>ops'. (\<forall>x\<in>set ops'. op_valid c x) \<and> dw_file d @ add_record b = ops_file c ops' \<and>
      log_add (wal_cap (dw_mem d)) ev (disk_pending d) = log_run (wal_cap (dw_mem d)) ops' []"
    using ops Some by (intro exI [of _ "ops @ [LogAdd ev]"]) simp
  then show ?thesis
    using assms p Some log_add_set [of "wal_cap (dw_mem d)" ev "disk_pending d"]
    by (auto simp: d' disk_ok_def disk_pending_def)
qed

lemma compact_image_ops:
  "\<forall>e\<in>set l. wc_marshal c e \<noteq> None \<Longrightarrow>
     concat (map add_record (List.map_filter (wc_marshal c) l)) = ops_file c (map LogAdd l)"
  by (induction l) (auto simp: List.map_filter_def)

lemma disk_compact_ok:
  assumes "disk_ok c d"
  shows "disk_ok c (fst (disk_compact c CompactDone d))"
proof -
  let ?p = "disk_pending d"
  have w: "wal_ok (wc_size c) (dw_mem d)" and e: "\<forall>e\<in>set ?p. wc_marshal c e \<noteq> None"
    using assms by (simp_all add: disk_ok_def)
  have "log_run (wal_cap (dw_mem d)) (map LogAdd ?p) [] = ?p"
    using log_run_adds [of "[]" ?p] wal_pending_ok [OF w] by (simp add: disk_pending_def)
  moreover have "dw_file (fst (disk_compact c CompactDone d)) = ops_file c (map LogAdd ?p)"
    using assms compact_image_ops [OF e]
    by (simp add: disk_compact_def disk_ok_def compact_image_def disk_pending_def)
  moreover have "\<forall>x\<in>set (map LogAdd ?p). op_valid c x" using e by auto
  ultimately show ?thesis
    using assms by (auto simp: disk_compact_def disk_ok_def disk_pending_def intro!: exI [of _ "map LogAdd ?p"])
qed

lemma disk_compact_mem [simp]:
  "dw_mem (fst (disk_compact c io d)) = dw_mem d"
  "disk_pending (fst (disk_compact c io d)) = disk_pending d"
  by (auto simp: disk_compact_def disk_pending_def split: compact_io.split)

lemma wal_ack_absent: "map_of (wal_entries w) k = None \<Longrightarrow> wal_ack sz k w = w"
  by (simp add: wal_ack_def)

lemma disk_ack_ok:
  assumes "disk_ok c d"
  shows "disk_ok c (disk_ack c None CompactDone k d) \<and>
    wal_max (dw_mem (disk_ack c None CompactDone k d)) = wal_max (dw_mem d) \<and>
    disk_pending (disk_ack c None CompactDone k d) = log_ack k (disk_pending d)"
proof -
  have w: "wal_ok (wc_size c) (dw_mem d)" using assms by (simp add: disk_ok_def)
  note a = wal_ack_ok [OF w, of k]
  show ?thesis
  proof (cases "map_of (wal_entries (dw_mem d)) k")
    case None
    then show ?thesis using assms a by (simp add: disk_ack_def disk_pending_def wal_ack_absent)
  next
    case (Some e)
    let ?d = "d\<lparr>dw_file := dw_file d @ ack_record k, dw_mem := wal_ack (wc_size c) k (dw_mem d),
      dw_acks := dw_acks d + 1\<rparr>"
    obtain ops where ops: "\<forall>x\<in>set ops. op_valid c x" "dw_file d = ops_file c ops"
      "disk_pending d = log_run (wal_cap (dw_mem d)) ops []" using assms by (auto simp: disk_ok_def)
    have "e \<in> set (disk_pending d)" and "re_key e = k"
    proof -
      have f: "wal_fits (wc_size c) (wal_order (dw_mem d)) (wal_entries (dw_mem d)) (wal_bytes (dw_mem d))"
        using w by (simp add: wal_ok_def)
      have "k \<in> set (wal_order (dw_mem d))" unfolding wal_fits_key [OF f] using Some by simp
      then show "e \<in> set (disk_pending d)" using Some
        by (force simp: disk_pending_def wal_pending_map [OF w] image_iff intro!: bexI [of _ k])
      show "re_key e = k" using f Some unfolding wal_fits_def by blast
    qed
    then have k: "op_valid c (LogAck k)"
      using assms codec_okD [of c e] by (auto simp: disk_ok_def re_key_def)
    have "disk_ok c ?d"
    proof -
      have "\<exists>ops'. (\<forall>x\<in>set ops'. op_valid c x) \<and> dw_file d @ ack_record k = ops_file c ops' \<and>
          log_ack k (disk_pending d) = log_run (wal_cap (dw_mem d)) ops' []"
        using ops k by (intro exI [of _ "ops @ [LogAck k]"]) auto
      then show ?thesis using assms a by (auto simp: disk_ok_def disk_pending_def log_ack_def)
    qed
    moreover from this have "disk_ok c (fst (disk_compact c CompactDone ?d))" by (rule disk_compact_ok)
    moreover have "disk_ack c None CompactDone k d =
        (if dw_acks d + 1 \<ge> compact_ack_threshold then fst (disk_compact c CompactDone ?d) else ?d)"
      using assms Some by (simp add: disk_ack_def wal_write_def disk_ok_def Let_def)
    ultimately show ?thesis using a by (auto simp: disk_pending_def)
  qed
qed

interpretation disk_log: result_log "\<lambda>ev. disk_add c None (Some ev)" "disk_ack c None CompactDone"
  "\<lambda>ev. wc_marshal c ev \<noteq> None" disk_pending "\<lambda>d. wal_cap (dw_mem d)" "disk_ok c"
  by unfold_locales (simp_all add: disk_add_ok disk_ack_ok)

section \<open>Recovery\<close>

lemma wal_cap_eq: "wal_ok sz w \<Longrightarrow> wal_cap w = nat mx \<Longrightarrow> mx > 0 \<Longrightarrow> wal_max w = mx"
  by (auto simp: wal_ok_def)

lemma open_disk_wal_ops:
  assumes "codec_ok c" and "\<forall>x\<in>set ops. op_valid c x" and "path \<noteq> ''''" and "mx > 0"
    and "\<And>w. wal_replay c rest w = Some w"
  shows "\<exists>d. open_disk_wal c path mx mxb True (Inr (Some (ops_file c ops @ rest))) True = Inr d \<and>
    disk_pending d = log_run (nat mx) ops [] \<and> wal_ok (wc_size c) (dw_mem d) \<and>
    dw_handle d = HandleOpen \<and> dw_file d = ops_file c ops @ rest \<and> wal_max (dw_mem d) = mx"
proof -
  define w0 where "w0 = \<lparr>wal_max = mx, wal_max_bytes = (if mxb \<le> 0 then default_wal_max_bytes else mxb),
      wal_entries = [], wal_order = [], wal_bytes = 0\<rparr>"
  have w0: "wal_ok (wc_size c) w0" "wal_pending w0 = []" "wal_max w0 = mx"
    using assms(4) by (simp_all add: w0_def wal_ok_def wal_fits_def wal_sum_def wal_pending_def List.map_filter_def)
  have "filter (op_accepted (\<lambda>_. True)) ops = ops" by simp
  then show ?thesis
    using mem_log.history [OF w0(1), of ops] w0(2,3) assms(3,4)
    by (auto simp: open_disk_wal_def Let_def w0_def [symmetric] wal_replay_ops [OF assms(1,2)] assms(5)
        disk_pending_def intro: wal_cap_eq)
qed

lemma disk_reopen:
  assumes "disk_ok c d" and "path \<noteq> ''''"
    and "\<And>w. wal_replay c rest w = Some w"
  shows "\<exists>d'. open_disk_wal c path (wal_max (dw_mem d)) mxb True (Inr (Some (dw_file d @ rest))) True = Inr d' \<and>
    disk_pending d' = disk_pending d"
proof -
  obtain ops where ops: "\<forall>x\<in>set ops. op_valid c x" "dw_file d = ops_file c ops"
    "disk_pending d = log_run (wal_cap (dw_mem d)) ops []" using assms(1) by (auto simp: disk_ok_def)
  have "codec_ok c" "0 < wal_max (dw_mem d)" using assms(1) by (simp_all add: disk_ok_def wal_ok_def)
  from open_disk_wal_ops [OF this(1) ops(1) assms(2) this(2) assms(3), of mxb]
  show ?thesis using ops by auto
qed

text \<open>A record cut short is not read, and ends the replay.\<close>

lemma torn_record:
  assumes "codec_ok c" and "op_valid c x" and "n < length (op_record c x)"
  shows "wal_replay c (take n (op_record c x)) w = Some w"
proof (cases n)
  case (Suc n')
  show ?thesis
  proof (cases x)
    case (LogAdd ev)
    then obtain b where b: "wc_marshal c ev = Some b" using assms(2) by auto
    let ?u = "uvarint (length b)"
    note d = codec_okD [OF assms(1) b]
    show ?thesis
    proof (cases "n' < length ?u")
      case True
      then show ?thesis
        by (simp add: LogAdd b Suc add_record_def wal_replay.simps(2) read_uvarint_prefix)
    next
      case False
      have "n' - length ?u < length b" using assms(3) False by (simp add: LogAdd b Suc add_record_def)
      then show ?thesis
        using False d(2)
        by (simp add: LogAdd b Suc add_record_def wal_replay.simps(2) read_uvarint_uvarint [OF d(3)])
    qed
  next
    case (LogAck k)
    have k: "in_int64 (fst k)" "in_int64 (snd k)" using assms(2) by (simp_all add: LogAck)
    show ?thesis
    proof (cases "n' < length (varint (fst k))")
      case True
      then show ?thesis
        by (simp add: LogAck Suc ack_record_def wal_replay.simps(2) read_varint_prefix)
    next
      case False
      then have "n' - length (varint (fst k)) < length (varint (snd k))"
        using assms(3) by (simp add: LogAck Suc ack_record_def)
      then show ?thesis
        using False
        by (simp add: LogAck Suc ack_record_def wal_replay.simps(2) read_varint_varint [OF k(1)]
            read_varint_prefix)
    qed
  qed
qed simp

text \<open>A length beyond what can be allocated panics, whatever follows it.\<close>

lemma wal_replay_huge:
  assumes "wc_max_alloc c < n" and "n < 2 ^ 64"
  shows "wal_replay c (wal_record_add # uvarint n @ rest) w = None"
  using assms(1) by (simp add: wal_replay.simps(2) read_uvarint_uvarint [OF assms(2)])

text \<open>A dead handle: nothing is stored any more.\<close>

lemma dead_handle:
  assumes "dw_handle d \<noteq> HandleOpen"
  shows "disk_add c wr oev d = d" and "disk_ack c wr io k d = d"
  using assms
  by (auto simp: disk_add_def disk_ack_def wal_write_def Let_def split: option.split wal_handle.split)

section \<open>Properties\<close>

text \<open>Two events and a codec for the examples.\<close>

definition wal_event :: "int \<Rightarrow> result_event" where
  "wal_event i =
     \<lparr>re_task_id = i, re_attempt = 1, re_outcome = wire_succeeded, re_result = NoContent,
      re_error = '''', re_source = '''', re_trace = [], re_finished_ms = 0, re_operator = '''',
      re_type = ''t''\<rparr>"

definition pair_codec :: wal_codec where
  "pair_codec =
     \<lparr>wc_marshal = (\<lambda>e. if e = wal_event 1 then Some [7] else if e = wal_event 2 then Some [8, 9] else None),
      wc_unmarshal = (\<lambda>b. if b = [7] then Some (wal_event 1) else if b = [8, 9] then Some (wal_event 2) else None),
      wc_size = (\<lambda>e. if e = wal_event 1 then 1 else 2),
      wc_max_alloc = 2 ^ 47\<rparr>"

lemma pair_codec_ok: "codec_ok pair_codec"
  by (simp add: codec_ok_def pair_codec_def) (simp add: wal_event_def in_int64_def)

text \<open>A log driven through a history from its creation.\<close>

definition wal_history :: "(result_event \<Rightarrow> int) \<Rightarrow> int \<Rightarrow> log_op list \<Rightarrow> wal" where
  "wal_history sz mx ops = fold (log_perform (wal_put sz) (wal_ack sz)) ops (new_wal mx)"

text \<open>C18. From the empty log of any capacity, any history of additions and acknowledgements
leaves the in-memory log with exactly the events of the abstract log (oldest first, one per
task and attempt, the oldest dropped beyond the capacity); the counters are the number and the
total size of those events, and the high-water test reads them.\<close>

theorem wal_follows_log:
  "wal_pending (wal_history sz mx ops) = log_run (wal_cap (new_wal mx)) ops [] \<and>
    distinct (map re_key (wal_pending (wal_history sz mx ops))) \<and>
    wal_len (wal_history sz mx ops) = int (length (wal_pending (wal_history sz mx ops))) \<and>
    wal_len (wal_history sz mx ops) \<le> wal_max (new_wal mx) \<and>
    wal_bytes (wal_history sz mx ops) = sum_list (map sz (wal_pending (wal_history sz mx ops)))"
proof -
  have "filter (op_accepted (\<lambda>_. True)) ops = ops" by simp
  then have h: "wal_ok sz (wal_history sz mx ops)" "wal_cap (wal_history sz mx ops) = wal_cap (new_wal mx)"
    "wal_pending (wal_history sz mx ops) = log_run (wal_cap (new_wal mx)) ops []"
    using mem_log.history [OF new_wal_ok [of sz mx], of ops] by (simp_all add: wal_history_def)
  have "wal_max (new_wal mx) > 0" by (simp add: new_wal_def default_wal_max_def)
  then show ?thesis
    using h wal_pending_ok [OF h(1)] wal_numbers [OF h(1)] by (simp add: le_nat_iff)
qed

text \<open>C15. A disk log opened on a new file and then driven by any history without I/O faults
(compactions included) holds the abstract log of the events that can be encoded, and a process
that opens the file afterwards recovers exactly the same unconfirmed events in the same order.\<close>

theorem disk_log_survives_restart:
  assumes "codec_ok c" and "path \<noteq> ''''" and "mx > 0"
  shows "\<exists>d e d'.
    open_disk_wal c path mx mxb True (Inr None) True = Inr d \<and>
    e = fold (log_perform (\<lambda>ev. disk_add c None (Some ev)) (disk_ack c None CompactDone)) ops d \<and>
    disk_pending e = log_run (nat mx) (filter (op_accepted (\<lambda>ev. wc_marshal c ev \<noteq> None)) ops) [] \<and>
    open_disk_wal c path mx mxb True (Inr (Some (dw_file e))) True = Inr d' \<and>
    disk_pending d' = disk_pending e"
proof -
  have "open_disk_wal c path mx mxb True (Inr (Some (ops_file c [] @ []))) True =
      open_disk_wal c path mx mxb True (Inr None) True" by (simp add: open_disk_wal_def)
  then obtain d where d: "open_disk_wal c path mx mxb True (Inr None) True = Inr d"
    "disk_pending d = []" "wal_ok (wc_size c) (dw_mem d)" "dw_handle d = HandleOpen" "dw_file d = []"
    "wal_max (dw_mem d) = mx"
    using open_disk_wal_ops [OF assms(1) _ assms(2,3), of "[]" "[]" mxb] by auto
  have ok: "disk_ok c d"
    using d assms(1) by (auto simp: disk_ok_def intro: exI [of _ "[]"])
  define e where "e = fold (log_perform (\<lambda>ev. disk_add c None (Some ev)) (disk_ack c None CompactDone)) ops d"
  have e: "disk_ok c e" "wal_cap (dw_mem e) = nat mx"
    "disk_pending e = log_run (nat mx) (filter (op_accepted (\<lambda>ev. wc_marshal c ev \<noteq> None)) ops) []"
    using disk_log.history [OF ok, of ops] d(2,6) by (simp_all add: e_def)
  have "wal_max (dw_mem e) = mx"
    using e(1,2) assms(3) by (auto simp: disk_ok_def intro: wal_cap_eq)
  then show ?thesis
    using disk_reopen [OF e(1) assms(2), of "[]" mxb] d(1) e(3) e_def by auto
qed

theorem disk_log_survives_restart_witness:
  "\<exists>d e d'.
    open_disk_wal pair_codec ''w'' 1 0 True (Inr None) True = Inr d \<and>
    e = fold (log_perform (\<lambda>ev. disk_add pair_codec None (Some ev)) (disk_ack pair_codec None CompactDone))
      [LogAdd (wal_event 1), LogAdd (wal_event 2)] d \<and>
    disk_pending e = [wal_event 2] \<and>
    open_disk_wal pair_codec ''w'' 1 0 True (Inr (Some (dw_file e))) True = Inr d' \<and>
    disk_pending d' = disk_pending e"
proof -
  have acc: "filter (op_accepted (\<lambda>ev. wc_marshal pair_codec ev \<noteq> None))
      [LogAdd (wal_event 1), LogAdd (wal_event 2)] = [LogAdd (wal_event 1), LogAdd (wal_event 2)]"
    by (simp add: pair_codec_def)
  have "log_run (nat 1) [LogAdd (wal_event 1), LogAdd (wal_event 2)] [] = [wal_event 2]"
    by (simp add: log_add_def log_put_def re_key_def wal_event_def)
  then show ?thesis
    using disk_log_survives_restart [OF pair_codec_ok, of "''w''" 1 0
        "[LogAdd (wal_event 1), LogAdd (wal_event 2)]"] acc by simp
qed

text \<open>C16. A write that fails half way, of an addition or of an acknowledgement, leaves the
events in memory as they were; a process that then opens the file still recovers all of them.\<close>

theorem torn_write_keeps_log:
  assumes "disk_ok c d" and "wc_marshal c ev = Some body" and "n < length (add_record body)"
    and "k \<in> re_key ` set (disk_pending d)" and "m < length (ack_record k)" and "path \<noteq> ''''"
  shows "disk_pending (disk_add c (Some n) (Some ev) d) = disk_pending d \<and>
    disk_pending (disk_ack c (Some m) io k d) = disk_pending d \<and>
    (\<exists>d'. open_disk_wal c path (wal_max (dw_mem d)) mxb True
        (Inr (Some (dw_file (disk_add c (Some n) (Some ev) d)))) True = Inr d' \<and>
      disk_pending d' = disk_pending d) \<and>
    (\<exists>d'. open_disk_wal c path (wal_max (dw_mem d)) mxb True
        (Inr (Some (dw_file (disk_ack c (Some m) io k d)))) True = Inr d' \<and>
      disk_pending d' = disk_pending d)"
proof -
  have c: "codec_ok c" and h: "dw_handle d = HandleOpen" and w: "wal_ok (wc_size c) (dw_mem d)"
    and e: "\<forall>e\<in>set (disk_pending d). wc_marshal c e \<noteq> None"
    using assms(1) by (simp_all add: disk_ok_def)
  have k: "in_int64 (fst k)" "in_int64 (snd k)"
    using assms(4) e codec_okD(4,5) [OF c] by (auto simp: re_key_def)
  have f: "wal_fits (wc_size c) (wal_order (dw_mem d)) (wal_entries (dw_mem d)) (wal_bytes (dw_mem d))"
    using w by (simp add: wal_ok_def)
  have present: "map_of (wal_entries (dw_mem d)) k \<noteq> None"
    using assms(4) unfolding disk_pending_def wal_key_in_order [OF w, symmetric] wal_fits_key [OF f] .
  have a: "disk_add c (Some n) (Some ev) d = d\<lparr>dw_file := dw_file d @ take n (add_record body)\<rparr>"
    using h assms(2) by (simp add: disk_add_def wal_write_def)
  have b: "disk_ack c (Some m) io k d = d\<lparr>dw_file := dw_file d @ take m (ack_record k)\<rparr>"
    using h present by (auto simp: disk_ack_def wal_write_def)
  show ?thesis
    using disk_reopen [OF assms(1,6), of "take n (add_record body)" mxb]
      disk_reopen [OF assms(1,6), of "take m (ack_record k)" mxb]
      torn_record [OF c, of "LogAdd ev" n] torn_record [OF c, of "LogAck k" m] assms(2,3,5) k
    by (simp add: a b disk_pending_def)
qed

definition pair_disk :: disk_wal where
  "pair_disk =
     \<lparr>dw_mem = wal_put (wc_size pair_codec) (wal_event 1) (new_wal 5),
      dw_file = add_record [7], dw_handle = HandleOpen, dw_acks = 0\<rparr>"

lemma pair_disk_ok: "disk_ok pair_codec pair_disk" and pair_disk_pending: "disk_pending pair_disk = [wal_event 1]"
proof -
  note w = new_wal_ok [of "wc_size pair_codec" 5]
  have cap: "wal_cap (new_wal 5) = 5" by (simp add: new_wal_def)
  have one: "log_add 5 (wal_event 1) [] = [wal_event 1]" by (simp add: log_add_def log_put_def)
  show p: "disk_pending pair_disk = [wal_event 1]"
    using wal_put_ok [OF w, of "wal_event 1"] by (simp add: pair_disk_def disk_pending_def cap one)
  have m: "wc_marshal pair_codec (wal_event 1) = Some [7]" by (simp add: pair_codec_def)
  show "disk_ok pair_codec pair_disk"
    unfolding disk_ok_def p
    using pair_codec_ok wal_put_ok [OF w, of "wal_event 1"]
    by (auto simp: pair_disk_def cap one m intro!: exI [of _ "[LogAdd (wal_event 1)]"])
qed

theorem torn_write_keeps_log_witness:
  "disk_pending (disk_add pair_codec (Some 2) (Some (wal_event 2)) pair_disk) = [wal_event 1] \<and>
    disk_pending (disk_ack pair_codec (Some 1) CompactDone (1, 1) pair_disk) = [wal_event 1] \<and>
    (\<exists>d'. open_disk_wal pair_codec ''w'' (wal_max (dw_mem pair_disk)) 0 True
        (Inr (Some (dw_file (disk_add pair_codec (Some 2) (Some (wal_event 2)) pair_disk)))) True = Inr d' \<and>
      disk_pending d' = [wal_event 1]) \<and>
    (\<exists>d'. open_disk_wal pair_codec ''w'' (wal_max (dw_mem pair_disk)) 0 True
        (Inr (Some (dw_file (disk_ack pair_codec (Some 1) CompactDone (1, 1) pair_disk)))) True = Inr d' \<and>
      disk_pending d' = [wal_event 1])"
proof -
  have m: "wc_marshal pair_codec (wal_event 2) = Some [8, 9]" by (simp add: pair_codec_def wal_event_def)
  have k: "(1, 1) \<in> re_key ` set (disk_pending pair_disk)"
    by (simp add: pair_disk_pending re_key_def wal_event_def)
  show ?thesis
    using torn_write_keeps_log [OF pair_disk_ok m _ k, where n = 2 and m = 1 and path = "''w''" and mxb = 0
        and io = CompactDone]
    by (simp add: pair_disk_pending add_record_def ack_record_def varint_def zigzag_def uvarint.simps [of 2])
qed

text \<open>A compaction that fails when the log file is renamed or reopened keeps the events it
has, but leaves the closed handle in place: from then on every addition and acknowledgement is
dropped without an error, whatever happens.\<close>

theorem failed_compaction_silences_log:
  assumes "dw_handle d = HandleOpen" and "io = CompactRename \<or> io = CompactReopen"
  shows "snd (disk_compact c io d) = False \<and>
    disk_pending (fst (disk_compact c io d)) = disk_pending d \<and>
    fold (log_perform (\<lambda>ev. disk_add c wr (Some ev)) (disk_ack c wr' io')) ops (fst (disk_compact c io d)) =
      fst (disk_compact c io d)"
proof -
  let ?d = "fst (disk_compact c io d)"
  have h: "dw_handle ?d \<noteq> HandleOpen" and f: "snd (disk_compact c io d) = False"
    using assms by (auto simp: disk_compact_def)
  have "log_perform (\<lambda>ev. disk_add c wr (Some ev)) (disk_ack c wr' io') x ?d = ?d" for x
    by (cases x) (simp_all add: dead_handle [OF h])
  then have "fold (log_perform (\<lambda>ev. disk_add c wr (Some ev)) (disk_ack c wr' io')) ops ?d = ?d"
    by (induction ops) auto
  then show ?thesis using f by simp
qed

theorem failed_compaction_silences_log_witness:
  "disk_pending (fst (disk_compact pair_codec CompactRename pair_disk)) = [wal_event 1] \<and>
    fold (log_perform (\<lambda>ev. disk_add pair_codec None (Some ev)) (disk_ack pair_codec None CompactDone))
      [LogAdd (wal_event 2)] (fst (disk_compact pair_codec CompactRename pair_disk)) =
      fst (disk_compact pair_codec CompactRename pair_disk)"
  using failed_compaction_silences_log [of pair_disk CompactRename pair_codec None None CompactDone
      "[LogAdd (wal_event 2)]"]
  by (simp add: pair_disk_pending) (simp add: pair_disk_def)

text \<open>
  A length prefix beyond what can be allocated makes opening the log panic, although the
  comment says that a damaged tail is ignored.
\<close>

theorem huge_length_panics:
  assumes "codec_ok c" and "\<forall>x\<in>set ops. op_valid c x" and "path \<noteq> ''''"
    and "wc_max_alloc c < n" and "n < 2 ^ 64"
  shows "open_disk_wal c path mx mxb True
    (Inr (Some (ops_file c ops @ wal_record_add # uvarint n @ rest))) True = Inl ReplayPanic"
  using assms(3) by (simp add: open_disk_wal_def Let_def wal_replay_ops [OF assms(1,2)] wal_replay_huge [OF assms(4,5)])


text \<open>What is appended behind a torn addition becomes part of its body.\<close>

lemma torn_tail_replay:
  assumes "codec_ok c" and "wc_marshal c ev = Some body" and "j + length tail < length body"
  shows "wal_replay c (take (Suc (length (uvarint (length body)) + j)) (add_record body) @ tail) w = Some w"
  using assms(3) codec_okD(2,3) [OF assms(1,2)]
  by (simp add: add_record_def wal_replay.simps(2) read_uvarint_uvarint)

lemma adds_behind:
  assumes "dw_handle d = HandleOpen" and "wal_ok (wc_size c) (dw_mem d)" and "\<forall>e\<in>set evs. wc_marshal c e \<noteq> None"
    and "d' = fold (\<lambda>e. disk_add c None (Some e)) evs d"
  shows "dw_file d' = dw_file d @ concat (map (\<lambda>e. add_record (the (wc_marshal c e))) evs) \<and>
    disk_pending d' = fold (log_add (wal_cap (dw_mem d))) evs (disk_pending d) \<and> wal_max (dw_mem d') = wal_max (dw_mem d)"
  using assms
proof (induction evs arbitrary: d)
  case (Cons e es)
  obtain b where b: "wc_marshal c e = Some b" using Cons.prems(3) by auto
  note p = wal_put_ok [OF Cons.prems(2), of e]
  have d: "disk_add c None (Some e) d =
      d\<lparr>dw_file := dw_file d @ add_record b, dw_mem := wal_put (wc_size c) e (dw_mem d)\<rparr>"
    using Cons.prems(1) b by (simp add: disk_add_def wal_write_def)
  show ?case
    using Cons.IH [of "disk_add c None (Some e) d"] Cons.prems p b
    by (simp add: d disk_pending_def)
qed simp

text \<open>
  C17. A write that fails half way is never cut off the file, neither then nor when the file is
  opened again, and the records that follow it are read as its missing bytes: as long as they are
  shorter than what was missing, all of them are lost at the next start, although the log had taken
  them without an error.
\<close>

theorem torn_tail_swallows_records:
  assumes "disk_ok c d" and "path \<noteq> ''''" and "wc_marshal c ev = Some body"
    and "d1 = disk_add c (Some (Suc (length (uvarint (length body)) + j))) (Some ev) d"
    and "\<forall>e\<in>set evs. wc_marshal c e \<noteq> None"
    and "j + length (concat (map (\<lambda>e. add_record (the (wc_marshal c e))) evs)) < length body"
    and "d2 = fold (\<lambda>e. disk_add c None (Some e)) evs d1"
  shows "disk_pending d2 = fold (log_add (wal_cap (dw_mem d))) evs (disk_pending d) \<and>
    (\<exists>d'. open_disk_wal c path (wal_max (dw_mem d)) mxb True (Inr (Some (dw_file d2))) True = Inr d' \<and>
      disk_pending d' = disk_pending d)"
proof -
  let ?tail = "concat (map (\<lambda>e. add_record (the (wc_marshal c e))) evs)"
  let ?torn = "take (Suc (length (uvarint (length body)) + j)) (add_record body)"
  have c: "codec_ok c" and h: "dw_handle d = HandleOpen" and w: "wal_ok (wc_size c) (dw_mem d)"
    using assms(1) by (simp_all add: disk_ok_def)
  have d1: "d1 = d\<lparr>dw_file := dw_file d @ ?torn\<rparr>"
    using h assms(3,4) by (simp add: disk_add_def wal_write_def)
  have d2: "dw_file d2 = dw_file d @ ?torn @ ?tail"
      "disk_pending d2 = fold (log_add (wal_cap (dw_mem d))) evs (disk_pending d)"
    using adds_behind [OF _ _ assms(5,7)] h w by (simp_all add: d1 disk_pending_def)
  show ?thesis
    using disk_reopen [OF assms(1,2) torn_tail_replay [OF c assms(3,6)], of mxb] d2 by simp
qed

definition long_codec :: wal_codec where
  "long_codec =
     \<lparr>wc_marshal = (\<lambda>e. if e = wal_event 1 then Some [7] else if e = wal_event 2 then Some (replicate 20 9) else None),
      wc_unmarshal = (\<lambda>b. if b = [7] then Some (wal_event 1) else if b = replicate 20 9 then Some (wal_event 2) else None),
      wc_size = (\<lambda>e. 1), wc_max_alloc = 2 ^ 47\<rparr>"

definition fresh_disk :: disk_wal where
  "fresh_disk = \<lparr>dw_mem = new_wal 5, dw_file = [], dw_handle = HandleOpen, dw_acks = 0\<rparr>"

lemma fresh_disk_ok: "disk_ok long_codec fresh_disk" and fresh_disk_pending: "disk_pending fresh_disk = []"
proof -
  have "codec_ok long_codec"
    by (simp add: codec_ok_def long_codec_def) (simp add: wal_event_def in_int64_def eval_nat_numeral)
  moreover show p: "disk_pending fresh_disk = []" by (simp add: fresh_disk_def disk_pending_def)
  ultimately show "disk_ok long_codec fresh_disk"
    unfolding disk_ok_def p by (auto simp: fresh_disk_def new_wal_ok intro!: exI [of _ "[]"])
qed

theorem torn_tail_swallows_records_witness:
  "let d1 = disk_add long_codec (Some 5) (Some (wal_event 2)) fresh_disk;
       d2 = disk_add long_codec None (Some (wal_event 1)) d1
   in disk_pending d2 = [wal_event 1] \<and>
     (\<exists>d'. open_disk_wal long_codec ''w'' 5 0 True (Inr (Some (dw_file d2))) True = Inr d' \<and> disk_pending d' = [])"
proof -
  have m: "wc_marshal long_codec (wal_event 2) = Some (replicate 20 9)" "wc_marshal long_codec (wal_event 1) = Some [7]"
    by (simp_all add: long_codec_def wal_event_def)
  have u: "length (uvarint (length (replicate 20 (9::byte)))) = 1" "length (uvarint (length [7 :: byte])) = 1"
    by code_simp+
  have mx: "wal_max (dw_mem fresh_disk) = 5" "wal_cap (dw_mem fresh_disk) = 5" by code_simp+
  have l: "3 + length (concat (map (\<lambda>e. add_record (the (wc_marshal long_codec e))) [wal_event 1])) < length (replicate 20 (9::byte))"
    using u(2) by (simp add: m add_record_def)
  show ?thesis
    using torn_tail_swallows_records [OF fresh_disk_ok _ m(1) refl _ l refl, of "''w''" 0] u(1) m mx
    by (simp add: fresh_disk_pending log_add_def log_put_def Let_def eval_nat_numeral)
qed

end
