(* ===== verification/Codec.thy ===== *)
theory Codec
  imports EventBus GoBinary
begin

text \<open>
  The two frame formats: the signed task frame of \<open>internal/task/codec/codec.go\<close> with the
  prototype registry of \<open>internal/task/task.go\<close>, and the envelope frame of the Redis channels
  (\<open>internal/eventbus/channel/redis/encode.go\<close>). A Go string is its bytes; the protobuf library
  and the JSON form of the headers are arguments.
\<close>

section \<open>Bytes of strings\<close>

definition bytes_of :: "string \<Rightarrow> byte list" where
  "bytes_of s = map (\<lambda>c. word_of_nat (of_char c)) s"

definition string_of :: "byte list \<Rightarrow> string" where
  "string_of bs = map (\<lambda>b. char_of (unat b)) bs"

lemma char_byte: "char_of (unat (word_of_nat (of_char c) :: byte)) = c"
  by (simp add: unat_of_nat)

lemma string_of_bytes_of [simp]: "string_of (bytes_of s) = s"
  by (simp add: string_of_def bytes_of_def char_byte comp_def)

lemma length_bytes_of [simp]: "length (bytes_of s) = length s"
  by (simp add: bytes_of_def)

lemma bytes_of_inj: "bytes_of s = bytes_of t \<longleftrightarrow> s = t"
  by (metis string_of_bytes_of)

section \<open>The prototype registry\<close>

record 'm proto_lib =
  pl_name :: "'m \<Rightarrow> string"
  pl_marshal :: "'m \<Rightarrow> byte list option"
  pl_unmarshal :: "'m \<Rightarrow> byte list \<Rightarrow> 'm option"

type_synonym 'm proto_registry = "(string \<times> 'm) list"

datatype codec_error =
    NilConstructor | NilPrototype | NoProtoName | DuplicatePrototype string
  | NilProto | UnregisteredProto string | MarshalError | BadFrame | UnmarshalError string

text \<open>
  \<open>Registry.Register\<close>: the argument is the constructor (\<open>None\<close>: nil), its value the message it
  makes (\<open>None\<close>: nil).
\<close>

definition register_proto ::
  "'m proto_lib \<Rightarrow> 'm option option \<Rightarrow> 'm proto_registry \<Rightarrow> codec_error + string \<times> 'm proto_registry" where
  "register_proto lib new r =
     (case new of
        None \<Rightarrow> Inl NilConstructor
      | Some None \<Rightarrow> Inl NilPrototype
      | Some (Some msg) \<Rightarrow>
          let sig = pl_name lib msg in
          if sig = '''' then Inl NoProtoName
          else if map_of r sig \<noteq> None then Inl (DuplicatePrototype sig)
          else Inr (sig, (sig, msg) # r))"

definition new_proto :: "'m proto_registry \<Rightarrow> string \<Rightarrow> codec_error + 'm" where
  "new_proto r sig =
     (case map_of r sig of None \<Rightarrow> Inl (UnregisteredProto sig) | Some msg \<Rightarrow> Inr msg)"

definition has_proto :: "'m proto_registry \<Rightarrow> string \<Rightarrow> bool" where
  "has_proto r sig \<longleftrightarrow> map_of r sig \<noteq> None"

section \<open>The task frame\<close>

definition codec_magic :: "byte list" where
  "codec_magic = bytes_of ''SFXM''"

definition codec_version :: byte where
  "codec_version = 1"

definition codec_encode ::
  "'m proto_lib \<Rightarrow> 'm proto_registry \<Rightarrow> 'm option \<Rightarrow> codec_error + byte list" where
  "codec_encode lib r omsg =
     (case omsg of
        None \<Rightarrow> Inl NilProto
      | Some msg \<Rightarrow>
          let sig = pl_name lib msg in
          if sig = '''' then Inl NoProtoName
          else if \<not> has_proto r sig then Inl (UnregisteredProto sig)
          else (case pl_marshal lib msg of
                  None \<Rightarrow> Inl MarshalError
                | Some body \<Rightarrow>
                    Inr (codec_magic @ [codec_version] @ uvarint (length sig) @ bytes_of sig @ body)))"

definition codec_split :: "byte list \<Rightarrow> codec_error + string \<times> byte list" where
  "codec_split data =
     (if length data < 5 \<or> take 4 data \<noteq> codec_magic \<or> data ! 4 \<noteq> codec_version then Inl BadFrame
      else case read_uvarint (drop 5 data) of
          None \<Rightarrow> Inl BadFrame
        | Some (n, rest) \<Rightarrow>
            if length rest < n then Inl BadFrame
            else Inr (string_of (take n rest), drop n rest))"

definition codec_decode ::
  "'m proto_lib \<Rightarrow> 'm proto_registry \<Rightarrow> byte list \<Rightarrow> codec_error + 'm" where
  "codec_decode lib r data =
     rbind (codec_split data) (\<lambda>(sig, body).
       rbind (new_proto r sig) (\<lambda>proto.
         case pl_unmarshal lib proto body of None \<Rightarrow> Inl (UnmarshalError sig) | Some msg \<Rightarrow> Inr msg))"

definition peek_signature :: "byte list \<Rightarrow> codec_error + string" where
  "peek_signature data = rbind (codec_split data) (\<lambda>(sig, _). Inr sig)"

lemma codec_frame_parts [simp]:
  "length codec_magic = 4" "take 4 (codec_magic @ v # rest) = codec_magic"
  "(codec_magic @ v # rest) ! 4 = v" "drop 5 (codec_magic @ v # rest) = rest"
  by (simp_all add: codec_magic_def bytes_of_def)

lemma codec_split_frame:
  assumes "length sig < 2 ^ 64"
  shows "codec_split (codec_magic @ codec_version # uvarint (length sig) @ bytes_of sig @ body) =
    Inr (sig, body)"
  by (simp add: codec_split_def read_uvarint_uvarint [OF assms])

section \<open>The envelope frame\<close>

definition envelope_magic :: "byte list" where
  "envelope_magic = bytes_of ''SFXE''"

definition envelope_version :: byte where
  "envelope_version = 1"

record header_lib =
  hl_marshal :: "(string \<times> string) list \<Rightarrow> string option"
  hl_unmarshal :: "string \<Rightarrow> (string \<times> string) list option"

datatype frame_error = HeaderMarshal | BadEnvelope | Truncated string | HeaderUnmarshal

definition put_string :: "byte list \<Rightarrow> byte list" where
  "put_string s = uvarint (length s) @ s"

definition read_string :: "byte list \<Rightarrow> (byte list \<times> byte list) option" where
  "read_string src =
     (case read_uvarint src of
        None \<Rightarrow> None
      | Some (n, rest) \<Rightarrow> if length rest < n then None else Some (take n rest, drop n rest))"

definition encode_envelope :: "header_lib \<Rightarrow> byte list envelope \<Rightarrow> frame_error + byte list" where
  "encode_envelope hl e =
     (case hl_marshal hl (env_headers e) of
        None \<Rightarrow> Inl HeaderMarshal
      | Some headers \<Rightarrow>
          Inr (envelope_magic @ [envelope_version] @ put_string (bytes_of (env_topic e)) @
               put_string (bytes_of (env_key e)) @ put_string (bytes_of (env_correlation e)) @
               put_string (bytes_of (env_target e)) @ varint (env_attempt e) @
               put_string (bytes_of headers) @ put_string (env_payload e)))"

definition take_field :: "string \<Rightarrow> byte list \<Rightarrow> frame_error + byte list \<times> byte list" where
  "take_field what src = (case read_string src of None \<Rightarrow> Inl (Truncated what) | Some p \<Rightarrow> Inr p)"

definition decode_headers :: "header_lib \<Rightarrow> string \<Rightarrow> frame_error + (string \<times> string) list" where
  "decode_headers hl h =
     (if h \<noteq> '''' \<and> h \<noteq> ''null'' then
        (case hl_unmarshal hl h of None \<Rightarrow> Inl HeaderUnmarshal | Some hs \<Rightarrow> Inr hs)
      else Inr [])"

definition decode_fields :: "header_lib \<Rightarrow> byte list \<Rightarrow> string \<Rightarrow> frame_error + byte list envelope" where
  "decode_fields hl rest topic =
     rbind (take_field ''topic'' rest) (\<lambda>(t, rest).
     rbind (take_field ''key'' rest) (\<lambda>(k, rest).
     rbind (take_field ''correlation'' rest) (\<lambda>(c, rest).
     rbind (take_field ''target'' rest) (\<lambda>(g, rest).
     rbind (case read_varint rest of None \<Rightarrow> Inl (Truncated ''attempt'') | Some p \<Rightarrow> Inr p) (\<lambda>(a, rest).
     rbind (take_field ''headers'' rest) (\<lambda>(h, rest).
     rbind (decode_headers hl (string_of h)) (\<lambda>hs.
     rbind (take_field ''payload'' rest) (\<lambda>(p, _).
       Inr \<lparr>env_topic = (if t = [] then topic else string_of t), env_key = string_of k,
            env_attempt = a, env_correlation = string_of c, env_target = string_of g,
            env_headers = hs, env_payload = p\<rparr>))))))))"

definition decode_envelope :: "header_lib \<Rightarrow> byte list \<Rightarrow> string \<Rightarrow> frame_error + byte list envelope" where
  "decode_envelope hl data topic =
     (if length data < 5 \<or> take 4 data \<noteq> envelope_magic \<or> data ! 4 \<noteq> envelope_version
      then Inl BadEnvelope else decode_fields hl (drop 5 data) topic)"

section \<open>Reading what was written\<close>

lemma read_string_put:
  assumes "length s < 2 ^ 64"
  shows "read_string (put_string s @ rest) = Some (s, rest)"
  by (simp add: read_string_def put_string_def read_uvarint_uvarint [OF assms])

lemma read_string_prefix:
  assumes "length s < 2 ^ 64" and "n < length (put_string s)"
  shows "read_string (take n (put_string s)) = None"
proof (cases "n < length (uvarint (length s))")
  case True
  then show ?thesis by (simp add: read_string_def put_string_def read_uvarint_prefix)
next
  case False
  then have "n - length (uvarint (length s)) < length s" using assms(2) by (simp add: put_string_def)
  then show ?thesis
    using False by (simp add: read_string_def put_string_def read_uvarint_uvarint [OF assms(1)])
qed

lemma take_field_put:
  "length s < 2 ^ 64 \<Longrightarrow> take_field what (put_string s @ rest) = Inr (s, rest)"
  by (simp add: take_field_def read_string_put)

text \<open>A field of which only a part is there is an error, and so is a frame cut inside it.\<close>

lemma take_field_cut:
  assumes "length s < 2 ^ 64"
  shows "take_field what (take n (put_string s @ rest)) =
    (if n < length (put_string s) then Inl (Truncated what)
     else Inr (s, take (n - length (put_string s)) rest))"
  using read_string_prefix [OF assms] read_string_put [OF assms] by (simp add: take_field_def)

lemma read_varint_cut:
  assumes "in_int64 a"
  shows "read_varint (take n (varint a @ rest)) =
    (if n < length (varint a) then None else Some (a, take (n - length (varint a)) rest))"
  using read_varint_prefix [of n a] read_varint_varint [OF assms] by simp

text \<open>The body of the envelope frame, field by field.\<close>

definition envelope_fields :: "string \<Rightarrow> byte list envelope \<Rightarrow> byte list" where
  "envelope_fields headers e =
     put_string (bytes_of (env_topic e)) @ put_string (bytes_of (env_key e)) @
     put_string (bytes_of (env_correlation e)) @ put_string (bytes_of (env_target e)) @
     varint (env_attempt e) @ put_string (bytes_of headers) @ put_string (env_payload e)"

definition envelope_fits :: "string \<Rightarrow> byte list envelope \<Rightarrow> bool" where
  "envelope_fits headers e \<longleftrightarrow>
     length (env_topic e) < 2 ^ 64 \<and> length (env_key e) < 2 ^ 64 \<and>
     length (env_correlation e) < 2 ^ 64 \<and> length (env_target e) < 2 ^ 64 \<and>
     in_int64 (env_attempt e) \<and> length headers < 2 ^ 64 \<and> length (env_payload e) < 2 ^ 64"

lemma bytes_of_Nil: "bytes_of s = [] \<longleftrightarrow> s = []"
  by (simp add: bytes_of_def)

lemma decode_fields_whole:
  assumes "envelope_fits headers e" and "decode_headers hl headers = Inr (env_headers e)"
  shows "decode_fields hl (envelope_fields headers e @ rest) topic =
    Inr (e\<lparr>env_topic := (if env_topic e = '''' then topic else env_topic e)\<rparr>)"
  using assms
  by (simp add: decode_fields_def envelope_fields_def envelope_fits_def take_field_put read_varint_varint
      bytes_of_Nil)

lemma decode_fields_cut:
  assumes "envelope_fits headers e" and "n < length (envelope_fields headers e)"
  shows "\<not> is_ok (decode_fields hl (take n (envelope_fields headers e)) topic)"
proof -
  have last: "take_field what (take m (put_string s)) =
      (if m < length (put_string s) then Inl (Truncated what) else Inr (s, []))"
    if "length s < 2 ^ 64" for what m s
    using take_field_cut [OF that, of what m "[]"] by simp
  show ?thesis
    using assms unfolding decode_fields_def envelope_fields_def envelope_fits_def
    by (auto simp: take_field_cut last read_varint_cut rbind_def simp del: take_append split: sum.split)
qed

lemma envelope_frame_parts [simp]:
  "length envelope_magic = 4" "take 4 (envelope_magic @ v # rest) = envelope_magic"
  "(envelope_magic @ v # rest) ! 4 = v" "drop 5 (envelope_magic @ v # rest) = rest"
  by (simp_all add: envelope_magic_def bytes_of_def)

lemma encode_envelope_eq:
  "hl_marshal hl (env_headers e) = Some headers \<Longrightarrow>
     encode_envelope hl e = Inr (envelope_magic @ envelope_version # envelope_fields headers e)"
  by (simp add: encode_envelope_def envelope_fields_def)

section \<open>Properties\<close>

text \<open>C39. A message whose prototype has been registered reads back from its signed frame as it
was written, and its signature can be read without decoding it; the protobuf library is only
assumed to decode what it encoded.\<close>

theorem codec_roundtrip:
  assumes "register_proto lib (Some (Some p)) r = Inr (sig, r')" and "pl_name lib m = sig"
    and "pl_marshal lib m = Some body" and "pl_unmarshal lib p body = Some m" and "length sig < 2 ^ 64"
  shows "\<exists>frame. codec_encode lib r' (Some m) = Inr frame \<and> codec_decode lib r' frame = Inr m \<and>
    peek_signature frame = Inr sig"
proof -
  have "sig \<noteq> ''''" and "map_of r' sig = Some p"
    using assms(1) by (auto simp: register_proto_def Let_def split: if_splits)
  then show ?thesis
    using assms(2-4) codec_split_frame [OF assms(5), of body]
    by (simp add: codec_encode_def codec_decode_def peek_signature_def has_proto_def new_proto_def)
qed

definition toy_lib :: "nat proto_lib" where
  "toy_lib = \<lparr>pl_name = (\<lambda>_. ''t.M''), pl_marshal = (\<lambda>n. Some (uvarint n)),
     pl_unmarshal = (\<lambda>_ bs. map_option fst (read_uvarint bs))\<rparr>"

theorem codec_roundtrip_witness:
  "\<exists>frame. codec_encode toy_lib [(''t.M'', 0)] (Some 300) = Inr frame \<and>
    codec_decode toy_lib [(''t.M'', 0)] frame = Inr 300 \<and> peek_signature frame = Inr ''t.M''"
proof -
  have reg: "register_proto toy_lib (Some (Some 0)) [] = Inr (''t.M'', [(''t.M'', 0)])"
    by (simp add: register_proto_def toy_lib_def Let_def)
  have "read_uvarint (uvarint 300 @ []) = Some (300, [])" by (rule read_uvarint_uvarint) simp
  then show ?thesis
    using codec_roundtrip [OF reg, of 300 "uvarint 300"] by (simp add: toy_lib_def)
qed

text \<open>An envelope reads back from its Redis frame as it was written, whatever follows the
frame (an empty topic becomes the subscriber's), and no frame that has been cut short is read.\<close>

theorem envelope_roundtrip:
  assumes "hl_marshal hl (env_headers e) = Some headers"
    and "decode_headers hl headers = Inr (env_headers e)" and "envelope_fits headers e"
    and "encode_envelope hl e = Inr frame" and "n < length frame"
  shows "decode_envelope hl (frame @ rest) topic =
      Inr (e\<lparr>env_topic := (if env_topic e = '''' then topic else env_topic e)\<rparr>) \<and>
    \<not> is_ok (decode_envelope hl (take n frame) topic)"
proof
  have f: "frame = envelope_magic @ envelope_version # envelope_fields headers e"
    using encode_envelope_eq [OF assms(1)] assms(4) by simp
  show "decode_envelope hl (frame @ rest) topic =
      Inr (e\<lparr>env_topic := (if env_topic e = '''' then topic else env_topic e)\<rparr>)"
    using decode_fields_whole [OF assms(3,2), of rest topic] by (simp add: f decode_envelope_def)
  show "\<not> is_ok (decode_envelope hl (take n frame) topic)"
  proof (cases "n < 5")
    case True
    then show ?thesis by (simp add: decode_envelope_def min_less_iff_disj)
  next
    case False
    then obtain k where k: "n = 5 + k" by (metis le_add_diff_inverse not_less)
    have t: "take n frame = envelope_magic @ envelope_version # take k (envelope_fields headers e)"
      by (simp add: f k)
    have "k < length (envelope_fields headers e)" using assms(5) by (simp add: f k)
    then show ?thesis
      using decode_fields_cut [OF assms(3)] by (simp add: t decode_envelope_def)
  qed
qed

definition plain_headers :: header_lib where
  "plain_headers =
     \<lparr>hl_marshal = (\<lambda>hs. if hs = [] then Some ''null'' else None), hl_unmarshal = (\<lambda>_. None)\<rparr>"

definition sample_envelope :: "byte list envelope" where
  "sample_envelope =
     \<lparr>env_topic = '''', env_key = ''7'', env_attempt = -3, env_correlation = '''', env_target = ''n1:1'',
      env_headers = [], env_payload = [1, 2, 3]\<rparr>"

theorem envelope_roundtrip_witness:
  "\<exists>frame. encode_envelope plain_headers sample_envelope = Inr frame \<and>
    decode_envelope plain_headers (frame @ [255]) ''q'' = Inr (sample_envelope\<lparr>env_topic := ''q''\<rparr>) \<and>
    \<not> is_ok (decode_envelope plain_headers (take 6 frame) ''q'')"
proof -
  have h: "hl_marshal plain_headers (env_headers sample_envelope) = Some ''null''"
    by (simp add: plain_headers_def sample_envelope_def)
  note f = encode_envelope_eq [OF h]
  have len: "6 < length (envelope_magic @ envelope_version # envelope_fields ''null'' sample_envelope)"
    by (simp add: envelope_fields_def sample_envelope_def put_string_def bytes_of_def)
  have d: "decode_headers plain_headers ''null'' = Inr (env_headers sample_envelope)"
    by (simp add: decode_headers_def sample_envelope_def)
  have fits: "envelope_fits ''null'' sample_envelope"
    by (simp add: envelope_fits_def sample_envelope_def in_int64_def)
  show ?thesis
    using envelope_roundtrip [OF h d fits f len, of "[255]" "''q''"] f by (simp add: sample_envelope_def)
qed

end
