(* ===== verification/Worker.thy ===== *)
theory Worker
  imports Wal Codec "HOL-Library.Sublist"
begin

text \<open>
  The execution side (\<open>internal/worker/handler.go\<close>, \<open>internal/worker/capability.go\<close>,
  \<open>internal/worker/runtime.go\<close>): the two registries, the execution of one task with its
  result logged before it is published, the replay of unconfirmed results, and the alignment
  of the queue subscriptions. \<open>'w\<close> is the world behind the handlers and the result sink, \<open>'s\<close>
  the state of the result log, which is used through its interface.
\<close>

named_theorems worker_simps \<open>the runtime's operations on the result log\<close>

section \<open>Handlers\<close>

text \<open>\<open>task.SignatureOf\<close>.\<close>

definition signature_of :: "string \<Rightarrow> string \<Rightarrow> string" where
  "signature_of t op' = t @ '':'' @ op'"

record handler_result =
  hr_outcome :: int
  hr_payload :: content
  hr_error :: string

text \<open>\<open>ha_run\<close> gets the message and the execution budget in nanoseconds.\<close>

record 'w handler =
  ha_type :: string
  ha_operator :: string
  ha_run :: "task_message \<Rightarrow> int \<Rightarrow> 'w \<Rightarrow> (string + handler_result) \<times> 'w"

type_synonym 'w handlers = "(string \<times> 'w handler) list"

datatype registry_error = NilEntry | EmptyEntryName | DuplicateEntry string

text \<open>\<open>HandlerFunc\<close>: a nil function is an error when it is called.\<close>

definition handler_func ::
  "string \<Rightarrow> string \<Rightarrow> (task_message \<Rightarrow> int \<Rightarrow> 'w \<Rightarrow> (string + handler_result) \<times> 'w) option \<Rightarrow> 'w handler"
where
  "handler_func t op' f =
     \<lparr>ha_type = t, ha_operator = op',
      ha_run = (case f of Some g \<Rightarrow> g | None \<Rightarrow> (\<lambda>_ _ w. (Inl ''worker: nil handler function'', w)))\<rparr>"

definition register_handler :: "'w handler option \<Rightarrow> 'w handlers \<Rightarrow> registry_error + 'w handlers" where
  "register_handler oh r =
     (case oh of
        None \<Rightarrow> Inl NilEntry
      | Some h \<Rightarrow>
          if ha_type h = '''' then Inl EmptyEntryName
          else
            let sig = signature_of (ha_type h) (ha_operator h) in
            if map_of r sig \<noteq> None then Inl (DuplicateEntry sig)
            else Inr ((sig, h) # r))"

definition resolve_handler :: "'w handlers \<Rightarrow> string \<Rightarrow> string \<Rightarrow> 'w handler option" where
  "resolve_handler r t op' = map_of r (signature_of t op')"

section \<open>Capabilities\<close>

record cap_descriptor =
  cd_name :: string
  cd_description :: string
  cd_labels :: "string list"
  cd_async :: bool

record cap_request =
  cq_name :: string
  cq_payload :: content
  cq_metadata :: "(string \<times> string) list"

record cap_response =
  cs_payload :: content
  cs_error :: string

datatype cap_error = NilCapFunction | UnregisteredCap string | CapFailed string

record 'w capability =
  ca_descriptor :: cap_descriptor
  ca_invoke :: "cap_request \<Rightarrow> 'w \<Rightarrow> (cap_error + cap_response) \<times> 'w"

record 'w cap_registry =
  cg_caps :: "(string \<times> 'w capability) list"
  cg_order :: "string list"

definition empty_caps :: "'w cap_registry" where
  "empty_caps = \<lparr>cg_caps = [], cg_order = []\<rparr>"

definition cap_func ::
  "cap_descriptor \<Rightarrow> (cap_request \<Rightarrow> 'w \<Rightarrow> (cap_error + cap_response) \<times> 'w) option \<Rightarrow> 'w capability"
where
  "cap_func d f =
     \<lparr>ca_descriptor = d,
      ca_invoke = (case f of Some g \<Rightarrow> g | None \<Rightarrow> (\<lambda>_ w. (Inl NilCapFunction, w)))\<rparr>"

definition register_cap :: "'w capability option \<Rightarrow> 'w cap_registry \<Rightarrow> registry_error + 'w cap_registry" where
  "register_cap oc r =
     (case oc of
        None \<Rightarrow> Inl NilEntry
      | Some c \<Rightarrow>
          let n = cd_name (ca_descriptor c) in
          if n = '''' then Inl EmptyEntryName
          else if map_of (cg_caps r) n \<noteq> None then Inl (DuplicateEntry n)
          else Inr \<lparr>cg_caps = (n, c) # cg_caps r, cg_order = sort (cg_order r @ [n])\<rparr>)"

definition cap_get :: "'w cap_registry \<Rightarrow> string \<Rightarrow> 'w capability option" where
  "cap_get r n = map_of (cg_caps r) n"

definition cap_has :: "'w cap_registry \<Rightarrow> string \<Rightarrow> bool" where
  "cap_has r n \<longleftrightarrow> cap_get r n \<noteq> None"

text \<open>\<open>Descriptors\<close> looks up every name of the order; a missing one would be a nil
dereference (\<open>None\<close>).\<close>

definition cap_descriptors :: "'w cap_registry \<Rightarrow> cap_descriptor list option" where
  "cap_descriptors r =
     (if list_all (cap_has r) (cg_order r)
      then Some (List.map_filter (\<lambda>n. map_option ca_descriptor (cap_get r n)) (cg_order r)) else None)"

definition cap_invoke :: "'w cap_registry \<Rightarrow> cap_request \<Rightarrow> 'w \<Rightarrow> (cap_error + cap_response) \<times> 'w" where
  "cap_invoke r req w =
     (case cap_get r (cq_name req) of
        None \<Rightarrow> (Inl (UnregisteredCap (cq_name req)), w)
      | Some c \<Rightarrow> ca_invoke c req w)"

section \<open>Executing a task\<close>

record 's wal_ops =
  wo_add :: "result_event \<Rightarrow> 's \<Rightarrow> 's"
  wo_ack :: "wal_key \<Rightarrow> 's \<Rightarrow> 's"
  wo_pending :: "'s \<Rightarrow> result_event list"
  wo_high_water :: "'s \<Rightarrow> bool"

text \<open>The sink publishes one event; \<open>True\<close> is a nil error.\<close>

type_synonym 'w sink = "result_event \<Rightarrow> 'w \<Rightarrow> bool \<times> 'w"

record 'w worker =
  wk_node :: string
  wk_handlers :: "'w handlers option"
  wk_timeout :: int
  wk_sink :: "'w sink option"

definition default_exec_timeout :: int where
  "default_exec_timeout = 60 * 10 ^ 9"

definition new_worker :: "string \<Rightarrow> 'w handlers option \<Rightarrow> int \<Rightarrow> 'w sink option \<Rightarrow> 'w worker" where
  "new_worker nid hs timeout sink =
     \<lparr>wk_node = nid, wk_handlers = hs,
      wk_timeout = (if timeout \<le> 0 then default_exec_timeout else timeout), wk_sink = sink\<rparr>"

definition worker_resolve :: "'w worker \<Rightarrow> string \<Rightarrow> string \<Rightarrow> 'w handler option" where
  "worker_resolve k t op' = (case wk_handlers k of None \<Rightarrow> None | Some r \<Rightarrow> resolve_handler r t op')"

text \<open>\<open>time.Duration(ms) * time.Millisecond\<close> wraps at 64 bits.\<close>

definition exec_budget :: "'w worker \<Rightarrow> task_message \<Rightarrow> int" where
  "exec_budget k m = (if tm_timeout_ms m > 0 then to_int64 (tm_timeout_ms m * 10 ^ 6) else wk_timeout k)"

text \<open>\<open>recordAndPublish\<close>: log, publish, and confirm on success.\<close>

definition record_and_publish :: "'s wal_ops \<Rightarrow> 'w sink option \<Rightarrow> result_event \<Rightarrow> 's \<times> 'w \<Rightarrow> 's \<times> 'w" where
  "record_and_publish L sink ev st =
     (let (s, w) = st; s1 = wo_add L ev s in
      case sink of
        None \<Rightarrow> (s1, w)
      | Some f \<Rightarrow>
          (let (ok, w') = f ev w in
           (if ok then wo_ack L (re_key ev) s1 else s1, w')))"

text \<open>The result of a handler as an event; an unset outcome and an error are failures.\<close>

definition outcome_unset :: int where
  "outcome_unset = 0"

definition event_of :: "'w worker \<Rightarrow> task_message \<Rightarrow> int \<Rightarrow> result_event" where
  "event_of k m now =
     \<lparr>re_task_id = tm_task_id m, re_attempt = tm_attempt m, re_outcome = outcome_unset,
      re_result = NoContent, re_error = '''', re_source = wk_node k, re_trace = [],
      re_finished_ms = now, re_operator = tm_operator m, re_type = tm_type m\<rparr>"

definition fill_event :: "string + handler_result \<Rightarrow> int \<Rightarrow> result_event \<Rightarrow> result_event" where
  "fill_event res now ev =
     (case res of
        Inl e \<Rightarrow> ev\<lparr>re_outcome := wire_failed, re_error := e, re_finished_ms := now\<rparr>
      | Inr r \<Rightarrow>
          if hr_outcome r = outcome_unset then
            ev\<lparr>re_outcome := wire_failed, re_error := ''worker: handler returned unset outcome'',
               re_finished_ms := now\<rparr>
          else ev\<lparr>re_outcome := hr_outcome r, re_result := hr_payload r, re_error := hr_error r,
                  re_finished_ms := now\<rparr>)"

text \<open>\<open>Execute\<close>: \<open>start\<close> and \<open>finish\<close> are the two readings of the clock in milliseconds.\<close>

definition execute ::
  "'w worker \<Rightarrow> 's wal_ops \<Rightarrow> int \<Rightarrow> int \<Rightarrow> task_message \<Rightarrow> 's \<times> 'w \<Rightarrow> result_event \<times> ('s \<times> 'w)" where
  "execute k L start finish m st =
     (let ev0 = event_of k m start in
      case worker_resolve k (tm_type m) (tm_operator m) of
        None \<Rightarrow>
          (let ev = ev0\<lparr>re_outcome := wire_failed,
                        re_error := ''worker: no handler for '' @ tm_type m @ '':'' @ tm_operator m\<rparr>
           in (ev, record_and_publish L (wk_sink k) ev st))
      | Some h \<Rightarrow>
          (let (s, w) = st;
               (res, w') = ha_run h m (exec_budget k m) w;
               ev = fill_event res finish ev0
           in (ev, record_and_publish L (wk_sink k) ev (s, w'))))"

text \<open>\<open>decode\<close> and \<open>onEnvelope\<close>: the signed frame first, then the bare message.\<close>

datatype 'm wire_message = TaskWire task_message | OtherWire 'm

definition decode_task ::
  "('m wire_message proto_lib \<times> 'm wire_message proto_registry) option \<Rightarrow> (byte list \<Rightarrow> task_message option)
     \<Rightarrow> byte list \<Rightarrow> task_message option" where
  "decode_task cdc unmarshal payload =
     (case (case cdc of None \<Rightarrow> Inl BadFrame | Some (lib, r) \<Rightarrow> codec_decode lib r payload) of
        Inr (TaskWire m) \<Rightarrow> Some m
      | _ \<Rightarrow> unmarshal payload)"

datatype envelope_error = DecodeFailed | NoOutcome int

definition on_envelope ::
  "'w worker \<Rightarrow> 's wal_ops \<Rightarrow> ('m wire_message proto_lib \<times> 'm wire_message proto_registry) option
     \<Rightarrow> (byte list \<Rightarrow> task_message option) \<Rightarrow> int \<Rightarrow> int \<Rightarrow> byte list envelope \<Rightarrow> 's \<times> 'w
     \<Rightarrow> envelope_error option \<times> ('s \<times> 'w)" where
  "on_envelope k L cdc unmarshal start finish e st =
     (case decode_task cdc unmarshal (env_payload e) of
        None \<Rightarrow> (Some DecodeFailed, st)
      | Some m \<Rightarrow>
          (let (ev, st') = execute k L start finish m st in
           (if re_outcome ev = outcome_unset then Some (NoOutcome (tm_task_id m)) else None, st')))"

section \<open>Replaying unconfirmed results\<close>

fun replay_events ::
  "'s wal_ops \<Rightarrow> 'w sink \<Rightarrow> (nat \<Rightarrow> bool) \<Rightarrow> nat \<Rightarrow> result_event list \<Rightarrow> 's \<times> 'w \<Rightarrow> 's \<times> 'w" where
  "replay_events L f cancelled i [] st = st"
| "replay_events L f cancelled i (ev # evs) (s, w) =
     (if cancelled i then (s, w)
      else
        let (ok, w') = f ev w
        in replay_events L f cancelled (Suc i) evs (if ok then wo_ack L (re_key ev) s else s, w'))"

definition replay_pending :: "'w worker \<Rightarrow> 's wal_ops \<Rightarrow> (nat \<Rightarrow> bool) \<Rightarrow> 's \<times> 'w \<Rightarrow> 's \<times> 'w" where
  "replay_pending k L cancelled st =
     (case wk_sink k of
        None \<Rightarrow> st
      | Some f \<Rightarrow> replay_events L f cancelled 0 (wo_pending L (fst st)) st)"

section \<open>Queue subscriptions\<close>

text \<open>
  \<open>AssignedQueues\<close> (\<open>internal/biz/worker/queue_source.go\<close>): the queues routed to the node, the
  fallback while the view has no routes, an error when the view fails.
\<close>

definition assigned_queues ::
  "(string + (string \<times> string) list) option \<Rightarrow> string list \<Rightarrow> string \<Rightarrow> string + string list" where
  "assigned_queues view fallback nid =
     (case view of
        None \<Rightarrow> Inr fallback
      | Some (Inl e) \<Rightarrow> Inl e
      | Some (Inr routes) \<Rightarrow>
          if routes = [] then Inr fallback
          else Inr (sort (map fst (filter (\<lambda>(q, n). n = nid) routes))))"

text \<open>\<open>subscribeDesired\<close>: a failing source leaves the static queues.\<close>

definition desired_queues :: "string list \<Rightarrow> (string + string list) option \<Rightarrow> string list" where
  "desired_queues static source = (case source of Some (Inr qs) \<Rightarrow> qs | _ \<Rightarrow> static)"

text \<open>
  \<open>reconcileSubscriptions\<close>: close what is no longer wanted, then subscribe what is missing
  unless the log is at its high-water mark; \<open>can q\<close> says whether the bus accepts the
  subscription. The subscribed queues are kept as a list without repetition (the order in
  which a Go map is visited is not specified and does not matter here).
\<close>

definition reconcile_subs :: "bool \<Rightarrow> (string \<Rightarrow> bool) \<Rightarrow> string list \<Rightarrow> string list \<Rightarrow> string list" where
  "reconcile_subs paused can want subs =
     (let wanted = remdups (filter (\<lambda>q. q \<noteq> '''') want);
          kept = filter (\<lambda>q. q \<in> set wanted) subs
      in kept @ (if paused then [] else filter (\<lambda>q. q \<notin> set kept \<and> can q) wanted))"

record runtime_state =
  rs_started :: bool
  rs_subs :: "string list"

datatype start_error = NilBus | AlreadyStarted

definition runtime_start ::
  "bool \<Rightarrow> bool \<Rightarrow> (string \<Rightarrow> bool) \<Rightarrow> string list \<Rightarrow> runtime_state \<Rightarrow> start_error option \<times> runtime_state" where
  "runtime_start has_bus paused can desired r =
     (if \<not> has_bus then (Some NilBus, r)
      else if rs_started r then (Some AlreadyStarted, r)
      else (None, r\<lparr>rs_started := True, rs_subs := reconcile_subs paused can desired (rs_subs r)\<rparr>))"

definition runtime_stop :: "runtime_state \<Rightarrow> runtime_state" where
  "runtime_stop r = r\<lparr>rs_started := False, rs_subs := []\<rparr>"

definition subscribed_queues :: "runtime_state \<Rightarrow> string list" where
  "subscribed_queues r = sort (rs_subs r)"

text \<open>What the sink has taken when the events are offered one after the other.\<close>

fun taken :: "'w sink \<Rightarrow> (nat \<Rightarrow> bool) \<Rightarrow> nat \<Rightarrow> result_event list \<Rightarrow> 'w \<Rightarrow> result_event list" where
  "taken f cancelled i [] w = []"
| "taken f cancelled i (ev # evs) w =
     (if cancelled i then []
      else (if fst (f ev w) then [ev] else []) @ taken f cancelled (Suc i) evs (snd (f ev w)))"

section \<open>The runtime as a client of the log\<close>

context result_log
begin

abbreviation client_ops :: "('s \<Rightarrow> bool) \<Rightarrow> 's wal_ops" where
  "client_ops h \<equiv> \<lparr>wo_add = add, wo_ack = ack, wo_pending = pend, wo_high_water = h\<rparr>"

lemma publish_log:
  assumes "ok s" and "accept ev"
  shows "ok (fst (record_and_publish (client_ops h) sink ev (s, w))) \<and>
    cap (fst (record_and_publish (client_ops h) sink ev (s, w))) = cap s \<and>
    pend (fst (record_and_publish (client_ops h) sink ev (s, w))) =
      (if (case sink of None \<Rightarrow> False | Some f \<Rightarrow> fst (f ev w))
       then log_ack (re_key ev) (log_add (cap s) ev (pend s)) else log_add (cap s) ev (pend s))"
  using ok_add [OF assms(1), of ev] ok_ack [of "add ev s" "re_key ev"] assms
  by (auto simp: record_and_publish_def pend_add pend_ack Let_def split: option.split prod.split)

lemma replay_log:
  assumes "ok s" and "distinct (map re_key evs)"
  shows "ok (fst (replay_events (client_ops h) f cancelled i evs (s, w))) \<and>
    cap (fst (replay_events (client_ops h) f cancelled i evs (s, w))) = cap s \<and>
    pend (fst (replay_events (client_ops h) f cancelled i evs (s, w))) =
      filter (\<lambda>e. re_key e \<notin> re_key ` set (taken f cancelled i evs w)) (pend s)"
  using assms
proof (induction evs arbitrary: s i w)
  case (Cons ev evs)
  let ?s = "if fst (f ev w) then ack (re_key ev) s else s"
  have s: "ok ?s" "cap ?s = cap s"
    "pend ?s = (if fst (f ev w) then log_ack (re_key ev) (pend s) else pend s)"
    using ok_ack [OF Cons.prems(1)] pend_ack [OF Cons.prems(1)] Cons.prems(1) by auto
  show ?case
  proof (cases "cancelled i")
    case True
    then show ?thesis using Cons.prems by simp
  next
    case False
    have "replay_events (client_ops h) f cancelled i (ev # evs) (s, w) =
        replay_events (client_ops h) f cancelled (Suc i) evs (?s, snd (f ev w))"
      using False by (cases "f ev w") simp
    moreover have "distinct (map re_key evs)" using Cons.prems(2) by simp
    ultimately show ?thesis
      using Cons.IH [OF s(1), of "Suc i" "snd (f ev w)"] s False
      by (auto simp: log_ack_def intro: filter_cong)
  qed
qed simp

end

text \<open>The two logs as the runtime sees them.\<close>

definition mem_wal_ops :: "(result_event \<Rightarrow> int) \<Rightarrow> wal wal_ops" where
  "mem_wal_ops sz =
     \<lparr>wo_add = wal_put sz, wo_ack = wal_ack sz, wo_pending = wal_pending, wo_high_water = wal_high_water\<rparr>"

definition disk_wal_ops :: "wal_codec \<Rightarrow> disk_wal wal_ops" where
  "disk_wal_ops c =
     \<lparr>wo_add = (\<lambda>ev. disk_add c None (Some ev)), wo_ack = disk_ack c None CompactDone,
      wo_pending = disk_pending, wo_high_water = (\<lambda>d. wal_high_water (dw_mem d))\<rparr>"

definition handled_world :: "'w worker \<Rightarrow> task_message \<Rightarrow> 'w \<Rightarrow> 'w" where
  "handled_world k m w =
     (case worker_resolve k (tm_type m) (tm_operator m) of
        None \<Rightarrow> w | Some h \<Rightarrow> snd (ha_run h m (exec_budget k m) w))"

definition sink_takes :: "'w worker \<Rightarrow> result_event \<Rightarrow> 'w \<Rightarrow> bool" where
  "sink_takes k ev w = (case wk_sink k of None \<Rightarrow> False | Some f \<Rightarrow> fst (f ev w))"

lemma execute_eq:
  assumes "execute k L start finish m (s, w) = (ev, st)"
  shows "st = record_and_publish L (wk_sink k) ev (s, handled_world k m w)"
    and "re_outcome ev \<noteq> outcome_unset" and "re_key ev = (tm_task_id m, tm_attempt m)"
    and "re_source ev = wk_node k"
  using assms
  by (auto simp: execute_def handled_world_def fill_event_def event_of_def re_key_def wire_failed_def
      outcome_unset_def Let_def split: option.splits sum.splits prod.splits if_splits)

section \<open>Properties\<close>


definition taking_worker :: "bool \<Rightarrow> result_event list worker" where
  "taking_worker takes =
     new_worker '''' (Some [(signature_of ''t'' '''',
       handler_func ''t'' '''' (Some (\<lambda>_ _ w. (Inr \<lparr>hr_outcome = wire_succeeded, hr_payload = NoContent, hr_error = ''''\<rparr>, w))))])
       0 (Some (\<lambda>ev w. if takes then (True, w @ [ev]) else (False, w)))"

definition wal_task :: "int \<Rightarrow> task_message" where
  "wal_task i =
     \<lparr>tm_task_id = i, tm_attempt = 1, tm_type = ''t'', tm_operator = '''', tm_payload = NoContent,
      tm_priority = 50, tm_deadline_ms = 0, tm_timeout_ms = 0, tm_trace = [], tm_channel = ''c'',
      tm_vpc = '''', tm_node = '''', tm_label = '''', tm_hash_bucket = 0, tm_idempotency_key = '''',
      tm_origin_node = '''', tm_visited = [], tm_created_ms = 0\<rparr>"


lemma taken_subset: "set (taken f cancelled i evs w) \<subseteq> set evs"
  by (induction evs arbitrary: i w) (auto split: if_splits)

lemma taken_subseq: "subseq (taken f cancelled i evs w) evs"
  by (induction evs arbitrary: i w) auto

lemma taken_all: "(\<And>e w. fst (f e w)) \<Longrightarrow> (\<And>i. \<not> cancelled i) \<Longrightarrow> taken f cancelled i evs w = evs"
  by (induction evs arbitrary: i w) auto

lemma key_inj_filter:
  assumes "distinct (map re_key l)" and "set t \<subseteq> set l"
  shows "filter (\<lambda>e. re_key e \<notin> re_key ` set t) l = filter (\<lambda>e. e \<notin> set t) l"
proof (rule filter_cong)
  fix e assume "e \<in> set l"
  then show "(re_key e \<notin> re_key ` set t) = (e \<notin> set t)"
    using assms by (auto simp: distinct_map inj_on_def)
qed simp

text \<open>A replay offers the unconfirmed events to the sink in their order and removes exactly
those it has taken, even when it is cancelled part-way; the others stay in the log and are
recovered by a process that opens the file afterwards. When the sink takes everything and the
replay is not cancelled, nothing is left.\<close>

theorem replay_removes_taken:
  assumes "disk_ok c d" and "wk_sink k = Some f" and "path \<noteq> ''''"
  shows "subseq (taken f cancelled 0 (disk_pending d) w) (disk_pending d) \<and>
    disk_pending (fst (replay_pending k (disk_wal_ops c) cancelled (d, w))) =
      filter (\<lambda>e. e \<notin> set (taken f cancelled 0 (disk_pending d) w)) (disk_pending d) \<and>
    (\<exists>r. open_disk_wal c path (wal_max (dw_mem d)) mxb True
        (Inr (Some (dw_file (fst (replay_pending k (disk_wal_ops c) cancelled (d, w)))))) True = Inr r \<and>
      disk_pending r = disk_pending (fst (replay_pending k (disk_wal_ops c) cancelled (d, w)))) \<and>
    ((\<forall>e v. fst (f e v)) \<and> (\<forall>i. \<not> cancelled i) \<longrightarrow>
      disk_pending (fst (replay_pending k (disk_wal_ops c) cancelled (d, w))) = [])"
proof -
  let ?d = "fst (replay_pending k (disk_wal_ops c) cancelled (d, w))"
  have w: "wal_ok (wc_size c) (dw_mem d)" using assms(1) by (simp add: disk_ok_def)
  have dist: "distinct (map re_key (disk_pending d))"
    using wal_pending_ok [OF w] by (simp add: disk_pending_def)
  have r: "?d = fst (replay_events (disk_wal_ops c) f cancelled 0 (disk_pending d) (d, w))"
    by (simp add: replay_pending_def assms(2) disk_wal_ops_def)
  note p = disk_log.replay_log [OF assms(1) dist, of "\<lambda>d. wal_high_water (dw_mem d)" f cancelled 0 w,
      folded disk_wal_ops_def r]
  have ok: "disk_ok c ?d" and cap: "wal_cap (dw_mem ?d) = wal_cap (dw_mem d)" using p by simp_all
  have mx: "wal_max (dw_mem ?d) = wal_max (dw_mem d)"
    using ok w cap by (auto simp: disk_ok_def wal_ok_def)
  have pend: "disk_pending ?d = filter (\<lambda>e. e \<notin> set (taken f cancelled 0 (disk_pending d) w)) (disk_pending d)"
    using p key_inj_filter [OF dist taken_subset, of f cancelled 0 w] by simp
  moreover have "disk_pending ?d = []" if "(\<forall>e v. fst (f e v)) \<and> (\<forall>i. \<not> cancelled i)"
    using pend taken_all [of f cancelled 0 "disk_pending d" w] that by simp
  ultimately show ?thesis
    using disk_reopen [OF ok assms(3), of "[]" mxb] taken_subseq by (simp add: mx)
qed

theorem replay_removes_taken_witness:
  "disk_pending (fst (replay_pending (taking_worker True) (disk_wal_ops pair_codec) (\<lambda>_. False) (pair_disk, []))) = []"
proof -
  have k: "wk_sink (taking_worker True) = Some (\<lambda>ev w. (True, w @ [ev]))"
    by (simp add: taking_worker_def new_worker_def)
  have p: "''w'' \<noteq> ''''" by simp
  show ?thesis
    using replay_removes_taken [where mxb = 0, OF pair_disk_ok k p, of "\<lambda>_. False" "[]",
        THEN conjunct2, THEN conjunct2, THEN conjunct2] by simp
qed

text \<open>Aligning the subscriptions keeps them free of repetition and of unwanted queues, never
closes a wanted one, opens nothing while the log is at its high-water mark, and otherwise
leaves every wanted queue subscribed that was so before or that the bus accepts; doing it again
changes nothing.\<close>

theorem subscriptions_converge:
  assumes "distinct subs"
  shows "distinct (reconcile_subs paused can want subs) \<and>
    set (reconcile_subs paused can want subs) =
      {q \<in> set want - {''''}. q \<in> set subs \<or> \<not> paused \<and> can q} \<and>
    reconcile_subs paused can want (reconcile_subs paused can want subs) =
      reconcile_subs paused can want subs"
proof -
  let ?r = "reconcile_subs paused can want subs"
  have s: "set ?r = {q \<in> set want - {''''}. q \<in> set subs \<or> \<not> paused \<and> can q}"
    by (auto simp: reconcile_subs_def Let_def)
  have a: "filter (\<lambda>q. q \<in> set (remdups (filter (\<lambda>q. q \<noteq> '''') want))) ?r = ?r"
    by (rule filter_True) (use s in auto)
  have b: "filter (\<lambda>q. q \<notin> set ?r \<and> can q) (remdups (filter (\<lambda>q. q \<noteq> '''') want)) = []" if "\<not> paused"
    by (rule filter_False) (use s that in auto)
  have "reconcile_subs paused can want ?r = ?r"
    unfolding reconcile_subs_def [of paused can want ?r] Let_def a using b by simp
  moreover have "distinct ?r" using assms by (auto simp: reconcile_subs_def Let_def)
  ultimately show ?thesis using s by simp
qed

theorem subscriptions_converge_witness:
  "reconcile_subs False (\<lambda>q. q \<noteq> ''c'') [''b'', ''c'', ''b''] [''a''] = [''b''] \<and>
    reconcile_subs False (\<lambda>q. q \<noteq> ''c'') [''b'', ''c'', ''b''] [''b''] = [''b'']"
proof -
  have r: "reconcile_subs False (\<lambda>q. q \<noteq> ''c'') [''b'', ''c'', ''b''] [''a''] = [''b'']"
    by (simp add: reconcile_subs_def Let_def)
  have "distinct [''a'']" by simp
  from subscriptions_converge [OF this, of False "\<lambda>q. q \<noteq> ''c''" "[''b'', ''c'', ''b'']"]
  show ?thesis unfolding r by blast
qed

end
