(* ===== verification/Forward.thy ===== *)
theory Forward
  imports Cluster
begin

text \<open>
  Relaying an RPC between nodes (\<open>internal/biz/forward/forward.go\<close>). A handler works on the
  world \<open>'w\<close>; the network is the map from an address to the server that listens there.
\<close>

section \<open>Visited lists\<close>

text \<open>\<open>strings.Split(s, ",")\<close>.\<close>

fun split_comma :: "string \<Rightarrow> string list" where
  "split_comma [] = [[]]"
| "split_comma (c # cs) =
     (if c = CHR '','' then [] # split_comma cs
      else (case split_comma cs of x # xs \<Rightarrow> (c # x) # xs | [] \<Rightarrow> [[c]]))"

definition split_visited :: "string \<Rightarrow> string list" where
  "split_visited s = (if s = '''' then [] else split_comma s)"

fun join_strings :: "string list \<Rightarrow> string" where
  "join_strings [] = ''''"
| "join_strings [s] = s"
| "join_strings (s # t # ss) = s @ '','' @ join_strings (t # ss)"

section \<open>Requests, registries and servers\<close>

type_synonym headers = "(string \<times> string) list"

record 'p fwd_request =
  fq_method :: string
  fq_target :: string
  fq_payload :: 'p
  fq_headers :: headers
  fq_visited :: "string list"
  fq_ttl :: int

record 'p fwd_response =
  fr_payload :: 'p
  fr_served_by :: string
  fr_error :: string

datatype fwd_error =
    EmptyMethod | NilFwdHandler | DuplicateMethod string
  | NoFwdHandler string | FwdLoop string | NoRouter string | TtlExhausted string
  | EmptyTarget | NoClusterView string | UnknownTarget string | FwdDialFailed string
  | RemoteError string | HandlerFailed string

type_synonym ('p, 'w) fwd_handler = "'p \<Rightarrow> headers \<Rightarrow> 'w \<Rightarrow> (string + 'p) \<times> 'w"
type_synonym ('p, 'w) fwd_registry = "(string \<times> ('p, 'w) fwd_handler) list"

definition register_method ::
  "string \<Rightarrow> ('p, 'w) fwd_handler option \<Rightarrow> ('p, 'w) fwd_registry \<Rightarrow> fwd_error + ('p, 'w) fwd_registry" where
  "register_method m oh r =
     (if m = '''' then Inl EmptyMethod
      else case oh of
          None \<Rightarrow> Inl NilFwdHandler
        | Some h \<Rightarrow> if map_of r m \<noteq> None then Inl (DuplicateMethod m) else Inr ((m, h) # r))"

definition method_handler :: "('p, 'w) fwd_registry \<Rightarrow> string \<Rightarrow> ('p, 'w) fwd_handler option" where
  "method_handler r m = map_of r m"

definition handle_method ::
  "('p, 'w) fwd_registry \<Rightarrow> string \<Rightarrow> 'p \<Rightarrow> headers \<Rightarrow> 'w \<Rightarrow> (fwd_error + 'p) \<times> 'w" where
  "handle_method r m p hs w =
     (case method_handler r m of
        None \<Rightarrow> (Inl (NoFwdHandler m), w)
      | Some h \<Rightarrow>
          (let (res, w') = h p hs w in
           (case res of Inl e \<Rightarrow> Inl (HandlerFailed e) | Inr q \<Rightarrow> Inr q, w')))"

definition methods :: "('p, 'w) fwd_registry \<Rightarrow> string list" where
  "methods r = sort (map fst r)"

text \<open>The client side: who we are, how nodes are resolved, the hop budget.\<close>

record forwarder =
  fw_nodes :: "(string \<Rightarrow> cluster_node option) option"
  fw_self :: string
  fw_max_hops :: int

definition new_forwarder :: "(string \<Rightarrow> cluster_node option) option \<Rightarrow> string \<Rightarrow> int \<Rightarrow> forwarder" where
  "new_forwarder nodes self hops =
     \<lparr>fw_nodes = nodes, fw_self = self, fw_max_hops = (if hops \<le> 0 then 3 else hops)\<rparr>"

definition header :: "string \<Rightarrow> headers \<Rightarrow> string" where
  "header k hs = (case map_of hs k of None \<Rightarrow> '''' | Some v \<Rightarrow> v)"

definition visited_header :: string where
  "visited_header = ''forward.visited''"

text \<open>\<open>Forwarder.Forward\<close> up to the call: the address and the request it sends.\<close>

definition forward_request ::
  "forwarder \<Rightarrow> string \<Rightarrow> string \<Rightarrow> 'p \<Rightarrow> headers \<Rightarrow> int \<Rightarrow> fwd_error + string \<times> 'p fwd_request" where
  "forward_request f target m p hs ttl =
     (if target = '''' then Inl EmptyTarget
      else case fw_nodes f of
          None \<Rightarrow> Inl (NoClusterView target)
        | Some resolve \<Rightarrow>
            (case resolve target of
               None \<Rightarrow> Inl (UnknownTarget target)
             | Some n \<Rightarrow>
                 if nd_address n = '''' then Inl (UnknownTarget target)
                 else Inr (nd_address n,
                   \<lparr>fq_method = m, fq_target = target, fq_payload = p, fq_headers = hs,
                    fq_visited = split_visited (header visited_header hs) @ [fw_self f],
                    fq_ttl = (if ttl \<le> 0 then to_int32 (fw_max_hops f) else ttl)\<rparr>)))"

text \<open>What the client makes of the reply.\<close>

definition forward_reply :: "fwd_error + 'p fwd_response \<Rightarrow> fwd_error + 'p" where
  "forward_reply r =
     rbind r (\<lambda>resp. if fr_error resp \<noteq> '''' then Inl (RemoteError (fr_error resp)) else Inr (fr_payload resp))"

record ('p, 'w) fwd_server =
  fs_registry :: "('p, 'w) fwd_registry option"
  fs_router :: "forwarder option"
  fs_self :: string

text \<open>
  \<open>Server.Forward\<close>: refuse, serve with a local handler, or relay with the given headers and
  budget.
\<close>

datatype ('p, 'w) fwd_decision =
    Refuse fwd_error
  | ServeLocal "('p, 'w) fwd_handler"
  | Relay forwarder headers int

definition decide_forward :: "('p, 'w) fwd_server \<Rightarrow> 'p fwd_request \<Rightarrow> ('p, 'w) fwd_decision" where
  "decide_forward s q =
     (if fs_self s \<in> set (fq_visited q) then Refuse (FwdLoop (fs_self s))
      else case (case fs_registry s of None \<Rightarrow> None | Some r \<Rightarrow> method_handler r (fq_method q)) of
          Some h \<Rightarrow> ServeLocal h
        | None \<Rightarrow>
            if fq_target q \<noteq> '''' \<and> fq_target q \<noteq> fs_self s then
              (case fs_router s of
                 None \<Rightarrow> Refuse (NoRouter (fq_method q))
               | Some f \<Rightarrow>
                   if fq_ttl q \<le> 0 then Refuse (TtlExhausted (fq_method q))
                   else Relay f
                     ((visited_header, join_strings (fq_visited q @ [fs_self s])) #
                      filter (\<lambda>(k, _). k \<noteq> visited_header) (fq_headers q))
                     (fq_ttl q - 1))
            else Refuse (NoFwdHandler (fq_method q)))"

section \<open>A network of servers\<close>

type_synonym ('p, 'w) network = "string \<Rightarrow> ('p, 'w) fwd_server option"

text \<open>
  A call to an address, served there or relayed from server to server. The fuel bounds the
  number of servers in the chain; \<open>None\<close> means that it was not enough.
\<close>

fun net_call ::
  "nat \<Rightarrow> ('p, 'w) network \<Rightarrow> string \<Rightarrow> 'p fwd_request \<Rightarrow> 'w \<Rightarrow> ((fwd_error + 'p fwd_response) \<times> 'w) option"
where
  "net_call 0 net addr q w = None"
| "net_call (Suc n) net addr q w =
     (case net addr of
        None \<Rightarrow> Some (Inl (FwdDialFailed addr), w)
      | Some s \<Rightarrow>
          (case decide_forward s q of
             Refuse e \<Rightarrow> Some (Inl e, w)
           | ServeLocal h \<Rightarrow>
               (let (res, w') = h (fq_payload q) (fq_headers q) w in
                Some (case res of
                        Inl e \<Rightarrow> Inl (HandlerFailed e)
                      | Inr p \<Rightarrow> Inr \<lparr>fr_payload = p, fr_served_by = fs_self s, fr_error = ''''\<rparr>, w'))
           | Relay f hs ttl \<Rightarrow>
               (case forward_request f (fq_target q) (fq_method q) (fq_payload q) hs ttl of
                  Inl e \<Rightarrow> Some (Inl e, w)
                | Inr (addr', q') \<Rightarrow>
                    (case net_call n net addr' q' w of
                       None \<Rightarrow> None
                     | Some (r, w') \<Rightarrow>
                         Some (rbind (forward_reply r)
                           (\<lambda>p. Inr \<lparr>fr_payload = p, fr_served_by = fq_target q, fr_error = ''''\<rparr>), w')))))"

section \<open>Visited lists survive the header\<close>

definition comma_free :: "string \<Rightarrow> bool" where
  "comma_free s \<longleftrightarrow> CHR '','' \<notin> set s"

lemma split_comma_ne [simp]: "split_comma s \<noteq> []"
  by (induction s) (auto split: list.split)

lemma split_comma_free: "x \<in> set (split_comma s) \<Longrightarrow> comma_free x"
proof (induction s arbitrary: x)
  case (Cons c cs)
  then show ?case by (cases "split_comma cs") (auto simp: comma_free_def split: if_splits)
qed (simp add: comma_free_def)

lemma split_comma_id: "comma_free s \<Longrightarrow> split_comma s = [s]"
  by (induction s) (auto simp: comma_free_def)

lemma split_comma_append: "split_comma (s @ CHR '','' # t) = split_comma s @ split_comma t"
proof (induction s)
  case (Cons c s)
  then show ?case by (cases "split_comma s") auto
qed simp

lemma split_join: "xs \<noteq> [] \<Longrightarrow> split_comma (join_strings xs) = concat (map split_comma xs)"
  by (induction xs rule: join_strings.induct) (simp_all add: split_comma_append)

text \<open>An identifier without a comma is found again; one with a comma never is.\<close>

lemma visited_kept:
  assumes "x \<in> set xs" and "comma_free x" and "x \<noteq> ''''"
  shows "x \<in> set (split_visited (join_strings xs))"
proof -
  have "xs \<noteq> []" using assms(1) by auto
  moreover have "join_strings xs \<noteq> ''''"
  proof
    assume "join_strings xs = ''''"
    then show False using assms(1,3) by (cases xs rule: join_strings.cases) auto
  qed
  ultimately show ?thesis
    using assms split_comma_id [OF assms(2)] by (auto simp: split_visited_def split_join intro!: bexI [of _ x])
qed

lemma visited_comma_free: "x \<in> set (split_visited s) \<Longrightarrow> comma_free x"
  by (auto simp: split_visited_def split_comma_free split: if_splits)

section \<open>Properties\<close>

text \<open>A network whose servers and their clients carry identifiers of a given set.\<close>

definition net_ids :: "('p, 'w) network \<Rightarrow> string set \<Rightarrow> bool" where
  "net_ids net ids \<longleftrightarrow>
     (\<forall>addr s. net addr = Some s \<longrightarrow>
        fs_self s \<in> ids \<and> (\<forall>f. fs_router s = Some f \<longrightarrow> fw_self f = fs_self s))"

lemma forward_request_visited:
  assumes "forward_request f target m p ((visited_header, join_strings (vs @ [x])) # hs) ttl = Inr (addr, q)"
  shows "fq_visited q = split_visited (join_strings (vs @ [x])) @ [fw_self f]" and "fq_target q = target"
    and "fq_ttl q = (if ttl \<le> 0 then to_int32 (fw_max_hops f) else ttl)"
  using assms
  by (auto simp: forward_request_def header_def split: if_splits option.splits)

lemma decide_relay:
  assumes "decide_forward s q = Relay f hs ttl"
  shows "fs_self s \<notin> set (fq_visited q)" and "fs_router s = Some f"
    and "\<exists>rest. hs = (visited_header, join_strings (fq_visited q @ [fs_self s])) # rest"
    and "ttl = fq_ttl q - 1"
  using assms by (auto simp: decide_forward_def split: if_splits option.splits)

lemma relay_progress:
  assumes "net_ids net ids" and "finite ids" and "\<forall>x\<in>ids. x \<noteq> '''' \<and> comma_free x"
    and "net addr = Some s" and "decide_forward s q = Relay f hs ttl"
    and "forward_request f (fq_target q) (fq_method q) (fq_payload q) hs ttl = Inr (addr', q')"
  shows "card (ids - set (fq_visited q')) < card (ids - set (fq_visited q))"
proof (rule psubset_card_mono)
  note d = decide_relay [OF assms(5)]
  obtain rest where hs: "hs = (visited_header, join_strings (fq_visited q @ [fs_self s])) # rest"
    using d(3) by blast
  have v: "fq_visited q' = split_visited (join_strings (fq_visited q @ [fs_self s])) @ [fw_self f]"
    by (rule forward_request_visited(1) [OF assms(6) [unfolded hs]])
  have self: "fs_self s \<in> ids" "fw_self f = fs_self s" using assms(1,4) d(2) by (auto simp: net_ids_def)
  have "x \<in> set (fq_visited q')" if "x \<in> ids" "x \<in> set (fq_visited q) \<union> {fs_self s}" for x
    using that assms(3) visited_kept [of x "fq_visited q @ [fs_self s]"] unfolding v by auto
  then show "ids - set (fq_visited q') \<subset> ids - set (fq_visited q)" using d(1) self by blast
  show "finite (ids - set (fq_visited q))" using assms(2) by simp
qed

text \<open>C33. In every network whose node identifiers are non-empty and contain no comma, whatever
the cluster views say, a forwarded call is answered: the chain of servers ends after at most
as many of them as there are nodes that the request has not visited, plus one.\<close>

theorem forwarding_terminates:
  assumes "net_ids net ids" and "finite ids" and "\<forall>x\<in>ids. x \<noteq> '''' \<and> comma_free x"
    and "card (ids - set (fq_visited q)) < n"
  shows "\<exists>r w'. net_call n net addr q w = Some (r, w')"
  using assms(4)
proof (induction n arbitrary: addr q w)
  case (Suc n)
  show ?case
  proof (cases "net addr")
    case (Some s)
    show ?thesis
    proof (cases "decide_forward s q")
      case (Relay f hs ttl)
      show ?thesis
      proof (cases "forward_request f (fq_target q) (fq_method q) (fq_payload q) hs ttl")
        case (Inr p)
        then obtain addr' q' where p: "forward_request f (fq_target q) (fq_method q) (fq_payload q) hs ttl = Inr (addr', q')"
          by (cases p) auto
        have "card (ids - set (fq_visited q')) < n"
          using relay_progress [OF assms(1-3) Some Relay p] Suc.prems by simp
        then obtain r w' where "net_call n net addr' q' w = Some (r, w')" using Suc.IH by blast
        then show ?thesis using Some Relay p by simp
      qed (use Some Relay in simp)
    qed (use Some in \<open>auto split: prod.split\<close>)
  qed simp
qed simp

text \<open>A small network: one server forwards to the second, which serves the method.\<close>

definition echo :: "(nat, nat) fwd_handler" where
  "echo p hs w = (Inr (p + 1), w + 1)"

definition relay_node :: "string \<Rightarrow> string \<Rightarrow> cluster_node" where
  "relay_node i addr = zero_node\<lparr>nd_id := i, nd_address := addr\<rparr>"

definition relay_net :: "(nat, nat) network" where
  "relay_net addr =
     (if addr = ''a'' then
        Some \<lparr>fs_registry = None, fs_router = Some (new_forwarder (Some (\<lambda>i. Some (relay_node i ''b''))) ''n1'' 3),
              fs_self = ''n1''\<rparr>
      else if addr = ''b'' then
        Some \<lparr>fs_registry = Some [(''m'', echo)], fs_router = None, fs_self = ''n2''\<rparr>
      else None)"

definition relay_query :: "nat fwd_request" where
  "relay_query =
     \<lparr>fq_method = ''m'', fq_target = ''n2'', fq_payload = 4, fq_headers = [], fq_visited = [''n0''], fq_ttl = 1\<rparr>"

theorem forwarding_terminates_witness:
  "(\<exists>r w'. net_call 3 relay_net ''a'' relay_query 0 = Some (r, w')) \<and>
    net_call 3 relay_net ''a'' relay_query 0 =
      Some (Inr \<lparr>fr_payload = 5, fr_served_by = ''n2'', fr_error = ''''\<rparr>, 1)"
proof
  have "net_ids relay_net {''n1'', ''n2''}"
    by (auto simp: net_ids_def relay_net_def new_forwarder_def split: if_splits)
  from forwarding_terminates [OF this, of relay_query 3 "''a''" 0]
  show "\<exists>r w'. net_call 3 relay_net ''a'' relay_query 0 = Some (r, w')"
    by (simp add: comma_free_def relay_query_def)
  show "net_call 3 relay_net ''a'' relay_query 0 =
      Some (Inr \<lparr>fr_payload = 5, fr_served_by = ''n2'', fr_error = ''''\<rparr>, 1)"
    by code_simp
qed

text \<open>Two servers whose views send every target to the other one.\<close>

definition pingpong_net :: "string \<Rightarrow> string \<Rightarrow> int \<Rightarrow> ('p, 'w) network" where
  "pingpong_net a b hops addr =
     (if addr = ''A'' then
        Some \<lparr>fs_registry = None, fs_router = Some (new_forwarder (Some (\<lambda>i. Some (relay_node i ''B''))) a hops),
              fs_self = a\<rparr>
      else if addr = ''B'' then
        Some \<lparr>fs_registry = None, fs_router = Some (new_forwarder (Some (\<lambda>i. Some (relay_node i ''A''))) b hops),
              fs_self = b\<rparr>
      else None)"

lemma pingpong_at:
  "pingpong_net a b hops ''A'' = Some \<lparr>fs_registry = None,
     fs_router = Some (new_forwarder (Some (\<lambda>i. Some (relay_node i ''B''))) a hops), fs_self = a\<rparr>"
  "pingpong_net a b hops ''B'' = Some \<lparr>fs_registry = None,
     fs_router = Some (new_forwarder (Some (\<lambda>i. Some (relay_node i ''A''))) b hops), fs_self = b\<rparr>"
  by (simp_all add: pingpong_net_def)

lemma pingpong_step:
  assumes "t \<noteq> ''''" and "t \<noteq> x" and "0 < fq_ttl q" and "fq_target q = t"
    and "x \<notin> set (fq_visited q)" and "addr \<noteq> ''''" and "in_int32 hops"
  shows "\<exists>hs q'. decide_forward \<lparr>fs_registry = None,
        fs_router = Some (new_forwarder (Some (\<lambda>i. Some (relay_node i addr))) x hops), fs_self = x\<rparr> q =
      Relay (new_forwarder (Some (\<lambda>i. Some (relay_node i addr))) x hops) hs (fq_ttl q - 1) \<and>
    forward_request (new_forwarder (Some (\<lambda>i. Some (relay_node i addr))) x hops) (fq_target q)
      (fq_method q) (fq_payload q) hs (fq_ttl q - 1) = Inr (addr, q') \<and>
    fq_target q' = t \<and> 0 < fq_ttl q' \<and> (\<forall>v\<in>set (fq_visited q'). comma_free v \<or> v = x)"
  using assms
  by (auto simp: decide_forward_def forward_request_def new_forwarder_def relay_node_def header_def
      to_int32_id dest: visited_comma_free)
    (simp add: to_int32_def)

lemma pingpong_half:
  fixes q :: "'p fwd_request" and net :: "('p, 'w) network"
  assumes "net addr = Some \<lparr>fs_registry = None,
      fs_router = Some (new_forwarder (Some (\<lambda>i. Some (relay_node i addr'))) x hops), fs_self = x\<rparr>"
    and "\<not> comma_free y" and "x \<noteq> y" and "t \<noteq> ''''" and "t \<noteq> x" and "addr' \<noteq> ''''" and "in_int32 hops"
    and "\<And>q' :: 'p fwd_request. fq_target q' = t \<Longrightarrow> 0 < fq_ttl q' \<Longrightarrow> y \<notin> set (fq_visited q') \<Longrightarrow>
      net_call n net addr' q' w = None"
    and "fq_target q = t" and "0 < fq_ttl q" and "x \<notin> set (fq_visited q)"
  shows "net_call (Suc n) net addr q w = None"
proof -
  let ?f = "new_forwarder (Some (\<lambda>i. Some (relay_node i addr'))) x hops"
  obtain hs q' where s:
    "decide_forward \<lparr>fs_registry = None, fs_router = Some ?f, fs_self = x\<rparr> q =
      (Relay ?f hs (fq_ttl q - 1) :: ('p, 'w) fwd_decision)"
    "forward_request ?f (fq_target q) (fq_method q) (fq_payload q) hs (fq_ttl q - 1) = Inr (addr', q')"
    "fq_target q' = t" "0 < fq_ttl q'" "\<forall>v\<in>set (fq_visited q'). comma_free v \<or> v = x"
    using pingpong_step [OF assms(4,5,10,9,11,6,7)] by blast
  then have "y \<notin> set (fq_visited q')" using assms(2,3) by auto
  then show ?thesis using assms(1,8) s by simp
qed

text \<open>With commas in the identifiers the loop protection does not work: two nodes whose views
send a target to each other pass the call on for ever, whatever the hop budget is, because
a comma splits an identifier in the header and a used-up budget is filled up again.\<close>

theorem comma_ids_forward_forever:
  assumes "\<not> comma_free a" and "\<not> comma_free b" and "a \<noteq> b" and "t \<noteq> ''''" and "t \<noteq> a" and "t \<noteq> b"
    and "in_int32 hops" and "fq_target q = t" and "0 < fq_ttl q" and "fq_visited q = []"
  shows "net_call n (pingpong_net a b hops) ''A'' q w = None"
proof -
  have "(\<forall>q :: 'a fwd_request. fq_target q = t \<and> 0 < fq_ttl q \<and> a \<notin> set (fq_visited q) \<longrightarrow>
        net_call n (pingpong_net a b hops) ''A'' q w = None) \<and>
      (\<forall>q :: 'a fwd_request. fq_target q = t \<and> 0 < fq_ttl q \<and> b \<notin> set (fq_visited q) \<longrightarrow>
        net_call n (pingpong_net a b hops) ''B'' q w = None)"
  proof (induction n)
    case (Suc n)
    then show ?case
      using pingpong_half [where net = "pingpong_net a b hops" and addr = "''A''" and addr' = "''B''", OF pingpong_at(1) assms(2,3,4,5) _ assms(7), of n w]
        pingpong_half [where net = "pingpong_net a b hops" and addr = "''B''" and addr' = "''A''", OF pingpong_at(2) assms(1) assms(3) [symmetric] assms(4,6) _ assms(7), of n w]
      by blast
  qed simp
  then show ?thesis using assms(8-10) by simp
qed

theorem comma_ids_forward_forever_witness:
  "net_call 100 (pingpong_net ''x,1'' ''y,1'' 3) ''A''
     (relay_query\<lparr>fq_visited := [], fq_target := ''t''\<rparr>) (0 :: nat) = None"
  by (rule comma_ids_forward_forever [where t = "''t''"]) (simp_all add: comma_free_def relay_query_def in_int32_def)

end
