(* ===== verification/Coherence.thy ===== *)
theory Coherence
  imports Cluster
begin

text \<open>
  The consensus snapshot \<open>queue to node\<close> (\<open>internal/biz/coherence/coherence.go\<close>,
  \<open>internal/biz/coherence/coherence_sync.go\<close>): the holder of the snapshot, its server, the
  allocation, and one round of the scheduler's push and of the executor's pull. \<open>'v\<close> is the
  view into which routes are written, \<open>'w\<close> the world behind the RPCs.
\<close>

section \<open>The snapshot and its holder\<close>

record queue_route =
  qr_queue :: string
  qr_node :: string
  qr_vpc :: string
  qr_label :: string

record coherence_state =
  co_revision :: int
  co_scheduler :: string
  co_updated :: int
  co_routes :: "queue_route list"

type_synonym coherence_store = "coherence_state option"

definition store_apply :: "coherence_state option \<Rightarrow> coherence_store \<Rightarrow> bool \<times> coherence_store" where
  "store_apply st s =
     (case st of
        None \<Rightarrow> (False, s)
      | Some new \<Rightarrow>
          (case s of
             Some cur \<Rightarrow> if co_revision new \<le> co_revision cur then (False, s) else (True, Some new)
           | None \<Rightarrow> (True, Some new)))"

definition store_revision :: "coherence_store \<Rightarrow> int" where
  "store_revision s = (case s of None \<Rightarrow> 0 | Some c \<Rightarrow> co_revision c)"

definition for_node :: "string \<Rightarrow> coherence_store \<Rightarrow> coherence_state option" where
  "for_node nid s =
     (case s of
        None \<Rightarrow> None
      | Some full \<Rightarrow>
          if nid = '''' then Some full
          else Some (full\<lparr>co_routes := filter (\<lambda>r. qr_node r = nid) (co_routes full)\<rparr>))"

definition queue_owner :: "string \<Rightarrow> coherence_store \<Rightarrow> string option" where
  "queue_owner q s =
     (case s of None \<Rightarrow> None
      | Some full \<Rightarrow> map_option qr_node (find (\<lambda>r. qr_queue r = q) (co_routes full)))"

section \<open>The server\<close>

text \<open>\<open>GetCoherence\<close>: either not modified, or the state for the node.\<close>

definition get_coherence :: "string \<Rightarrow> int \<Rightarrow> coherence_store \<Rightarrow> bool \<times> coherence_state option" where
  "get_coherence nid since s =
     (if since > 0 \<and> since \<ge> store_revision s then (True, None) else (False, for_node nid s))"

definition write_routes :: "(string \<Rightarrow> string \<Rightarrow> 'v \<Rightarrow> 'v) \<Rightarrow> coherence_state \<Rightarrow> 'v \<Rightarrow> 'v" where
  "write_routes set_route st v = fold (\<lambda>r. set_route (qr_queue r) (qr_node r)) (co_routes st) v"

text \<open>\<open>Notify\<close>: the reply is always accepted and carries the revision held afterwards.\<close>

definition notify ::
  "(string \<Rightarrow> string \<Rightarrow> 'v \<Rightarrow> 'v) option \<Rightarrow> coherence_state option \<Rightarrow> coherence_store \<times> 'v
     \<Rightarrow> (bool \<times> int) \<times> (coherence_store \<times> 'v)" where
  "notify view st sv =
     (let (s, v) = sv; (applied, s') = store_apply st s;
          v' = (case (view, st) of
                  (Some f, Some c) \<Rightarrow> if applied then write_routes f c v else v
                | _ \<Rightarrow> v)
      in ((True, store_revision s'), (s', v')))"

section \<open>Allocation\<close>

text \<open>
  \<open>Allocator.Assign\<close>. The nodes are sorted by identifier; for repeated identifiers the order
  of \<open>sort.Slice\<close> is not specified.
\<close>

definition executors :: "cluster_node list \<Rightarrow> cluster_node list" where
  "executors nodes =
     (let es = filter (\<lambda>n. has_permission n PermOperation \<or> nd_permissions n = []) nodes
      in sort_key nd_id (if es = [] then nodes else es))"

definition route_for :: "cluster_node list \<Rightarrow> nat \<Rightarrow> string \<Rightarrow> queue_route" where
  "route_for es i q =
     (let n = es ! (i mod length es) in
      \<lparr>qr_queue = q, qr_node = nd_id n, qr_vpc = nd_vpc n,
       qr_label = (case nd_labels n of [] \<Rightarrow> '''' | l # _ \<Rightarrow> l)\<rparr>)"

definition assign ::
  "string \<Rightarrow> string list \<Rightarrow> cluster_node list \<Rightarrow> int \<Rightarrow> int \<Rightarrow> coherence_state" where
  "assign sched queues nodes rv ms =
     (let es = executors nodes; qs = sort queues in
      \<lparr>co_revision = rv, co_scheduler = sched, co_updated = ms,
       co_routes = (if es = [] then [] else map (\<lambda>i. route_for es i (qs ! i)) [0..<length qs])\<rparr>)"

section \<open>Pushing and pulling\<close>

datatype push_error = NoDialer | UnknownNode string | PushRpc string

text \<open>\<open>Push\<close>: \<open>rpc address state\<close> dials and calls \<open>Notify\<close> there.\<close>

definition push ::
  "(string \<Rightarrow> coherence_state \<Rightarrow> 'w \<Rightarrow> (string + unit) \<times> 'w) option \<Rightarrow> (string \<Rightarrow> cluster_node option) option
     \<Rightarrow> coherence_state \<Rightarrow> string \<Rightarrow> 'w \<Rightarrow> push_error option \<times> 'w" where
  "push rpc nodes st target w =
     (case (rpc, nodes) of
        (Some call, Some resolve) \<Rightarrow>
          (case resolve target of
             None \<Rightarrow> (Some (UnknownNode target), w)
           | Some n \<Rightarrow>
               if nd_address n = '''' then (Some (UnknownNode target), w)
               else (case call (nd_address n) st w of
                       (Inl e, w') \<Rightarrow> (Some (PushRpc e), w')
                     | (Inr _, w') \<Rightarrow> (None, w')))
      | _ \<Rightarrow> (Some NoDialer, w))"

fun push_all ::
  "(coherence_state \<Rightarrow> string \<Rightarrow> 'w \<Rightarrow> push_error option \<times> 'w) \<Rightarrow> coherence_state \<Rightarrow> string list \<Rightarrow> 'w
     \<Rightarrow> (string \<times> push_error) list \<times> 'w" where
  "push_all psh st [] w = ([], w)"
| "push_all psh st (i # ids) w =
     (let (e, w1) = psh st i w; (es, w2) = push_all psh st ids w1
      in ((case e of None \<Rightarrow> [] | Some x \<Rightarrow> [(i, x)]) @ es, w2))"

record 'w syncer =
  sy_scheduler :: string
  sy_queues :: "string list"
  sy_push :: "(coherence_state \<Rightarrow> string \<Rightarrow> 'w \<Rightarrow> push_error option \<times> 'w) option"
  sy_metrics :: bool

text \<open>
  \<open>SyncOnce\<close>. The state is the revision counter, the holder and the world; the result lists
  the failed pushes it returns as an error (which it does only when metrics are configured).
\<close>

definition sync_once ::
  "'w syncer \<Rightarrow> cluster_node list \<Rightarrow> int \<Rightarrow> int \<times> coherence_store \<times> 'w
     \<Rightarrow> (string \<times> push_error) list \<times> (int \<times> coherence_store \<times> 'w)" where
  "sync_once y nodes now st =
     (let (rv, s, w) = st;
          rv' = to_int64 (rv + 1);
          new = assign (sy_scheduler y) (sy_queues y) nodes rv' now;
          (applied, s') = store_apply (Some new) s
      in if \<not> applied then ([], (rv', s', w))
         else (case sy_push y of
                 None \<Rightarrow> ([], (rv', s', w))
               | Some psh \<Rightarrow>
                   (let (es, w') = push_all psh new (filter (\<lambda>i. i \<noteq> '''') (map nd_id nodes)) w
                    in (if sy_metrics y then es else [], (rv', s', w')))))"

definition new_revision :: "coherence_store \<Rightarrow> int" where
  "new_revision s = store_revision s"

datatype pull_error = NoPullDialer | NoScheduler string | PullRpc string

text \<open>
  \<open>PullOnce\<close>: \<open>rpc address self since\<close> asks the scheduling node for its snapshot.
\<close>

definition pull_once ::
  "(string \<Rightarrow> string \<Rightarrow> int \<Rightarrow> string + bool \<times> coherence_state option) option
     \<Rightarrow> (string \<times> (string \<Rightarrow> cluster_node option)) option \<Rightarrow> string
     \<Rightarrow> (string \<Rightarrow> string \<Rightarrow> 'v \<Rightarrow> 'v) option \<Rightarrow> coherence_store \<times> 'v
     \<Rightarrow> pull_error option \<times> (coherence_store \<times> 'v)" where
  "pull_once rpc cluster self view sv =
     (let (s, v) = sv in
      case (rpc, cluster) of
        (Some call, Some (leader, resolve)) \<Rightarrow>
          (case resolve leader of
             None \<Rightarrow> (Some (NoScheduler leader), sv)
           | Some n \<Rightarrow>
               if nd_address n = '''' then (Some (NoScheduler leader), sv)
               else (case call (nd_address n) self (store_revision s) of
                       Inl e \<Rightarrow> (Some (PullRpc e), sv)
                     | Inr (not_modified, st) \<Rightarrow>
                         if not_modified then (None, sv)
                         else
                           (let (applied, s') = store_apply st s;
                                v' = (case (view, st) of
                                        (Some f, Some c) \<Rightarrow> if applied then write_routes f c v else v
                                      | _ \<Rightarrow> v)
                            in (None, (s', v')))))
      | _ \<Rightarrow> (Some NoPullDialer, sv))"

section \<open>The holder converges\<close>

text \<open>What a holder ends up with: the newest of what it had and what it was given.\<close>

definition newest :: "coherence_state set \<Rightarrow> coherence_store \<Rightarrow> coherence_store \<Rightarrow> bool" where
  "newest new s r \<longleftrightarrow>
     (r = s \<or> (\<exists>x\<in>new. r = Some x \<and> (\<forall>c. s = Some c \<longrightarrow> co_revision c < co_revision x))) \<and>
     (\<forall>x\<in>new. \<exists>z. r = Some z \<and> co_revision x \<le> co_revision z) \<and>
     (\<forall>c. s = Some c \<longrightarrow> (\<exists>z. r = Some z \<and> co_revision c \<le> co_revision z))"

definition apply_all :: "coherence_state list \<Rightarrow> coherence_store \<Rightarrow> coherence_store" where
  "apply_all xs s = fold (\<lambda>x r. snd (store_apply (Some x) r)) xs s"

lemma newest_step:
  assumes "newest A s r"
  shows "newest (insert x A) s (snd (store_apply (Some x) r))"
proof (cases r)
  case None
  then show ?thesis using assms by (auto simp: newest_def store_apply_def)
next
  case (Some z)
  then show ?thesis using assms
    by (cases "co_revision x \<le> co_revision z") (fastforce simp: newest_def store_apply_def)+
qed

lemma newest_apply_all: "newest (set xs) s (apply_all xs s)"
proof (induction xs rule: rev_induct)
  case Nil
  then show ?case by (auto simp: newest_def apply_all_def)
next
  case (snoc x xs)
  then show ?case using newest_step [OF snoc, of x] by (simp add: apply_all_def)
qed

lemma newest_unique:
  assumes "newest A s r1" and "newest A s r2" and "\<forall>x\<in>A. \<forall>y\<in>A. co_revision x = co_revision y \<longrightarrow> x = y"
  shows "r1 = r2"
proof (cases "r1 = s")
  case True
  then show ?thesis using assms(1,2) unfolding newest_def by fastforce
next
  case False
  then obtain x where x: "x \<in> A" "r1 = Some x" "\<forall>c. s = Some c \<longrightarrow> co_revision c < co_revision x"
    using assms(1) by (auto simp: newest_def)
  then obtain z where z: "r2 = Some z" "co_revision x \<le> co_revision z" using assms(2) unfolding newest_def by blast
  then have "r2 \<noteq> s" using x(3) by fastforce
  then have "z \<in> A" using assms(2) z(1) by (auto simp: newest_def)
  then have "co_revision z \<le> co_revision x" using assms(1) x(2) by (auto simp: newest_def)
  then show ?thesis using assms(3) x z \<open>z \<in> A\<close> by force
qed

section \<open>The allocation\<close>

lemma executors_set: "set (executors nodes) \<subseteq> set nodes"
  by (auto simp: executors_def Let_def)

lemma executors_mset_cong:
  assumes "mset nodes = mset nodes'" and "distinct (map nd_id nodes)"
  shows "executors nodes = executors nodes'"
proof -
  let ?P = "\<lambda>n. has_permission n PermOperation \<or> nd_permissions n = []"
  have f: "mset (filter ?P nodes) = mset (filter ?P nodes')" using assms(1) by simp
  then have e: "filter ?P nodes = [] \<longleftrightarrow> filter ?P nodes' = []" by (metis mset_zero_iff)
  show ?thesis
  proof (cases "filter ?P nodes = []")
    case True
    then show ?thesis
      using sort_key_unique [OF assms] e unfolding executors_def Let_def by (simp only: if_True simp_thms)
  next
    case False
    then show ?thesis
      using sort_key_unique [OF f distinct_map_filter [OF assms(2)]] e
      unfolding executors_def Let_def by (simp only: if_False simp_thms)
  qed
qed

lemma executors_ids: "distinct (map nd_id nodes) \<Longrightarrow> distinct (map nd_id (executors nodes))"
  by (simp add: executors_def Let_def distinct_map distinct_sort inj_on_def)

text \<open>How often a residue occurs below a number.\<close>

lemma residue_count:
  assumes "(k :: nat) < n"
  shows "m div n \<le> length (filter (\<lambda>i. i mod n = k) [0..<m]) \<and>
    length (filter (\<lambda>i. i mod n = k) [0..<m]) \<le> Suc (m div n)"
proof -
  have "length (filter (\<lambda>i. i mod n = k) [0..<m]) = (if k < m mod n then Suc (m div n) else m div n)"
  proof (induction m)
    case (Suc m)
    have n: "n \<noteq> 0" using assms by simp
    show ?case
    proof (cases "Suc (m mod n) = n")
      case True
      then have "Suc m mod n = 0" "Suc m div n = Suc (m div n)" "m mod n = n - 1"
        by (simp_all add: mod_Suc div_Suc)
      then show ?thesis using Suc assms by auto
    next
      case False
      then have "Suc m mod n = Suc (m mod n)" "Suc m div n = m div n" by (simp_all add: mod_Suc div_Suc)
      then show ?thesis using Suc by auto
    qed
  qed (use assms in simp)
  then show ?thesis by auto
qed

lemma assign_routes:
  "co_routes (assign sched queues nodes rv ms) =
     (if executors nodes = [] then []
      else map (\<lambda>i. route_for (executors nodes) i (sort queues ! i)) [0..<length queues])"
  by (simp add: assign_def Let_def)

definition load :: "coherence_state \<Rightarrow> string \<Rightarrow> nat" where
  "load st nid = length (filter (\<lambda>r. qr_node r = nid) (co_routes st))"

lemma assign_load:
  assumes "distinct (map nd_id nodes)" and "e \<in> set (executors nodes)"
  shows "length queues div length (executors nodes) \<le> load (assign sched queues nodes rv ms) (nd_id e) \<and>
    load (assign sched queues nodes rv ms) (nd_id e) \<le> Suc (length queues div length (executors nodes))"
proof -
  let ?es = "executors nodes"
  obtain k where k: "k < length ?es" "?es ! k = e" using assms(2) by (auto simp: in_set_conv_nth)
  have ne: "?es \<noteq> []" using assms(2) by auto
  have "nd_id (?es ! j) = nd_id e \<longleftrightarrow> j = k" if "j < length ?es" for j
    using executors_ids [OF assms(1)] that k by (metis length_map nth_eq_iff_index_eq nth_map)
  then have "filter (\<lambda>i. qr_node (route_for ?es i (sort queues ! i)) = nd_id e) [0..<length queues] =
      filter (\<lambda>i. i mod length ?es = k) [0..<length queues]"
    using ne by (intro filter_cong) (simp_all add: route_for_def Let_def)
  then show ?thesis
    using residue_count [OF k(1), of "length queues"] ne
    by (simp add: load_def assign_routes filter_map comp_def)
qed

lemma assign_queues:
  assumes "executors nodes \<noteq> []"
  shows "map qr_queue (co_routes (assign sched queues nodes rv ms)) = sort queues"
proof -
  have q: "qr_queue (route_for es i q) = q" for es i q by (simp add: route_for_def Let_def)
  have "map qr_queue (co_routes (assign sched queues nodes rv ms)) =
      map (\<lambda>i. sort queues ! i) [0..<length (sort queues)]"
    using assms by (simp add: assign_routes q)
  then show ?thesis by (simp only: map_nth)
qed

section \<open>Properties\<close>


definition snap :: "int \<Rightarrow> string \<Rightarrow> coherence_state" where
  "snap rv nid = \<lparr>co_revision = rv, co_scheduler = nid, co_updated = 0, co_routes = []\<rparr>"


text \<open>The allocation depends only on which queues and which nodes there are, not on their order
(for distinct node identifiers); every queue has exactly one route, to a node that was given;
and no node serves fewer than the rounded-down or more than the rounded-up share.\<close>

theorem assign_balanced:
  assumes "distinct (map nd_id nodes)" and "mset nodes' = mset nodes" and "mset queues' = mset queues"
    and "e \<in> set (executors nodes)"
  shows "assign sched queues' nodes' rv ms = assign sched queues nodes rv ms \<and>
    map qr_queue (co_routes (assign sched queues nodes rv ms)) = sort queues \<and>
    qr_node ` set (co_routes (assign sched queues nodes rv ms)) \<subseteq> nd_id ` set nodes \<and>
    length queues div length (executors nodes) \<le> load (assign sched queues nodes rv ms) (nd_id e) \<and>
    load (assign sched queues nodes rv ms) (nd_id e) \<le> Suc (length queues div length (executors nodes))"
proof -
  have ne: "executors nodes \<noteq> []" using assms(4) by auto
  have "executors nodes' = executors nodes" 
    by (rule executors_mset_cong [OF assms(2) [symmetric] assms(1), symmetric])
  moreover have "sort queues' = sort queues" by (rule properties_for_sort) (simp_all add: assms(3))
  moreover have "length queues' = length queues" using mset_eq_length [OF assms(3)] .
  ultimately have "assign sched queues' nodes' rv ms = assign sched queues nodes rv ms"
    unfolding assign_def Let_def by (simp only: length_sort)
  moreover have "executors nodes ! (i mod length (executors nodes)) \<in> set nodes" for i
    by (rule subsetD [OF executors_set nth_mem]) (use ne in simp)
  then have n: "qr_node (route_for (executors nodes) i q) \<in> nd_id ` set nodes" for i q
    unfolding route_for_def Let_def by simp
  have "qr_node ` set (co_routes (assign sched queues nodes rv ms)) \<subseteq> nd_id ` set nodes"
    unfolding assign_routes using n by auto
  ultimately show ?thesis using assign_queues [OF ne] assign_load [OF assms(1,4)] by auto
qed

theorem assign_balanced_witness:
  "assign ''s'' [''q2'', ''q1'', ''q3''] [sample_node ''b'' ''v'', sample_node ''a'' ''v''] 7 0 =
     assign ''s'' [''q1'', ''q2'', ''q3''] [sample_node ''a'' ''v'', sample_node ''b'' ''v''] 7 0 \<and>
   load (assign ''s'' [''q1'', ''q2'', ''q3''] [sample_node ''a'' ''v'', sample_node ''b'' ''v''] 7 0) ''a'' \<le> 2"
proof -
  have e: "executors [sample_node ''a'' ''v'', sample_node ''b'' ''v''] = [sample_node ''a'' ''v'', sample_node ''b'' ''v'']"
    by code_simp
  have i: "nd_id (sample_node ''a'' ''v'') = ''a''" "nd_id (sample_node ''b'' ''v'') = ''b''"
    by (simp_all add: sample_node_def)
  have d: "Suc (Suc (Suc 0)) div Suc (Suc 0) = 1" by code_simp
  show ?thesis
    using assign_balanced [of "[sample_node ''a'' ''v'', sample_node ''b'' ''v'']"
        "[sample_node ''b'' ''v'', sample_node ''a'' ''v'']" "[''q2'', ''q1'', ''q3'']" "[''q1'', ''q2'', ''q3'']"
        "sample_node ''a'' ''v''" "''s''" 7 0] e i d
    by (simp add: add_mset_commute)
qed

section \<open>Taking over the schedule\<close>

fun sync_rounds ::
  "'w syncer \<Rightarrow> cluster_node list \<Rightarrow> int \<Rightarrow> nat \<Rightarrow> int \<times> coherence_store \<times> 'w \<Rightarrow> int \<times> coherence_store \<times> 'w"
where
  "sync_rounds y nodes now 0 st = st"
| "sync_rounds y nodes now (Suc k) st = sync_rounds y nodes now k (snd (sync_once y nodes now st))"

lemma sync_idle:
  assumes "rv < co_revision c" and "in_int64 (rv + 1)"
  shows "sync_once y nodes now (rv, Some c, w) = ([], (rv + 1, Some c, w))"
  using assms by (simp add: sync_once_def store_apply_def Let_def to_int64_id assign_def)

lemma sync_rounds_idle:
  assumes "rv + int k \<le> co_revision c" and "in_int64 rv" and "in_int64 (co_revision c)"
  shows "sync_rounds y nodes now k (rv, Some c, w) = (rv + int k, Some c, w)"
  using assms
proof (induction k arbitrary: rv)
  case (Suc k)
  have "in_int64 (rv + 1)" using Suc.prems by (auto simp: in_int64_def)
  then show ?case
    using Suc.IH [of "rv + 1"] Suc.prems sync_idle [of rv c y nodes now w] by (simp add: algebra_simps)
qed simp

lemma sync_rounds_Suc:
  "sync_rounds y nodes now (Suc k) st = snd (sync_once y nodes now (sync_rounds y nodes now k st))"
  by (induction k arbitrary: st) simp_all

text \<open>A syncer counts its revisions from the one held when it was built. When the holder has
moved on since (another node was the scheduler), its rounds allocate nothing and push nothing
until the counter has caught up; exactly the round after that takes effect.\<close>

theorem late_syncer_catches_up:
  assumes "in_int64 rv" and "in_int64 (co_revision c + 1)" and "rv + int d = co_revision c" and "k \<le> d"
  shows "sync_rounds y nodes now k (rv, Some c, w) = (rv + int k, Some c, w) \<and>
    (fst (snd (sync_rounds y nodes now (Suc d) (rv, Some c, w)))) =
      Some (assign (sy_scheduler y) (sy_queues y) nodes (co_revision c + 1) now)"
proof -
  have b: "in_int64 (co_revision c)" using assms(1,2,3) by (auto simp: in_int64_def)
  have i: "sync_rounds y nodes now j (rv, Some c, w) = (rv + int j, Some c, w)" if "j \<le> d" for j
    using sync_rounds_idle [of rv j c y nodes now w] assms(1,3) b that by simp
  have "fst (snd (sync_rounds y nodes now (Suc d) (rv, Some c, w))) =
      fst (snd (snd (sync_once y nodes now (co_revision c, Some c, w))))"
    using i [of d] assms(3) by (simp only: sync_rounds_Suc)
  also have "\<dots> = Some (assign (sy_scheduler y) (sy_queues y) nodes (co_revision c + 1) now)"
    using to_int64_id [OF assms(2)]
    by (auto simp: sync_once_def store_apply_def Let_def assign_def split: option.split prod.split)
  finally show ?thesis using i [OF assms(4)] by simp
qed

definition idle_syncer :: "nat syncer" where
  "idle_syncer = \<lparr>sy_scheduler = ''n'', sy_queues = [''q''], sy_push = Some (\<lambda>_ _ w. (None, w + 1)), sy_metrics = True\<rparr>"

theorem late_syncer_catches_up_witness:
  "sync_rounds idle_syncer [sample_node ''a'' ''v''] 0 5 (0, Some (snap 5 ''m''), 0) = (5, Some (snap 5 ''m''), 0) \<and>
    fst (snd (sync_rounds idle_syncer [sample_node ''a'' ''v''] 0 6 (0, Some (snap 5 ''m''), 0))) =
      Some (assign ''n'' [''q''] [sample_node ''a'' ''v''] 6 0)"
  using late_syncer_catches_up [of 0 "snap 5 ''m''" 5 5 idle_syncer "[sample_node ''a'' ''v'']" 0 0]
  by (simp add: in_int64_def snap_def idle_syncer_def)

end
