(* ===== verification/Lifecycle.thy ===== *)
theory Lifecycle
  imports Cluster
begin

text \<open>
  Starting and stopping: the election gate (\<open>internal/server/election.go\<close>), the application's
  start and shutdown (\<open>internal/server/app.go\<close>, \<open>internal/server/health.go\<close>), and what drives a
  scheduler (\<open>internal/runtime/scheduler/scheduler.go\<close>, \<open>internal/runtime/scheduler/trigger.go\<close>).
  Goroutines appear as the sequence of events they react to.
\<close>

section \<open>The election gate\<close>

text \<open>\<open>isScheduler\<close>: no view means a stand-alone node; missing permissions do not block.\<close>

definition is_scheduler :: "string \<Rightarrow> permission option \<Rightarrow> cluster_info option \<Rightarrow> bool" where
  "is_scheduler self perm view =
     (case view of
        None \<Rightarrow> True
      | Some snap \<Rightarrow>
          if in_scheduler snap = '''' \<or> in_scheduler snap \<noteq> self then False
          else (case perm of
                  None \<Rightarrow> True
                | Some p \<Rightarrow>
                    (case info_node snap self of
                       None \<Rightarrow> True
                     | Some n \<Rightarrow> if nd_permissions n = [] then True else has_permission n p)))"

text \<open>
  The gate: is the inner component running, may \<open>Stop\<close> cancel a loop, and how many loops
  watch. The log records the calls of the inner component; \<open>InnerStart\<close> carries whether it
  returned nil.
\<close>

record gate =
  gt_running :: bool
  gt_cancel :: bool
  gt_loops :: nat

datatype inner_call = InnerStart bool | InnerStop

definition new_gate :: gate where
  "new_gate = \<lparr>gt_running = False, gt_cancel = False, gt_loops = 0\<rparr>"

definition gate_sync :: "bool \<Rightarrow> bool \<Rightarrow> gate \<Rightarrow> inner_call list \<times> gate" where
  "gate_sync want start_ok g =
     (if want \<and> \<not> gt_running g then ([InnerStart start_ok], g\<lparr>gt_running := start_ok\<rparr>)
      else if \<not> want \<and> gt_running g then ([InnerStop], g\<lparr>gt_running := False\<rparr>)
      else ([], g))"

definition gate_stop_inner :: "gate \<Rightarrow> inner_call list \<times> gate" where
  "gate_stop_inner g =
     (if gt_running g then ([InnerStop], g\<lparr>gt_running := False\<rparr>) else ([], g))"

text \<open>
  Events: \<open>Start\<close> (which looks at the view once), a tick of a watching loop, \<open>Stop\<close>, which
  cancels the newest loop and waits for it, and the end of the context given to \<open>Start\<close>. A loop
  that ends stops the inner component.
\<close>

datatype gate_event =
    GateStart "cluster_info option" bool
  | GateTick "cluster_info option" bool
  | GateStop
  | GateContextDone

fun gate_step :: "string \<Rightarrow> permission option \<Rightarrow> gate_event \<Rightarrow> gate \<Rightarrow> inner_call list \<times> gate" where
  "gate_step self perm (GateStart view ok) g =
     gate_sync (is_scheduler self perm view) ok (g\<lparr>gt_cancel := True, gt_loops := Suc (gt_loops g)\<rparr>)"
| "gate_step self perm (GateTick view ok) g =
     (if gt_loops g = 0 then ([], g) else gate_sync (is_scheduler self perm view) ok g)"
| "gate_step self perm GateStop g =
     (if gt_cancel g then
        (if gt_loops g = 0 then ([], g\<lparr>gt_cancel := False\<rparr>)
         else gate_stop_inner (g\<lparr>gt_cancel := False, gt_loops := gt_loops g - 1\<rparr>))
      else ([], g))"
| "gate_step self perm GateContextDone g =
     (if gt_loops g = 0 then ([], g) else gate_stop_inner (g\<lparr>gt_loops := 0\<rparr>))"

fun gate_run :: "string \<Rightarrow> permission option \<Rightarrow> gate_event list \<Rightarrow> gate \<Rightarrow> inner_call list \<times> gate" where
  "gate_run self perm [] g = ([], g)"
| "gate_run self perm (e # es) g =
     (let (l1, g1) = gate_step self perm e g; (l2, g2) = gate_run self perm es g1 in (l1 @ l2, g2))"

section \<open>The application\<close>

text \<open>
  How the stop of one component ends: without or with an error, or not within the budget. From
  the first that does not end, the budget is used up and the remaining ones are skipped.
\<close>

datatype stop_result = StopOk | StopFails | StopHangs

datatype app_call =
    Started nat | StartFailed nat
  | Ready bool
  | Stopped nat | StopFailed nat | StopAbandoned nat | StopSkipped nat
  | GrpcForced | HttpClosed | Closer nat

datatype app_error = NilGrpc | ListenFailed | ServeFailed | StartError nat | StopError nat | HttpShutdownFailed

fun start_components :: "(nat \<Rightarrow> bool) \<Rightarrow> nat list \<Rightarrow> app_call list \<times> nat list \<times> app_error option" where
  "start_components ok [] = ([], [], None)"
| "start_components ok (i # is) =
     (if ok i then
        (let (l, st, e) = start_components ok is in (Started i # l, i # st, e))
      else ([StartFailed i], [], Some (StartError i)))"

text \<open>\<open>stopComponents\<close> on the components in reverse order; the flag is whether the budget is used up.\<close>

fun stop_components ::
  "(nat \<Rightarrow> stop_result) \<Rightarrow> bool \<Rightarrow> nat list \<Rightarrow> app_call list \<times> app_error list \<times> bool" where
  "stop_components res late [] = ([], [], late)"
| "stop_components res late (i # is) =
     (if late then
        (let (l, es, t) = stop_components res True is in (StopSkipped i # l, StopError i # es, t))
      else case res i of
          StopOk \<Rightarrow> (let (l, es, t) = stop_components res False is in (Stopped i # l, es, t))
        | StopFails \<Rightarrow> (let (l, es, t) = stop_components res False is in (StopFailed i # l, StopError i # es, t))
        | StopHangs \<Rightarrow> (let (l, es, t) = stop_components res True is in (StopAbandoned i # l, StopError i # es, t)))"

text \<open>
  The surroundings of a shutdown: how components stop, whether the gRPC server drains in time,
  how the HTTP server's shutdown ends (\<open>None\<close>: there is none), and the cleanup functions
  (\<open>False\<close>: a nil one).
\<close>

datatype http_end = HttpOk | HttpLate | HttpError

record shutdown_env =
  sd_stop :: "nat \<Rightarrow> stop_result"
  sd_drains :: bool
  sd_http :: "http_end option"
  sd_closers :: "bool list"

definition run_closers :: "bool list \<Rightarrow> app_call list" where
  "run_closers cs = map Closer (filter (\<lambda>j. cs ! j) (rev [0..<length cs]))"

definition shutdown :: "shutdown_env \<Rightarrow> nat list \<Rightarrow> app_call list \<times> app_error list" where
  "shutdown v started =
     (let (l, es, late) = stop_components (sd_stop v) False (rev started);
          grpc = (if sd_drains v then [] else [GrpcForced]);
          (hl, he) = (case sd_http v of
              Some HttpLate \<Rightarrow> ([HttpClosed], [])
            | Some HttpError \<Rightarrow> ([], [HttpShutdownFailed])
            | _ \<Rightarrow> ([], []))
      in (l @ grpc @ hl @ run_closers (sd_closers v), es @ he))"

text \<open>\<open>Run\<close>: \<open>serve_err\<close> says whether it ended because a server failed.\<close>

definition app_run ::
  "bool \<Rightarrow> bool \<Rightarrow> (nat \<Rightarrow> bool) \<Rightarrow> nat \<Rightarrow> bool \<Rightarrow> shutdown_env \<Rightarrow> app_call list \<times> app_error list" where
  "app_run has_grpc listens start_ok n serve_err v =
     (if \<not> has_grpc then ([], [NilGrpc])
      else if \<not> listens then ([], [ListenFailed])
      else case start_components start_ok [0..<n] of
          (l, started, Some e) \<Rightarrow>
            (let (sl, es) = shutdown v started in (l @ Ready False # sl, e # es))
        | (l, started, None) \<Rightarrow>
            (let (sl, es) = shutdown v started
             in (l @ Ready True # Ready False # sl, (if serve_err then [ServeFailed] else []) @ es)))"

section \<open>Triggers\<close>

text \<open>
  What a trigger's loop sees, in the order in which its \<open>select\<close> takes them: a tick of its
  timer (with the revision read then), a signal, the signal channel being closed, the end of
  the context. The result is the number of ticks until it returns, and whether it returned.
\<close>

datatype trigger_event = TimerTick int | Signal | SignalClosed | ContextDone

fun tick_trigger :: "trigger_event list \<Rightarrow> nat \<times> bool" where
  "tick_trigger [] = (0, False)"
| "tick_trigger (ContextDone # es) = (0, True)"
| "tick_trigger (TimerTick r # es) = (let (n, d) = tick_trigger es in (Suc n, d))"
| "tick_trigger (e # es) = tick_trigger es"

fun manual_trigger :: "bool \<Rightarrow> trigger_event list \<Rightarrow> nat \<times> bool" where
  "manual_trigger has [] = (0, False)"
| "manual_trigger has (ContextDone # es) = (0, True)"
| "manual_trigger has (Signal # es) =
     (if has then let (n, d) = manual_trigger has es in (Suc n, d) else manual_trigger has es)"
| "manual_trigger has (SignalClosed # es) = (if has then (0, True) else manual_trigger has es)"
| "manual_trigger has (TimerTick r # es) = manual_trigger has es"

text \<open>The notification channel is dropped when it is closed; the timer goes on.\<close>

fun notify_trigger :: "bool \<Rightarrow> trigger_event list \<Rightarrow> nat \<times> bool" where
  "notify_trigger has [] = (0, False)"
| "notify_trigger has (ContextDone # es) = (0, True)"
| "notify_trigger has (TimerTick r # es) = (let (n, d) = notify_trigger has es in (Suc n, d))"
| "notify_trigger has (Signal # es) =
     (if has then let (n, d) = notify_trigger has es in (Suc n, d) else notify_trigger has es)"
| "notify_trigger has (SignalClosed # es) = notify_trigger False es"

text \<open>\<open>None\<close>: no source, every timer tick drives a round; else only a changed revision does.\<close>

fun coherence_trigger :: "int option \<Rightarrow> trigger_event list \<Rightarrow> nat \<times> bool" where
  "coherence_trigger lr [] = (0, False)"
| "coherence_trigger lr (ContextDone # es) = (0, True)"
| "coherence_trigger None (TimerTick r # es) = (let (n, d) = coherence_trigger None es in (Suc n, d))"
| "coherence_trigger (Some l) (TimerTick r # es) =
     (if r \<noteq> l then let (n, d) = coherence_trigger (Some r) es in (Suc n, d)
      else coherence_trigger (Some l) es)"
| "coherence_trigger lr (e # es) = coherence_trigger lr es"

section \<open>The gate: calls of the inner component\<close>

text \<open>
  Whether a log starts the inner component only when it is stopped and stops it only when it
  runs, beginning with \<open>r\<close> and ending with \<open>r'\<close>.
\<close>

fun well_paired :: "bool \<Rightarrow> inner_call list \<Rightarrow> bool \<Rightarrow> bool" where
  "well_paired r [] r' \<longleftrightarrow> r = r'"
| "well_paired r (InnerStart ok # l) r' \<longleftrightarrow> \<not> r \<and> well_paired ok l r'"
| "well_paired r (InnerStop # l) r' \<longleftrightarrow> r \<and> well_paired False l r'"

lemma well_paired_append:
  assumes "well_paired r l1 r1" "well_paired r1 l2 r2"
  shows "well_paired r (l1 @ l2) r2"
  using assms by (induction r l1 r1 rule: well_paired.induct) auto

definition gate_ok :: "gate \<Rightarrow> bool" where
  "gate_ok g \<longleftrightarrow> (gt_running g \<longrightarrow> 0 < gt_loops g)"

lemma gate_step_paired:
  assumes "gate_step self perm e g = (l, g')" "gate_ok g"
  shows "well_paired (gt_running g) l (gt_running g')"
  using assms
  by (cases e) (auto simp: gate_sync_def gate_stop_inner_def gate_ok_def split: if_splits)

lemma gate_step_stop_last:
  assumes "gate_step self perm e g = (l, g')" "gate_ok g"
  shows "gate_ok g'"
  using assms
  by (cases e) (auto simp: gate_sync_def gate_stop_inner_def gate_ok_def split: if_splits)

lemma gate_run_paired:
  assumes "gate_run self perm es g = (l, g')" "gate_ok g"
  shows "well_paired (gt_running g) l (gt_running g') \<and> gate_ok g'"
  using assms
proof (induction es arbitrary: g l)
  case Nil
  then show ?case by simp
next
  case (Cons e es)
  obtain l1 g1 where s: "gate_step self perm e g = (l1, g1)" by fastforce
  obtain l2 where r: "gate_run self perm es g1 = (l2, g')" "l = l1 @ l2"
    using Cons.prems(1) s by (auto split: prod.splits)
  show ?case
    using Cons.IH [OF r(1) gate_step_stop_last [OF s Cons.prems(2)]]
      well_paired_append gate_step_paired [OF s Cons.prems(2)] r(2) by blast
qed

lemma is_scheduler_self:
  assumes "is_scheduler self perm (Some snap)"
  shows "in_scheduler snap = self \<and> self \<noteq> ''''"
  using assms by (auto simp: is_scheduler_def split: if_splits)

text \<open>
  The election gate keeps the control plane on the elected node. Whatever the sequence of
  starts, ticks, stops and cancellations, the calls of the inner component alternate (never a
  start of a running one, never a stop of a stopped one) and it runs only while a loop watches.
  After a tick it runs only if this node is the scheduler of the view, and it does run if it is
  and the start succeeds; so two nodes that look at the same snapshot never both run it.
\<close>

theorem gate_follows_election:
  assumes "gate_run self perm es new_gate = (log, g)"
    and "0 < gt_loops g"
    and "gate_step self perm (GateTick (Some snap) ok) g = (log', g')"
  shows "well_paired False (log @ log') (gt_running g')
       \<and> gt_running g' = (is_scheduler self perm (Some snap) \<and> (gt_running g \<or> ok))
       \<and> (gt_running g' \<longrightarrow> in_scheduler snap = self)
       \<and> gt_running (snd (gate_step self perm GateContextDone g')) = False"
proof -
  have ok0: "gate_ok new_gate" by (simp add: gate_ok_def new_gate_def)
  have w: "well_paired False log (gt_running g)" "gate_ok g"
    using gate_run_paired [OF assms(1) ok0] by (simp_all add: new_gate_def)
  have p: "well_paired False (log @ log') (gt_running g')"
    using well_paired_append [OF w(1) gate_step_paired [OF assms(3) w(2)]] .
  have run: "gt_running g' = (is_scheduler self perm (Some snap) \<and> (gt_running g \<or> ok))"
    and loops: "gt_loops g' = gt_loops g"
    using assms(2,3) by (auto simp: gate_sync_def split: if_splits)
  have "gt_running (snd (gate_step self perm GateContextDone g')) = False"
    using assms(2) loops by (simp add: gate_stop_inner_def)
  then show ?thesis
    using p run is_scheduler_self by blast
qed

definition sample_view :: "string \<Rightarrow> cluster_info" where
  "sample_view s = \<lparr>in_nodes = [], in_node_id = ''a'', in_scheduler = s\<rparr>"

lemma gate_follows_election_witness:
  "gt_running (snd (gate_run ''a'' (Some PermSchedule)
      [GateStart (Some (sample_view ''a'')) True, GateTick (Some (sample_view ''b'')) True] new_gate)) = False
   \<and> well_paired False [InnerStart True, InnerStop] False"
  using gate_follows_election [of "''a''" "Some PermSchedule"
      "[GateStart (Some (sample_view ''a'')) True]" "[InnerStart True]"
      "\<lparr>gt_running = True, gt_cancel = True, gt_loops = 1\<rparr>" "sample_view ''b''" True "[InnerStop]"
      "\<lparr>gt_running = False, gt_cancel = True, gt_loops = 1\<rparr>"]
  by (simp add: new_gate_def gate_sync_def is_scheduler_def info_node_def sample_view_def)

section \<open>The application: nothing is left behind\<close>

fun started_of :: "app_call \<Rightarrow> nat option" where
  "started_of (Started i) = Some i"
| "started_of c = None"

text \<open>The component whose stop a call settles, and the cleanup function it runs.\<close>

fun stop_of :: "app_call \<Rightarrow> nat option" where
  "stop_of (Stopped i) = Some i"
| "stop_of (StopFailed i) = Some i"
| "stop_of (StopAbandoned i) = Some i"
| "stop_of (StopSkipped i) = Some i"
| "stop_of c = None"

fun closer_of :: "app_call \<Rightarrow> nat option" where
  "closer_of (Closer j) = Some j"
| "closer_of c = None"

fun ready_of :: "app_call \<Rightarrow> bool option" where
  "ready_of (Ready b) = Some b"
| "ready_of c = None"

definition calls :: "(app_call \<Rightarrow> 'a option) \<Rightarrow> app_call list \<Rightarrow> 'a list" where
  "calls f l = List.map_filter f l"

lemma calls_simps [simp]:
  "calls f [] = []"
  "calls f (c # l) = (case f c of None \<Rightarrow> calls f l | Some x \<Rightarrow> x # calls f l)"
  "calls f (l @ l') = calls f l @ calls f l'"
  by (simp_all add: calls_def List.map_filter_def split: option.split)

lemma start_components_log:
  assumes "start_components ok is = (l, st, e)"
  shows "st = takeWhile ok is \<and> calls started_of l = st \<and> calls stop_of l = [] \<and> calls closer_of l = []
       \<and> calls ready_of l = [] \<and> (e = None \<longleftrightarrow> list_all ok is)"
  using assms by (induction "is" arbitrary: l st e) (auto split: prod.splits if_splits)

lemma stop_components_log:
  assumes "stop_components res late is = (l, es, t)"
  shows "calls stop_of l = is \<and> calls started_of l = [] \<and> calls closer_of l = [] \<and> calls ready_of l = []
       \<and> (es = [] \<longleftrightarrow> (is = [] \<or> (\<not> late \<and> list_all (\<lambda>i. res i = StopOk) is)))"
  using assms
proof (induction "is" arbitrary: late l es t)
  case Nil
  then show ?case by simp
next
  case (Cons i "is")
  show ?case
  proof (cases late)
    case True
    then show ?thesis
      using Cons.prems Cons.IH [of True] by (auto split: prod.splits)
  next
    case False
    then show ?thesis
      using Cons.prems Cons.IH [of False] Cons.IH [of True]
      by (cases "res i") (auto split: prod.splits)
  qed
qed

lemma run_closers_log:
  "calls closer_of (run_closers cs) = filter (\<lambda>j. cs ! j) (rev [0..<length cs])"
  "calls started_of (run_closers cs) = []" "calls stop_of (run_closers cs) = []"
  "calls ready_of (run_closers cs) = []"
  by (simp_all add: run_closers_def calls_def List.map_filter_def comp_def)

lemma shutdown_log:
  assumes "shutdown v started = (l, es)"
  shows "calls stop_of l = rev started \<and> calls started_of l = [] \<and> calls ready_of l = []
       \<and> (\<exists>pre. l = pre @ run_closers (sd_closers v) \<and> calls closer_of pre = [])
       \<and> (es = [] \<longleftrightarrow> list_all (\<lambda>i. sd_stop v i = StopOk) started \<and> sd_http v \<noteq> Some HttpError)"
proof -
  obtain l1 es1 late where s: "stop_components (sd_stop v) False (rev started) = (l1, es1, late)"
    by (cases "stop_components (sd_stop v) False (rev started)") auto
  note f = stop_components_log [OF s]
  show ?thesis
    using assms s f
    by (cases "sd_http v") (auto simp: shutdown_def run_closers_log list_all_iff split: http_end.splits prod.splits)
qed


definition sample_shutdown :: shutdown_env where
  "sample_shutdown = \<lparr>sd_stop = (\<lambda>i. if i = 1 then StopHangs else StopOk), sd_drains = False,
     sd_http = Some HttpLate, sd_closers = [True, False, True]\<rparr>"


end
