(* ===== verification/Tasks.thy ===== *)
theory Tasks
  imports LedgerProps Messages Cluster
begin

text \<open>
  How tasks come into being: node numbers of the identifier generator
  (\<open>pkg/idgen/snowflake.go\<close>), task specifications (\<open>internal/task/task.go\<close>), the enqueuer
  (\<open>internal/biz/task/enqueue.go\<close>), the factory registry and its manager
  (\<open>internal/task/factory/factory.go\<close>) and the heartbeat factory
  (\<open>internal/biz/task/factory.go\<close>). The snowflake library itself is an argument: a function
  from its state to the next identifier and state.
\<close>

section \<open>Node numbers\<close>

text \<open>The FNV-1a hash of the identifier, reduced to its low ten bits.\<close>

definition node_bits :: "string \<Rightarrow> int" where
  "node_bits s = (if s = '''' then 0 else uint (fnv32a s AND 0x3FF))"

section \<open>Specifications\<close>

record task_spec =
  sp_type :: string
  sp_operator :: string
  sp_priority :: int
  sp_channel :: string
  sp_vpc :: string
  sp_node :: string
  sp_label :: string
  sp_hash_bucket :: int
  sp_timeout_ms :: int
  sp_max_attempts :: int
  sp_idempotency_key :: string
  sp_callback :: content
  sp_parent_task_id :: int
  sp_biz_race_labels :: "string list"
  sp_biz_race_entry :: string
  sp_biz_group :: string
  sp_biz_batch_id :: string

text \<open>A task offers its specification and its payload (\<open>Task\<close>, as \<open>FuncTask\<close> holds it).\<close>

record func_task =
  ft_spec :: task_spec
  ft_payload :: content

section \<open>The enqueuer\<close>

datatype enqueue_error =
    EnqueuerNotConfigured | EmptyTaskType | EmptyTaskChannel | InvalidCallback | EnqueueFailed db_error

record ('s, 'g) enqueuer =
  en_store :: "(enqueue_request \<Rightarrow> 's \<Rightarrow> (db_error + enqueue_result) \<times> 's) option"
  en_ids :: "('g \<Rightarrow> int \<times> 'g) option"
  en_default_channel :: string

definition priority_of :: "int \<Rightarrow> int" where
  "priority_of p =
     (if p = 0 then default_priority
      else if p < min_priority then min_priority
      else if max_priority < p then max_priority
      else p)"

definition default_int64 :: "int \<Rightarrow> int \<Rightarrow> int" where
  "default_int64 v def = (if v \<le> 0 then def else v)"

text \<open>An empty payload becomes an empty object, text that is not JSON becomes a JSON string.\<close>

definition payload_or_empty :: "content \<Rightarrow> raw" where
  "payload_or_empty c =
     (case c of NoContent \<Rightarrow> Some (JObj []) | JsonContent j \<Rightarrow> Some j | TextContent t \<Rightarrow> Some (JStr t))"

text \<open>The check of the callback bytes before they are written: text that is not JSON is an error.\<close>

definition callback_bytes :: "content \<Rightarrow> unit + raw" where
  "callback_bytes c =
     (case c of
        NoContent \<Rightarrow> Inr None
      | JsonContent j \<Rightarrow> rbind (unmarshal_callback (Some j)) (\<lambda>_. Inr (Some j))
      | TextContent t \<Rightarrow> Inl ())"

definition task_channel_of :: "('s, 'g) enqueuer \<Rightarrow> task_spec \<Rightarrow> string" where
  "task_channel_of e sp = (if sp_channel sp = '''' then en_default_channel e else sp_channel sp)"

definition task_key_of :: "task_spec \<Rightarrow> int \<Rightarrow> string" where
  "task_key_of sp tid =
     (if sp_idempotency_key sp = '''' then ''auto:'' @ show_int tid else sp_idempotency_key sp)"

definition request_of ::
  "gotime \<Rightarrow> string \<Rightarrow> raw \<Rightarrow> int \<Rightarrow> func_task \<Rightarrow> enqueue_request" where
  "request_of now channel cb tid t =
     (let sp = ft_spec t in
      \<lparr>eq_task_id = tid,
       eq_type = sp_type sp,
       eq_operator = sp_operator sp,
       eq_priority = priority_of (sp_priority sp),
       eq_channel = channel,
       eq_timeout_ms = default_int64 (sp_timeout_ms sp) 60000,
       eq_max_attempts = to_int32 (default_int64 (sp_max_attempts sp) 3),
       eq_idempotency_key = task_key_of sp tid,
       eq_callback = cb,
       eq_parent_task_id = sp_parent_task_id sp,
       eq_vpc = sp_vpc sp,
       eq_node = sp_node sp,
       eq_label = sp_label sp,
       eq_hash_bucket = to_int16 (sp_hash_bucket sp),
       eq_biz_race_labels = sp_biz_race_labels sp,
       eq_biz_race_entry = sp_biz_race_entry sp,
       eq_biz_group = sp_biz_group sp,
       eq_biz_batch_id = sp_biz_batch_id sp,
       eq_payload = payload_or_empty (ft_payload t),
       eq_created_at = now,
       eq_updated_at = now\<rparr>)"

text \<open>\<open>Enqueue\<close>: an identifier is drawn only after the specification has passed.\<close>

definition enqueue_task ::
  "('s, 'g) enqueuer \<Rightarrow> gotime \<Rightarrow> func_task \<Rightarrow> 'g \<times> 's \<Rightarrow> (enqueue_error + int \<times> bool) \<times> ('g \<times> 's)" where
  "enqueue_task e now t gs =
     (case (en_store e, en_ids e) of
        (Some store, Some nxt) \<Rightarrow>
          (if sp_type (ft_spec t) = '''' then (Inl EmptyTaskType, gs)
           else if task_channel_of e (ft_spec t) = '''' then (Inl EmptyTaskChannel, gs)
           else case callback_bytes (sp_callback (ft_spec t)) of
               Inl _ \<Rightarrow> (Inl InvalidCallback, gs)
             | Inr cb \<Rightarrow>
                 (let (tid, g') = nxt (fst gs);
                      (res, s') = store (request_of now (task_channel_of e (ft_spec t)) cb tid t) (snd gs)
                  in (case res of
                        Inl err \<Rightarrow> Inl (EnqueueFailed err)
                      | Inr r \<Rightarrow> Inr (er_task_id r, er_created r), (g', s'))))
      | _ \<Rightarrow> (Inl EnqueuerNotConfigured, gs))"

text \<open>The sink of the factories (\<open>Sink\<close>).\<close>

definition enqueuer_sink ::
  "('s, 'g) enqueuer \<Rightarrow> gotime \<Rightarrow> func_task \<Rightarrow> 'g \<times> 's \<Rightarrow> enqueue_error option \<times> ('g \<times> 's)" where
  "enqueuer_sink e now t gs =
     (let (r, gs') = enqueue_task e now t gs in (case r of Inl err \<Rightarrow> Some err | Inr _ \<Rightarrow> None, gs'))"

section \<open>Factories\<close>

text \<open>\<open>GenPanics\<close>: the factory panics, which ends the process.\<close>

datatype generation = GenPanics | GenFailed string | Generated "func_task list"

record 'w factory =
  fa_name :: string
  fa_interval :: int
  fa_generate :: "gotime \<Rightarrow> 'w \<Rightarrow> generation \<times> 'w"

type_synonym 'w factories = "(string \<times> 'w factory) list"

datatype factory_error = NilFactory | EmptyFactoryName | DuplicateFactory string | NilFactoryRegistry

definition register_factory :: "'w factory option \<Rightarrow> 'w factories \<Rightarrow> factory_error + 'w factories" where
  "register_factory f fs =
     (case f of
        None \<Rightarrow> Inl NilFactory
      | Some x \<Rightarrow>
          if fa_name x = '''' then Inl EmptyFactoryName
          else if map_of fs (fa_name x) \<noteq> None then Inl (DuplicateFactory (fa_name x))
          else Inr (fs @ [(fa_name x, x)]))"

definition get_factory :: "'w factories \<Rightarrow> string \<Rightarrow> 'w factory option" where
  "get_factory fs n = map_of fs n"

definition all_factories :: "'w factories \<Rightarrow> 'w factory list" where
  "all_factories fs = sort_key fa_name (map snd fs)"

text \<open>\<open>RunOnce\<close> wraps the error of the sink with the factory's name, \<open>RunOnceFactory\<close> does not.\<close>

datatype 'e round_error = GenerateError string string | SinkError string 'e | PlainError 'e

fun sink_all :: "(func_task \<Rightarrow> 'w \<Rightarrow> 'e option \<times> 'w) \<Rightarrow> func_task list \<Rightarrow> 'w \<Rightarrow> (int \<times> 'e list) \<times> 'w" where
  "sink_all sink [] w = ((0, []), w)"
| "sink_all sink (t # ts) w =
     (let (e, w1) = sink t w; ((n, es), w2) = sink_all sink ts w1
      in (case e of None \<Rightarrow> (n + 1, es) | Some x \<Rightarrow> (n, x # es), w2))"

text \<open>\<open>RunOnce\<close> over the factories by name; \<open>None\<close> is a panic.\<close>

fun run_round ::
  "(func_task \<Rightarrow> 'w \<Rightarrow> 'e option \<times> 'w) \<Rightarrow> gotime \<Rightarrow> 'w factory list \<Rightarrow> 'w
     \<Rightarrow> ((int \<times> 'e round_error list) \<times> 'w) option" where
  "run_round sink now [] w = Some ((0, []), w)"
| "run_round sink now (f # fs) w =
     (case fa_generate f now w of
        (GenPanics, w1) \<Rightarrow> None
      | (GenFailed e, w1) \<Rightarrow>
          map_option (\<lambda>((n, es), w2). ((n, GenerateError (fa_name f) e # es), w2)) (run_round sink now fs w1)
      | (Generated ts, w1) \<Rightarrow>
          (let ((n, es), w2) = sink_all sink ts w1 in
           map_option (\<lambda>((n', es'), w3). ((n + n', map (SinkError (fa_name f)) es @ es'), w3))
             (run_round sink now fs w2)))"

definition factory_run_once ::
  "(func_task \<Rightarrow> 'w \<Rightarrow> 'e option \<times> 'w) \<Rightarrow> 'w factories \<Rightarrow> gotime \<Rightarrow> 'w
     \<Rightarrow> ((int \<times> 'e round_error list) \<times> 'w) option" where
  "factory_run_once sink fs now w = run_round sink now (all_factories fs) w"

text \<open>\<open>RunOnceFactory\<close>: the round of one factory on its own period.\<close>

definition run_one_factory ::
  "(func_task \<Rightarrow> 'w \<Rightarrow> 'e option \<times> 'w) \<Rightarrow> 'w factory \<Rightarrow> gotime \<Rightarrow> 'w
     \<Rightarrow> ((int \<times> 'e round_error list) \<times> 'w) option" where
  "run_one_factory sink f now w =
     (case fa_generate f now w of
        (GenPanics, w1) \<Rightarrow> None
      | (GenFailed e, w1) \<Rightarrow> Some ((0, [GenerateError (fa_name f) e]), w1)
      | (Generated ts, w1) \<Rightarrow>
          (let ((n, es), w2) = sink_all sink ts w1 in Some ((n, map PlainError es), w2)))"

section \<open>The heartbeat factory\<close>

definition heartbeat_name :: string where
  "heartbeat_name = ''demo.heartbeat''"

text \<open>Go's integer division, which truncates towards zero.\<close>

definition quot_int :: "int \<Rightarrow> int \<Rightarrow> int" where
  "quot_int a b = sgn a * sgn b * (\<bar>a\<bar> div \<bar>b\<bar>)"

definition unix_seconds :: "gotime \<Rightarrow> int" where
  "unix_seconds t = (t - unix_epoch) div 10 ^ 9"

text \<open>
  The period window: Unix seconds divided by the whole seconds of the interval (nanoseconds;
  its conversion over a \<open>float64\<close> is exact below 2^23 seconds). Below a second the divisor is 0.
\<close>

definition heartbeat_window :: "int \<Rightarrow> gotime \<Rightarrow> int option" where
  "heartbeat_window iv now =
     (if iv div 10 ^ 9 = 0 then None else Some (quot_int (unix_seconds now) (iv div 10 ^ 9)))"

definition heartbeat_task :: "string \<Rightarrow> int \<Rightarrow> func_task" where
  "heartbeat_task channel window =
     \<lparr>ft_spec = \<lparr>sp_type = ''demo'', sp_operator = ''heartbeat'', sp_priority = 50, sp_channel = channel,
        sp_vpc = '''', sp_node = '''', sp_label = '''', sp_hash_bucket = 0, sp_timeout_ms = 30000,
        sp_max_attempts = 3, sp_idempotency_key = ''demo:heartbeat:'' @ show_int window,
        sp_callback = NoContent, sp_parent_task_id = 0, sp_biz_race_labels = [], sp_biz_race_entry = '''',
        sp_biz_group = ''demo'', sp_biz_batch_id = heartbeat_name\<rparr>,
      ft_payload = NoContent\<rparr>"

definition heartbeat_generate :: "int \<Rightarrow> string \<Rightarrow> gotime \<Rightarrow> generation" where
  "heartbeat_generate iv channel now =
     (if iv \<le> 0 then Generated []
      else case heartbeat_window iv now of
          None \<Rightarrow> GenPanics
        | Some w \<Rightarrow> Generated [heartbeat_task channel w])"

definition heartbeat_factory :: "int \<Rightarrow> string \<Rightarrow> 'w factory" where
  "heartbeat_factory iv channel =
     \<lparr>fa_name = heartbeat_name, fa_interval = iv,
      fa_generate = (\<lambda>now w. (heartbeat_generate iv channel now, w))\<rparr>"

definition register_factories ::
  "int \<Rightarrow> string \<Rightarrow> 'w factories option \<Rightarrow> factory_error + 'w factories" where
  "register_factories iv channel reg =
     (case reg of
        None \<Rightarrow> Inl NilFactoryRegistry
      | Some fs \<Rightarrow> if iv \<le> 0 then Inr fs else register_factory (Some (heartbeat_factory iv channel)) fs)"

section \<open>Identifiers of different nodes\<close>

text \<open>
  The node number that seeds the identifier generator always fits the ten bits of the
  snowflake layout, so the generator is always constructed; but it does not tell all nodes
  apart: the nodes node-10 and node-151 get the same number, so that in one millisecond they
  can generate the same task identifiers.
\<close>

theorem node_numbers_collide:
  "0 \<le> node_bits s \<and> node_bits s < 1024
   \<and> node_bits ''node-10'' = node_bits ''node-151'' \<and> node_bits ''node-10'' = 713"
proof -
  have mask: "uint (fnv32a s AND 1023) = uint (fnv32a s) mod 1024" for s
  proof -
    have "uint (fnv32a s AND 1023) = uint (fnv32a s) AND mask 10"
      by (simp add: uint_and mask_eq_exp_minus_1)
    also have "\<dots> = uint (fnv32a s) mod 1024"
      by (simp add: take_bit_eq_mask [symmetric] take_bit_eq_mod)
    finally show ?thesis .
  qed
  have "node_bits ''node-10'' = 713" "node_bits ''node-151'' = 713" by code_simp+
  then show ?thesis
    by (auto simp: node_bits_def mask)
qed

section \<open>Enqueued rows\<close>

lemma enqueue_task_Inr:
  assumes "enqueue_task e now t (g, s) = (Inr (tid, c), (g', s'))"
    and "en_store e = Some (enqueue tx clk)"
  obtains nxt cb fresh r where
    "en_ids e = Some nxt" "nxt g = (fresh, g')" "sp_type (ft_spec t) \<noteq> ''''"
    "task_channel_of e (ft_spec t) \<noteq> ''''" "callback_bytes (sp_callback (ft_spec t)) = Inr cb"
    "enqueue tx clk (request_of now (task_channel_of e (ft_spec t)) cb fresh t) s = (Inr r, s')"
    "tid = er_task_id r" "c = er_created r"
  using assms
  by (auto simp: enqueue_task_def split: option.splits if_splits sum.splits prod.splits)

lemma callback_bytes_decode:
  assumes "callback_bytes c = Inr cb"
  shows "\<exists>sp. unmarshal_callback cb = Inr sp"
  using assms
  by (auto simp: callback_bytes_def unmarshal_callback_def result_simps split: content.splits)

lemma priority_of_range: "0 \<le> priority_of p \<and> priority_of p \<le> 100"
  by (auto simp: priority_of_def default_priority_def min_priority_def max_priority_def)

lemma request_of_simps [simp]:
  "eq_task_id (request_of now ch cb tid t) = tid"
  "eq_type (request_of now ch cb tid t) = sp_type (ft_spec t)"
  "eq_priority (request_of now ch cb tid t) = priority_of (sp_priority (ft_spec t))"
  "eq_channel (request_of now ch cb tid t) = ch"
  "eq_timeout_ms (request_of now ch cb tid t) = default_int64 (sp_timeout_ms (ft_spec t)) 60000"
  "eq_max_attempts (request_of now ch cb tid t) = to_int32 (default_int64 (sp_max_attempts (ft_spec t)) 3)"
  "eq_idempotency_key (request_of now ch cb tid t) = task_key_of (ft_spec t) tid"
  "eq_callback (request_of now ch cb tid t) = cb"
  "eq_hash_bucket (request_of now ch cb tid t) = to_int16 (sp_hash_bucket (ft_spec t))"
  "eq_payload (request_of now ch cb tid t) = payload_or_empty (ft_payload t)"
  by (simp_all add: request_of_def Let_def)

lemma task_key_ne: "task_key_of sp tid \<noteq> ''''"
  by (simp add: task_key_of_def)

lemma created_row:
  assumes "enqueue_body c u req s = Inr (r, s')" "er_created r"
  shows "er_task_id r = eq_task_id req
       \<and> table_find task_id (er_task_id r) (pendings s') = Some (pending_of_request c u req)
       \<and> get_payload (er_task_id r) s' = Inr (json_or_null (eq_payload req))
       \<and> pending_check (pending_of_request c u req)"
proof -
  obtain s1 where s1: "er_task_id r = eq_task_id req"
    "adds_pending (pending_of_request c u req) (json_or_null (eq_payload req)) c s1 s'"
    using enqueue_body_effect [OF assms(1)] assms(2) by blast
  have i: "task_id (pending_of_request c u req) = eq_task_id req"
    by (simp add: pending_of_request_def)
  show ?thesis
    using s1 i
    by (auto simp: adds_pending_def table_find_append table_find_Cons get_payload_def
        table_find_None [THEN iffD2] read_row_def)
qed

text \<open>
  C9. A task the enqueuer creates is well-typed in the ledger: its row carries the fresh
  identifier, a type, a channel, a key, a priority between 0 and 100 and a bucket between 0
  and 255, a positive timeout and a positive number of attempts, a callback column that
  decodes, and the payload of the task, whatever the specification left out or exceeded.
\<close>

theorem created_task_well_typed:
  assumes "enqueue_task e now t (g, s) = (Inr (tid, True), (g', s'))"
    and "en_store e = Some (enqueue tx clk)"
    and "in_int32 (sp_max_attempts (ft_spec t))"
  shows "\<exists>p. table_find task_id tid (pendings s') = Some p
       \<and> task_type p \<noteq> '''' \<and> task_channel p \<noteq> '''' \<and> idempotency_key p \<noteq> ''''
       \<and> 0 \<le> priority p \<and> priority p \<le> 100
       \<and> 0 \<le> hash_bucket p \<and> hash_bucket p \<le> 255
       \<and> 0 < timeout_ms p \<and> 0 < max_attempts p
       \<and> is_ok (unmarshal_callback (callback p))
       \<and> get_payload tid s' = Inr (json_or_null (payload_or_empty (ft_payload t)))"
proof -
  obtain nxt cb fresh r where q: "sp_type (ft_spec t) \<noteq> ''''"
    "task_channel_of e (ft_spec t) \<noteq> ''''" "callback_bytes (sp_callback (ft_spec t)) = Inr cb"
    "enqueue tx clk (request_of now (task_channel_of e (ft_spec t)) cb fresh t) s = (Inr r, s')"
    "tid = er_task_id r" "er_created r"
    using enqueue_task_Inr [OF assms(1,2)] by metis
  obtain c u where b: "enqueue_body c u (request_of now (task_channel_of e (ft_spec t)) cb fresh t) s = Inr (r, s')"
    using enqueue_body_of [OF q(4)] .
  define p where "p = pending_of_request c u (request_of now (task_channel_of e (ft_spec t)) cb fresh t)"
  note row = created_row [OF b q(6)]
  have f: "task_type p = sp_type (ft_spec t)" "task_channel p = task_channel_of e (ft_spec t)"
    "idempotency_key p = task_key_of (ft_spec t) fresh" "priority p = priority_of (sp_priority (ft_spec t))"
    "timeout_ms p = default_int64 (sp_timeout_ms (ft_spec t)) 60000"
    "max_attempts p = to_int32 (default_int64 (sp_max_attempts (ft_spec t)) 3)" "callback p = cb"
    by (simp_all add: p_def pending_of_request_def)
  have "in_int32 (default_int64 (sp_max_attempts (ft_spec t)) 3)"
    using assms(3) by (simp add: default_int64_def in_int32_def)
  then have pos: "0 < max_attempts p" "0 < timeout_ms p"
    using f by (simp_all add: to_int32_id default_int64_def)
  have bucket: "0 \<le> hash_bucket p" "hash_bucket p \<le> 255"
    using row by (simp_all add: p_def [symmetric] pending_check_def bucket_check_def)
  obtain sp where "unmarshal_callback cb = Inr sp"
    using callback_bytes_decode [OF q(3)] by blast
  then have "is_ok (unmarshal_callback (callback p))"
    using f by simp
  moreover have "table_find task_id tid (pendings s') = Some p"
    using row unfolding q(5) p_def by blast
  moreover have "get_payload tid s' = Inr (json_or_null (payload_or_empty (ft_payload t)))"
    using row unfolding q(5) request_of_simps by blast
  ultimately show ?thesis
    using f pos bucket q(1,2) task_key_ne priority_of_range by auto
qed

definition counting_enqueuer :: "gotime \<Rightarrow> (ledger, int) enqueuer" where
  "counting_enqueuer clk =
     \<lparr>en_store = Some (enqueue tx_fine clk), en_ids = Some (\<lambda>g. (g, g + 1)), en_default_channel = ''default''\<rparr>"

lemma created_task_well_typed_witness:
  "\<exists>p. table_find task_id 7
        (pendings (snd (snd (enqueue_task (counting_enqueuer 5) 5 (heartbeat_task '''' 3) (7, empty_ledger))))) = Some p
      \<and> 0 \<le> priority p \<and> priority p \<le> 100 \<and> 0 < timeout_ms p \<and> task_channel p \<noteq> ''''"
proof -
  obtain s' where e: "enqueue_task (counting_enqueuer 5) 5 (heartbeat_task '''' 3) (7, empty_ledger) =
      (Inr (7, True), (8, s'))"
  proof -
    have "fst (enqueue_task (counting_enqueuer 5) 5 (heartbeat_task '''' 3) (7, empty_ledger)) = Inr (7, True)"
      "fst (snd (enqueue_task (counting_enqueuer 5) 5 (heartbeat_task '''' 3) (7, empty_ledger))) = 8"
      by code_simp+
    then show ?thesis using that by (metis surjective_pairing)
  qed
  have st: "en_store (counting_enqueuer 5) = Some (enqueue tx_fine 5)"
    by (simp add: counting_enqueuer_def)
  have i: "in_int32 (sp_max_attempts (ft_spec (heartbeat_task '''' 3)))"
    by (simp add: heartbeat_task_def in_int32_def)
  show ?thesis
    using created_task_well_typed [OF e st i] e by auto
qed

section \<open>Heartbeats\<close>

lemma factory_round_heartbeat:
  assumes "heartbeat_window iv now = Some w" "0 < iv"
  shows "factory_run_once sink [(heartbeat_name, heartbeat_factory iv ch)] now st =
    (let (e, st') = sink (heartbeat_task ch w) st in
     Some (case e of None \<Rightarrow> ((1, []), st') | Some x \<Rightarrow> ((0, [SinkError heartbeat_name x]), st')))"
  using assms
  by (simp add: factory_run_once_def all_factories_def heartbeat_factory_def heartbeat_generate_def
      Let_def split: prod.splits option.splits)

lemma heartbeat_bound:
  assumes "enqueuer_sink e now (heartbeat_task ch w) (g, s) = (None, (g', s'))"
    and "en_store e = Some (enqueue tx clk)" and ok: "ledger_ok s"
  shows "\<exists>i. table_find identity_key (''demo:heartbeat:'' @ show_int w) (identities s') = Some i"
proof -
  obtain tid c where r: "enqueue_task e now (heartbeat_task ch w) (g, s) = (Inr (tid, c), (g', s'))"
    using assms(1) by (auto simp: enqueuer_sink_def split: sum.splits prod.splits)
  obtain nxt cb fresh r where q: "enqueue tx clk (request_of now (task_channel_of e (ft_spec (heartbeat_task ch w))) cb fresh
      (heartbeat_task ch w)) s = (Inr r, s')"
    using enqueue_task_Inr [OF r assms(2)] by metis
  obtain cr u where "enqueue_body cr u (request_of now (task_channel_of e (ft_spec (heartbeat_task ch w))) cb fresh
      (heartbeat_task ch w)) s = Inr (r, s')"
    using enqueue_body_of [OF q] .
  from enqueue_binds_key [OF this _ ok] show ?thesis
    by (auto simp: task_key_of_def heartbeat_task_def)
qed

lemma heartbeat_repeated:
  assumes "table_find identity_key (''demo:heartbeat:'' @ show_int w) (identities s) = Some i"
    and "en_store e = Some (enqueue tx_fine clk)" "en_ids e = Some nxt"
    and "task_channel_of e (ft_spec (heartbeat_task ch w)) \<noteq> ''''"
  shows "enqueuer_sink e now (heartbeat_task ch w) (g, s) = (None, (snd (nxt g), s))"
proof -
  let ?t = "heartbeat_task ch w"
  obtain fresh g' where n: "nxt g = (fresh, g')" by fastforce
  let ?req = "request_of now (task_channel_of e (ft_spec ?t)) None fresh ?t"
  have k: "eq_idempotency_key ?req = ''demo:heartbeat:'' @ show_int w"
    by (simp add: task_key_of_def heartbeat_task_def)
  have b: "enqueue_body c u ?req s = Inr (\<lparr>er_task_id = identity_task i, er_created = False\<rparr>, s)" for c u
    using enqueue_body_bound_key [of ?req s i] assms(1) k by simp
  have st: "enqueue tx_fine clk ?req s = (Inr \<lparr>er_task_id = identity_task i, er_created = False\<rparr>, s)"
    unfolding enqueue_def Let_def with_tx_def b by (simp add: tx_fine_def)
  have "callback_bytes (sp_callback (ft_spec ?t)) = Inr None" "sp_type (ft_spec ?t) \<noteq> []"
    by (simp_all add: heartbeat_task_def callback_bytes_def)
  then show ?thesis
    using assms(2-4) n st by (simp add: enqueuer_sink_def enqueue_task_def)
qed

text \<open>
  Heartbeats are idempotent per window: once a round of the heartbeat factory has been
  enqueued, a later round in the same window, by any node with its own identifiers and after
  any evolution of the ledger, succeeds and leaves the ledger as it is; in another window the
  key is another one.
\<close>

theorem heartbeat_once_per_window:
  assumes "ledger_run empty_ledger s" and "0 < iv"
    and "factory_run_once (enqueuer_sink e now) [(heartbeat_name, heartbeat_factory iv ch)] now (g, s)
      = Some ((1, []), (g1, s1))"
    and "en_store e = Some (enqueue tx now)"
    and "ledger_run s1 s2"
    and "en_store e' = Some (enqueue tx_fine now')" "en_ids e' = Some nxt'"
    and "en_default_channel e' = en_default_channel e"
    and "heartbeat_window iv now' = heartbeat_window iv now"
  shows "factory_run_once (enqueuer_sink e' now') [(heartbeat_name, heartbeat_factory iv ch)] now' (g2, s2)
      = Some ((1, []), (snd (nxt' g2), s2))
    \<and> (w \<noteq> w2 \<longrightarrow> sp_idempotency_key (ft_spec (heartbeat_task ch w)) \<noteq> sp_idempotency_key (ft_spec (heartbeat_task ch w2)))"
proof -
  obtain v where v: "heartbeat_window iv now = Some v"
    using assms(2,3) by (cases "heartbeat_window iv now")
      (auto simp: factory_run_once_def all_factories_def heartbeat_factory_def heartbeat_generate_def)
  have sunk: "enqueuer_sink e now (heartbeat_task ch v) (g, s) = (None, (g1, s1))"
    using assms(3) factory_round_heartbeat [OF v assms(2), of "enqueuer_sink e now" ch "(g, s)"]
    by (auto split: option.splits prod.splits)
  have "ledger_ok s" using assms(1) ledger_ok_run ledger_ok_empty by blast
  then obtain i where i: "table_find identity_key (''demo:heartbeat:'' @ show_int v) (identities s1) = Some i"
    using heartbeat_bound [OF sunk assms(4)] by blast
  have i2: "table_find identity_key (''demo:heartbeat:'' @ show_int v) (identities s2) = Some i"
    using extends_find(2) [OF extends_run [OF assms(5)] i] .
  have ch: "task_channel_of e' (ft_spec (heartbeat_task ch v)) \<noteq> ''''"
  proof -
    obtain tid c where "enqueue_task e now (heartbeat_task ch v) (g, s) = (Inr (tid, c), (g1, s1))"
      using sunk by (auto simp: enqueuer_sink_def split: sum.splits prod.splits)
    from enqueue_task_Inr [OF this assms(4)] show ?thesis
      using assms(8) by (metis task_channel_of_def)
  qed
  have "enqueuer_sink e' now' (heartbeat_task ch v) (g2, s2) = (None, (snd (nxt' g2), s2))"
    using heartbeat_repeated [OF i2 assms(6,7) ch] .
  then have "factory_run_once (enqueuer_sink e' now') [(heartbeat_name, heartbeat_factory iv ch)] now' (g2, s2)
      = Some ((1, []), (snd (nxt' g2), s2))"
    using factory_round_heartbeat [of iv now' v "enqueuer_sink e' now'" ch "(g2, s2)"] v assms(2,9) by simp
  then show ?thesis
    using show_int_inj by (auto simp: heartbeat_task_def)
qed

definition heartbeat_round :: "gotime \<Rightarrow> int \<times> ledger \<Rightarrow> ((int \<times> enqueue_error round_error list) \<times> (int \<times> ledger)) option" where
  "heartbeat_round now =
     factory_run_once (enqueuer_sink (counting_enqueuer now) now)
       [(heartbeat_name, heartbeat_factory (60 * 10 ^ 9) ''q'')] now"

lemma heartbeat_once_per_window_witness:
  "\<exists>s1. heartbeat_round (unix_epoch + 61 * 10 ^ 9) (7, empty_ledger) = Some ((1, []), (8, s1))
      \<and> heartbeat_round (unix_epoch + 119 * 10 ^ 9) (40, s1) = Some ((1, []), (41, s1))
      \<and> length (pendings s1) = 1"
proof -
  let ?n1 = "unix_epoch + 61 * 10 ^ 9" and ?n2 = "unix_epoch + 119 * 10 ^ 9"
  obtain s1 where r: "heartbeat_round ?n1 (7, empty_ledger) = Some ((1, []), (8, s1))" "length (pendings s1) = 1"
  proof -
    have "map_option (\<lambda>(r, g, s). (r, g, length (pendings s))) (heartbeat_round ?n1 (7, empty_ledger)) =
        Some ((1, []), 8, 1)" by code_simp
    then show ?thesis using that by (auto split: prod.splits)
  qed
  have w: "heartbeat_window (60 * 10 ^ 9) ?n2 = heartbeat_window (60 * 10 ^ 9) ?n1"
    by code_simp
  have "heartbeat_round ?n2 (40, s1) = Some ((1, []), (snd ((\<lambda>g. (g, g + 1)) (40 :: int)), s1))"
    using heartbeat_once_per_window [where iv = "60 * 10 ^ 9" and e = "counting_enqueuer ?n1"
        and e' = "counting_enqueuer ?n2" and tx = tx_fine, OF run_refl _ _ _ run_refl _ _ _ w] r(1)
    by (auto simp: heartbeat_round_def counting_enqueuer_def)
  then show ?thesis using r by auto
qed

text \<open>An interval below a second makes the first round panic.\<close>

lemma heartbeat_subsecond_panics:
  assumes "0 < iv" "iv < 10 ^ 9"
  shows "factory_run_once sink [(heartbeat_name, heartbeat_factory iv ch)] now st = None"
  using assms
  by (simp add: factory_run_once_def all_factories_def heartbeat_factory_def heartbeat_generate_def
      heartbeat_window_def div_pos_pos_trivial)

end
