(* ===== verification/Service.thy ===== *)
theory Service
  imports Dispatch Forward Worker Collector
begin

text \<open>
  The service layer: the executor service and the entry points of results
  (\<open>internal/biz/task/executor.go\<close>, \<open>internal/runtime/collector/runner.go\<close>), the publisher of
  results (\<open>internal/biz/task/result_publisher.go\<close>) and the dispatch service with its relaying
  between nodes (\<open>internal/biz/dispatch/dispatch.go\<close>). The protobuf codecs are arguments.
\<close>

section \<open>The executor service\<close>

text \<open>A consumer takes an event (possibly nil) and reports an error or nothing.\<close>

type_synonym 'c consumer = "result_event option \<Rightarrow> 'c \<Rightarrow> string option \<times> 'c"

datatype executor_error = NoTaskMessage | NoRuntime | NoConsumer | StreamBroken | SendFailed

definition execute_rpc ::
  "('w worker \<times> 's wal_ops) option \<Rightarrow> 'c consumer option \<Rightarrow> int \<Rightarrow> int \<Rightarrow> task_message option
     \<Rightarrow> ('s \<times> 'w) \<times> 'c \<Rightarrow> (executor_error + result_event) \<times> (('s \<times> 'w) \<times> 'c)" where
  "execute_rpc runtime consumer start finish msg st =
     (case msg of None \<Rightarrow> (Inl NoTaskMessage, st)
      | Some m \<Rightarrow>
          (case runtime of None \<Rightarrow> (Inl NoRuntime, st)
           | Some (k, L) \<Rightarrow>
               (let (ev, x) = execute k L start finish m (fst st);
                    c = (case consumer of None \<Rightarrow> snd st | Some f \<Rightarrow> snd (f (Some ev) (snd st)))
                in (Inr ev, (x, c)))))"

definition ack_of :: "result_event \<Rightarrow> string option \<Rightarrow> result_ack" where
  "ack_of ev err =
     \<lparr>ra_accepted = (err = None), ra_message = (case err of None \<Rightarrow> '''' | Some e \<Rightarrow> e),
      ra_task_id = re_task_id ev, ra_attempt = re_attempt ev\<rparr>"

text \<open>
  \<open>ResultStream\<close>: the events received until the stream ends (\<open>eof\<close>) or breaks; \<open>sends i\<close>
  says whether the acknowledgement of the \<open>i\<close>-th event is sent.
\<close>

fun stream_loop ::
  "'c consumer \<Rightarrow> (nat \<Rightarrow> bool) \<Rightarrow> bool \<Rightarrow> nat \<Rightarrow> result_event list \<Rightarrow> 'c
     \<Rightarrow> (executor_error option \<times> result_ack list) \<times> 'c" where
  "stream_loop f sends eof i [] c = ((if eof then None else Some StreamBroken, []), c)"
| "stream_loop f sends eof i (ev # evs) c =
     (let (err, c') = f (Some ev) c in
      if sends i then
        (let ((e, acks), c'') = stream_loop f sends eof (Suc i) evs c' in ((e, ack_of ev err # acks), c''))
      else ((Some SendFailed, []), c'))"

definition result_stream ::
  "'c consumer option \<Rightarrow> (nat \<Rightarrow> bool) \<Rightarrow> bool \<Rightarrow> result_event list \<Rightarrow> 'c
     \<Rightarrow> (executor_error option \<times> result_ack list) \<times> 'c" where
  "result_stream consumer sends eof evs c =
     (case consumer of None \<Rightarrow> ((Some NoConsumer, []), c) | Some f \<Rightarrow> stream_loop f sends eof 0 evs c)"

text \<open>\<open>Collect\<close>: the numbers of accepted and rejected events.\<close>

fun collect_loop :: "'c consumer option \<Rightarrow> result_event option list \<Rightarrow> int \<times> int \<Rightarrow> 'c \<Rightarrow> (int \<times> int) \<times> 'c" where
  "collect_loop consumer [] n c = (n, c)"
| "collect_loop consumer (ev # evs) (a, r) c =
     (case consumer of
        None \<Rightarrow> collect_loop consumer evs (a, r + 1) c
      | Some f \<Rightarrow>
          (case f ev c of
             (Some e, c') \<Rightarrow> collect_loop consumer evs (a, r + 1) c'
           | (None, c') \<Rightarrow> collect_loop consumer evs (a + 1, r) c'))"

definition collect_batch :: "'c consumer option \<Rightarrow> result_event option list \<Rightarrow> 'c \<Rightarrow> (int \<times> int) \<times> 'c" where
  "collect_batch consumer evs c = collect_loop consumer evs (0, 0) c"

text \<open>The runner's handler: decode an envelope, then the same consumer.\<close>

definition runner_handle ::
  "('p \<Rightarrow> result_event option) \<Rightarrow> 'c consumer \<Rightarrow> 'p envelope \<Rightarrow> 'c \<Rightarrow> string option \<times> 'c" where
  "runner_handle decode f env c =
     (case decode (env_payload env) of
        None \<Rightarrow> (Some ''decode result event'', c)
      | Some ev \<Rightarrow> f (Some ev) c)"

text \<open>The collector as a consumer.\<close>

definition collect_error_text :: "collect_error \<Rightarrow> string" where
  "collect_error_text e =
     (case e of NilLedger \<Rightarrow> ''nil ledger'' | InvalidEvent \<Rightarrow> ''invalid event'' | CollectFailed _ \<Rightarrow> ''ledger'')"

definition collector_consumer :: "'s result_ledger option \<Rightarrow> gotime \<Rightarrow> 's consumer" where
  "collector_consumer L now ev s =
     (let (r, s') = consume L now ev s in
      (case r of Inl e \<Rightarrow> Some (collect_error_text e) | Inr _ \<Rightarrow> None, s'))"

section \<open>Publishing results\<close>

definition result_topic :: string where
  "result_topic = ''result''"

definition channel_stream_name :: string where
  "channel_stream_name = ''stream''"

record 'v result_view =
  rv_set_state :: "task_state \<Rightarrow> 'v \<Rightarrow> 'v"
  rv_decr :: "string \<Rightarrow> 'v \<Rightarrow> 'v"

record ('p, 'v, 'w) publisher =
  pb_call :: "(string \<Rightarrow> 'p envelope \<Rightarrow> 'w \<Rightarrow> (string + 'p envelope) \<times> 'w) option"
  pb_channel :: string
  pb_nodes :: "(string \<times> (string \<Rightarrow> cluster_node option)) option"
  pb_view :: "'v result_view option"
  pb_marshal :: "result_event \<Rightarrow> string + 'p"

definition result_envelope :: "('p, 'v, 'w) publisher \<Rightarrow> result_event \<Rightarrow> 'p \<Rightarrow> 'p envelope" where
  "result_envelope b ev p =
     \<lparr>env_topic = result_topic, env_key = show_int (re_task_id ev), env_attempt = re_attempt ev,
      env_correlation = '''',
      env_target = (case pb_nodes b of None \<Rightarrow> ''''
        | Some (leader, resolve) \<Rightarrow> (case resolve leader of None \<Rightarrow> '''' | Some n \<Rightarrow> nd_address n)),
      env_headers = [], env_payload = p\<rparr>"

definition update_view :: "('p, 'v, 'w) publisher \<Rightarrow> result_event \<Rightarrow> 'v \<Rightarrow> 'v" where
  "update_view b ev v =
     (case pb_view b of None \<Rightarrow> v
      | Some V \<Rightarrow>
          (let v1 = rv_set_state V \<lparr>ts_task = re_task_id ev, ts_attempt = re_attempt ev,
                 ts_state = (if re_outcome ev = wire_succeeded then StateSucceeded else StateFailed),
                 ts_node = re_source ev, ts_queue = '''', ts_error = re_error ev, ts_updated = 0\<rparr> v
           in if re_source ev \<noteq> '''' then rv_decr V (re_source ev) v1 else v1))"

datatype publish_error = PublishNoBus | PublishEncode string | PublishCall string

definition publish ::
  "('p, 'v, 'w) publisher \<Rightarrow> result_event \<Rightarrow> 'v \<times> 'w \<Rightarrow> publish_error option \<times> ('v \<times> 'w)" where
  "publish b ev st =
     (case pb_call b of None \<Rightarrow> (Some PublishNoBus, st)
      | Some call \<Rightarrow>
          (case pb_marshal b ev of Inl e \<Rightarrow> (Some (PublishEncode e), st)
           | Inr p \<Rightarrow>
               (let name = (if pb_channel b = '''' then channel_stream_name else pb_channel b);
                    (v, w) = st; (r, w') = call name (result_envelope b ev p) w
                in case r of Inl e \<Rightarrow> (Some (PublishCall e), (v, w'))
                   | Inr _ \<Rightarrow> (None, (update_view b ev v, w')))))"

section \<open>The dispatch service\<close>

record rpc_request =
  rq_queue :: string
  rq_task :: "task_message option"
  rq_semantics :: int
  rq_delivery :: int
  rq_target :: string
  rq_allow_forward :: bool
  rq_dedupe_key :: string

record rpc_response =
  rp_task_id :: int
  rp_target :: string
  rp_accepted :: bool
  rp_forwarded_by :: string
  rp_duplicate :: bool
  rp_message :: string

datatype service_error =
    DispatchNoTask | DispatchNoTarget | DispatchEncode string | ForwardFailed fwd_error
  | BadForwardReply | DeliverFailed dispatch_error

text \<open>The enumerations of the RPC are open; an unset field is 0.\<close>

definition semantics_of :: "int \<Rightarrow> string" where
  "semantics_of n = (if n = 1 then at_most_once else if n = 2 then exactly_once else at_least_once)"

definition delivery_of :: "int \<Rightarrow> string" where
  "delivery_of n = (if n = 1 then delivery_sync_rpc else delivery_redis_queue)"

definition dispatch_method :: string where
  "dispatch_method = ''/dispatch.v1.DispatchService/Dispatch''"

text \<open>
  The server: the dispatcher through its two operations, the node view, the forwarder, its
  own identifier and the configuration; and the codecs of requests and responses.
\<close>

record ('p, 'st) dispatch_server =
  sv_deliver :: "dispatch_request \<Rightarrow> 'st \<Rightarrow> (dispatch_error option \<times> dispatch_result option) \<times> 'st"
  sv_resolve :: "task_message \<Rightarrow> cluster_node option"
  sv_nodes :: "(string \<Rightarrow> cluster_node option) option"
  sv_forward :: "(string \<Rightarrow> string \<Rightarrow> 'p \<Rightarrow> headers \<Rightarrow> int \<Rightarrow> 'st \<Rightarrow> (fwd_error + 'p) \<times> 'st) option"
  sv_self :: string
  sv_may_forward :: bool
  sv_max_hops :: int
  sv_enc_req :: "rpc_request \<Rightarrow> string + 'p"
  sv_dec_req :: "'p \<Rightarrow> rpc_request option"
  sv_enc_resp :: "rpc_response \<Rightarrow> string + 'p"
  sv_dec_resp :: "'p \<Rightarrow> rpc_response option"

definition should_forward :: "('p, 'st) dispatch_server \<Rightarrow> rpc_request \<Rightarrow> string \<Rightarrow> bool" where
  "should_forward s q target \<longleftrightarrow>
     sv_may_forward s \<and> rq_allow_forward q \<and> sv_forward s \<noteq> None \<and> target \<noteq> '''' \<and> target \<noteq> sv_self s"

definition delivery_request :: "('p, 'st) dispatch_server \<Rightarrow> rpc_request \<Rightarrow> string \<Rightarrow> dispatch_request" where
  "delivery_request s q target =
     \<lparr>dr_queue = rq_queue q, dr_message = rq_task q, dr_delivery = delivery_of (rq_delivery q),
      dr_semantics = semantics_of (rq_semantics q),
      dr_target = (case sv_nodes s of
          Some nodes \<Rightarrow> (case nodes target of Some n \<Rightarrow> n | None \<Rightarrow> zero_node\<lparr>nd_id := target\<rparr>)
        | None \<Rightarrow> zero_node\<lparr>nd_id := target\<rparr>),
      dr_dedupe_key = rq_dedupe_key q,
      dr_correlation = (case rq_task q of None \<Rightarrow> '''' | Some m \<Rightarrow> tm_idempotency_key m)\<rparr>"

text \<open>A nil result without an error does not occur (\<open>Dispatch.deliver\<close>); the code would panic on it.\<close>

definition response_of :: "dispatch_result option \<Rightarrow> rpc_response" where
  "response_of r =
     (case r of
        None \<Rightarrow> \<lparr>rp_task_id = 0, rp_target = '''', rp_accepted = False, rp_forwarded_by = '''',
          rp_duplicate = False, rp_message = ''''\<rparr>
      | Some d \<Rightarrow> \<lparr>rp_task_id = ds_task_id d, rp_target = ds_target d, rp_accepted = ds_accepted d,
          rp_forwarded_by = '''', rp_duplicate = ds_duplicate d, rp_message = ds_message d\<rparr>)"

definition deliver_local ::
  "('p, 'st) dispatch_server \<Rightarrow> rpc_request \<Rightarrow> string \<Rightarrow> 'st \<Rightarrow> (service_error + rpc_response) \<times> 'st" where
  "deliver_local s q target st =
     (case sv_deliver s (delivery_request s q target) st of
        ((Some e, _), st') \<Rightarrow> (Inl (DeliverFailed e), st')
      | ((None, r), st') \<Rightarrow> (Inr (response_of r), st'))"

definition dispatch_forward ::
  "('p, 'st) dispatch_server \<Rightarrow> rpc_request \<Rightarrow> string \<Rightarrow> 'st \<Rightarrow> (service_error + rpc_response) \<times> 'st" where
  "dispatch_forward s q target st =
     (case sv_enc_req s q of
        Inl e \<Rightarrow> (Inl (DispatchEncode e), st)
      | Inr p \<Rightarrow>
          (case sv_forward s of
             None \<Rightarrow> (Inl (ForwardFailed (NoRouter dispatch_method)), st)
           | Some fwd \<Rightarrow>
               (case fwd target dispatch_method p
                       [(''dispatch.origin'', sv_self s), (''dispatch.target'', target)]
                       (to_int32 (sv_max_hops s)) st of
                  (Inl e, st') \<Rightarrow> (Inl (ForwardFailed e), st')
                | (Inr out, st') \<Rightarrow>
                    (case sv_dec_resp s out of
                       None \<Rightarrow> (Inl BadForwardReply, st')
                     | Some r \<Rightarrow> (Inr (r\<lparr>rp_forwarded_by := sv_self s\<rparr>), st')))))"

definition dispatch_rpc ::
  "('p, 'st) dispatch_server \<Rightarrow> rpc_request \<Rightarrow> 'st \<Rightarrow> (service_error + rpc_response) \<times> 'st" where
  "dispatch_rpc s q st =
     (case rq_task q of None \<Rightarrow> (Inl DispatchNoTask, st)
      | Some m \<Rightarrow>
          (case (if rq_target q \<noteq> '''' then Some (rq_target q) else map_option nd_id (sv_resolve s m)) of
             None \<Rightarrow> (Inl DispatchNoTarget, st)
           | Some target \<Rightarrow>
               if should_forward s q target then dispatch_forward s q target st
               else deliver_local s q target st))"

text \<open>\<open>HandleForwarded\<close>: always delivers here; its errors travel as text.\<close>

definition handle_forwarded ::
  "(service_error \<Rightarrow> string) \<Rightarrow> ('p, 'st) dispatch_server \<Rightarrow> 'p \<Rightarrow> headers \<Rightarrow> 'st \<Rightarrow> (string + 'p) \<times> 'st" where
  "handle_forwarded text_of s p hs st =
     (case sv_dec_req s p of
        None \<Rightarrow> (Inl ''decode'', st)
      | Some q \<Rightarrow>
          (case deliver_local s q (if rq_target q = '''' then sv_self s else rq_target q) st of
             (Inl e, st') \<Rightarrow> (Inl (text_of e), st')
           | (Inr r, st') \<Rightarrow> (sv_enc_resp s r, st')))"

text \<open>A server over the dispatcher of \<open>Dispatch\<close>.\<close>

definition dispatcher_server ::
  "'v view_ops \<Rightarrow> ('p, 'w) dispatcher \<Rightarrow> ('q, 'v \<times> 'w) dispatch_server \<Rightarrow> ('q, 'v \<times> 'w) dispatch_server" where
  "dispatcher_server V d s = s\<lparr>sv_deliver := deliver V d, sv_resolve := resolve_task_target d\<rparr>"

section \<open>The entry points of results agree\<close>

definition consume_all :: "'c consumer \<Rightarrow> result_event list \<Rightarrow> 'c \<Rightarrow> 'c" where
  "consume_all f evs c = fold (\<lambda>ev c. snd (f (Some ev) c)) evs c"

fun errors_of :: "'c consumer \<Rightarrow> result_event list \<Rightarrow> 'c \<Rightarrow> string option list" where
  "errors_of f [] c = []"
| "errors_of f (ev # evs) c = fst (f (Some ev) c) # errors_of f evs (snd (f (Some ev) c))"

lemma stream_loop_prefix:
  assumes "\<And>j. i \<le> j \<Longrightarrow> j < i + length evs \<Longrightarrow> sends j"
  shows "stream_loop f sends eof i (evs @ rest) c =
    (let ((e, acks), c') = stream_loop f sends eof (i + length evs) rest (consume_all f evs c)
     in ((e, map2 ack_of evs (errors_of f evs c) @ acks), c'))"
  using assms
proof (induction evs arbitrary: i c)
  case Nil
  then show ?case by (simp add: consume_all_def split: prod.split)
next
  case (Cons ev evs)
  have "sends i" using Cons.prems [of i] by simp
  moreover have "stream_loop f sends eof (Suc i) (evs @ rest) (snd (f (Some ev) c)) =
    (let ((e, acks), c') = stream_loop f sends eof (Suc i + length evs) rest (consume_all f evs (snd (f (Some ev) c)))
     in ((e, map2 ack_of evs (errors_of f evs (snd (f (Some ev) c))) @ acks), c'))"
    using Cons.prems by (intro Cons.IH) auto
  ultimately show ?case
    by (simp add: consume_all_def case_prod_beta Let_def)
qed

lemma collect_loop_counts:
  "collect_loop (Some f) (map Some evs) (a, r) c =
    ((a + int (length (filter (\<lambda>e. e = None) (errors_of f evs c))),
      r + int (length (filter (\<lambda>e. e \<noteq> None) (errors_of f evs c)))), consume_all f evs c)"
  by (induction evs arbitrary: a r c) (auto simp: consume_all_def split: prod.splits option.splits)

lemma runner_fold:
  "map (decode \<circ> env_payload) envs = map Some evs \<Longrightarrow>
   fold (\<lambda>e c. snd (runner_handle decode f e c)) envs c = consume_all f evs c"
proof (induction envs arbitrary: evs c)
  case Nil
  then show ?case by (simp add: consume_all_def)
next
  case (Cons e envs)
  then obtain ev evs' where "evs = ev # evs'" by (cases evs) auto
  then show ?case using Cons by (simp add: consume_all_def runner_handle_def)
qed

lemma errors_of_length [simp]: "length (errors_of f evs c) = length evs"
  by (induction evs arbitrary: c) auto


text \<open>A consumer that refuses tasks with a negative identifier and counts the others.\<close>

definition counting_consumer :: "int consumer" where
  "counting_consumer ev n =
     (case ev of Some e \<Rightarrow> if re_task_id e < 0 then (Some ''no'', n) else (None, n + 1) | None \<Rightarrow> (Some ''nil'', n))"

definition counted_envelope :: "int \<Rightarrow> int envelope" where
  "counted_envelope i = \<lparr>env_topic = result_topic, env_key = '''', env_attempt = 1, env_correlation = '''',
     env_target = '''', env_headers = [], env_payload = i\<rparr>"


section \<open>Forwarded dispatch requests\<close>

text \<open>The forwarder of a node over a network of servers; the fuel bounds the relay chain.\<close>

definition network_forward ::
  "nat \<Rightarrow> ('p, 'st) network \<Rightarrow> forwarder \<Rightarrow> string \<Rightarrow> string \<Rightarrow> 'p \<Rightarrow> headers \<Rightarrow> int \<Rightarrow> 'st
     \<Rightarrow> (fwd_error + 'p) \<times> 'st" where
  "network_forward n net f target m p hs ttl st =
     (case forward_request f target m p hs ttl of
        Inl e \<Rightarrow> (Inl e, st)
      | Inr (addr, q) \<Rightarrow>
          (case net_call n net addr q st of
             None \<Rightarrow> (Inl (FwdDialFailed addr), st)
           | Some (r, st') \<Rightarrow> (forward_reply r, st')))"

text \<open>
  C34. Dispatching through another node is delivering at the target: when a request is
  forwarded and the target serves the dispatch method, the caller gets exactly the response
  (or, as text, the error) of the delivery on the target, in one hop, marked with the
  forwarding node, and the delivery has happened there exactly once; the target does not
  forward it again, whatever its own configuration and the request allow.
\<close>

theorem forwarded_dispatch_transparent:
  assumes "rq_task q = Some m"
    and "rq_target q = target \<or> rq_target q = '''' \<and> map_option nd_id (sv_resolve A m) = Some target"
    and "should_forward A q target"
    and "sv_forward A = Some (network_forward (Suc n) net f)"
    and "fw_nodes f = Some resolve" "resolve target = Some nd" "nd_address nd \<noteq> ''''" "fw_self f \<noteq> target"
    and "net (nd_address nd) = Some srv" "fs_self srv = target" "fs_registry srv = Some reg"
    and "method_handler reg dispatch_method = Some (handle_forwarded text_of B)" "sv_self B = target"
    and "sv_enc_req A q = Inr p" "sv_dec_req B p = Some q"
    and "\<And>r. \<exists>p'. sv_enc_resp B r = Inr p' \<and> sv_dec_resp A p' = Some r"
  shows "dispatch_rpc A q st =
    (case deliver_local B q target st of
       (Inl e, st') \<Rightarrow> (Inl (ForwardFailed (HandlerFailed (text_of e))), st')
     | (Inr r, st') \<Rightarrow> (Inr (r\<lparr>rp_forwarded_by := sv_self A\<rparr>), st'))"
proof -
  have t: "target \<noteq> ''''" using assms(3) by (simp add: should_forward_def)
  let ?hs = "[(''dispatch.origin'', sv_self A), (''dispatch.target'', target)]"
  obtain fq where fq: "forward_request f target dispatch_method p ?hs (to_int32 (sv_max_hops A)) =
      Inr (nd_address nd, fq)" "fq_visited fq = [fw_self f]" "fq_method fq = dispatch_method" "fq_payload fq = p"
    using assms(5-7) t
    by (simp add: forward_request_def header_def visited_header_def split_visited_def)
  have dec: "decide_forward srv fq = ServeLocal (handle_forwarded text_of B)"
    using assms(8,10-12) fq by (simp add: decide_forward_def)
  have tgt: "(if rq_target q = '''' then sv_self B else rq_target q) = target"
    using assms(2,13) t by auto
  have go: "dispatch_rpc A q st = dispatch_forward A q target st"
    using assms(1-3) t by (auto simp: dispatch_rpc_def)
  obtain res st' where d: "deliver_local B q target st = (res, st')" by fastforce
  show ?thesis
  proof (cases res)
    case (Inl e)
    then have "handle_forwarded text_of B (fq_payload fq) (fq_headers fq) st = (Inl (text_of e), st')"
      using d fq(4) assms(15) tgt by (simp add: handle_forwarded_def)
    then have "net_call (Suc n) net (nd_address nd) fq st = Some (Inl (HandlerFailed (text_of e)), st')"
      using assms(9) dec by simp
    then show ?thesis
      using go d Inl fq(1) assms(4,14)
      by (simp add: dispatch_forward_def network_forward_def forward_reply_def)
  next
    case (Inr r)
    obtain p' where p': "sv_enc_resp B r = Inr p'" "sv_dec_resp A p' = Some r"
      using assms(16) by blast
    then have "handle_forwarded text_of B (fq_payload fq) (fq_headers fq) st = (Inr p', st')"
      using d Inr fq(4) assms(15) tgt by (simp add: handle_forwarded_def)
    then have "net_call (Suc n) net (nd_address nd) fq st =
        Some (Inr \<lparr>fr_payload = p', fr_served_by = fs_self srv, fr_error = ''''\<rparr>, st')"
      using assms(9) dec by simp
    then show ?thesis
      using go d Inr fq(1) assms(4,14) p'(2)
      by (simp add: dispatch_forward_def network_forward_def forward_reply_def)
  qed
qed

datatype rpc_wire = RequestWire rpc_request | ResponseWire rpc_response

definition wire_server ::
  "string \<Rightarrow> (string \<Rightarrow> string \<Rightarrow> rpc_wire \<Rightarrow> headers \<Rightarrow> int \<Rightarrow> int list \<Rightarrow> (fwd_error + rpc_wire) \<times> int list) option
     \<Rightarrow> (rpc_wire, int list) dispatch_server" where
  "wire_server self fwd =
     \<lparr>sv_deliver = (\<lambda>r w. ((None, Some \<lparr>ds_task_id = 9, ds_target = nd_id (dr_target r), ds_accepted = True,
        ds_duplicate = False, ds_retryable = True, ds_message = '''', ds_result = None\<rparr>), w @ [9])),
      sv_resolve = (\<lambda>m. None), sv_nodes = None, sv_forward = fwd, sv_self = self, sv_may_forward = True,
      sv_max_hops = 3, sv_enc_req = (\<lambda>q. Inr (RequestWire q)),
      sv_dec_req = (\<lambda>p. case p of RequestWire q \<Rightarrow> Some q | ResponseWire r \<Rightarrow> None),
      sv_enc_resp = (\<lambda>r. Inr (ResponseWire r)),
      sv_dec_resp = (\<lambda>p. case p of RequestWire q \<Rightarrow> None | ResponseWire r \<Rightarrow> Some r)\<rparr>"

definition wire_forwarder :: forwarder where
  "wire_forwarder = new_forwarder (Some (\<lambda>i. Some (zero_node\<lparr>nd_id := i, nd_address := ''addr-'' @ i\<rparr>))) ''a'' 3"

definition wire_net :: "(rpc_wire, int list) network" where
  "wire_net addr =
     (if addr = ''addr-b'' then
        Some \<lparr>fs_registry = Some [(dispatch_method, handle_forwarded (\<lambda>_. ''error'') (wire_server ''b'' None))],
              fs_router = None, fs_self = ''b''\<rparr>
      else None)"

definition wire_request :: rpc_request where
  "wire_request = \<lparr>rq_queue = ''q'', rq_task = Some (wal_task 9), rq_semantics = 0, rq_delivery = 0,
     rq_target = ''b'', rq_allow_forward = True, rq_dedupe_key = ''''\<rparr>"

theorem forwarded_dispatch_transparent_witness:
  "dispatch_rpc (wire_server ''a'' (Some (network_forward 1 wire_net wire_forwarder))) wire_request [] =
     (Inr \<lparr>rp_task_id = 9, rp_target = ''b'', rp_accepted = True, rp_forwarded_by = ''a'',
       rp_duplicate = False, rp_message = ''''\<rparr>, [9])"
proof -
  let ?A = "wire_server ''a'' (Some (network_forward (Suc 0) wire_net wire_forwarder))"
  let ?B = "wire_server ''b'' None"
  let ?srv = "\<lparr>fs_registry = Some [(dispatch_method, handle_forwarded (\<lambda>_. ''error'') ?B)],
              fs_router = None, fs_self = ''b''\<rparr>"
  have "dispatch_rpc ?A wire_request [] =
    (case deliver_local ?B wire_request ''b'' [] of
       (Inl e, st') \<Rightarrow> (Inl (ForwardFailed (HandlerFailed ''error'')), st')
     | (Inr r, st') \<Rightarrow> (Inr (r\<lparr>rp_forwarded_by := sv_self ?A\<rparr>), st'))"
    by (rule forwarded_dispatch_transparent [where m = "wal_task 9" and net = wire_net and f = wire_forwarder and n = 0
          and srv = ?srv and p = "RequestWire wire_request" and text_of = "\<lambda>_. ''error''" and B = ?B])
      (auto simp: wire_server_def wire_request_def should_forward_def wire_forwarder_def new_forwarder_def
        wire_net_def method_handler_def)
  then show ?thesis
    by (simp add: deliver_local_def delivery_request_def response_of_def wire_server_def wire_request_def)
qed

end
