(* ===== verification/EndToEnd.thy ===== *)
theory EndToEnd
  imports Service Scheduler Tasks
begin

text \<open>
  The components together: a task from the ledger through a scheduling cycle, the channel,
  a worker's execution and the collector back into the ledger; and dispatch requests relayed
  between nodes.
\<close>

section \<open>Executing a claimed task\<close>

text \<open>A row in processing whose identifier was not completed before; it has a payload.\<close>

abbreviation row_waits :: "claimable \<Rightarrow> ledger \<Rightarrow> bool" where
  "row_waits r s \<equiv> get_processing (task_id r) s = Inr r \<and> task_id r \<notin> done_ids s \<and> ledger_ok s"

lemma row_waits_payload:
  assumes "row_waits r s"
  shows "\<exists>j. get_payload (task_id r) s = Inr j"
proof -
  have f: "table_find task_id (task_id r) (processings s) = Some r"
    using assms by (simp add: get_processing_find)
  have "task_id r \<in> table_ids payload_task (payloads s)"
    using assms table_find_Some_ids [OF f] unfolding ledger_ok_def payloads_cover_def ids_defs by blast
  then obtain pl where "table_find payload_task (task_id r) (payloads s) = Some pl"
    using table_find_None [of payload_task "task_id r" "payloads s"] by blast
  then show ?thesis by (simp add: get_payload_def read_row_def)
qed

lemma callback_of_none: "callback p = None \<Longrightarrow> callback_of p out s = None"
  by (simp add: callback_of_def unmarshal_callback_def derive_def)

text \<open>Completing a row without a callback.\<close>

lemma complete_plain:
  assumes ok: "ledger_ok s" and p: "table_find task_id tid (processings s) = Some p"
    and new: "tid \<notin> done_ids s" and cb: "callback p = None"
    and req: "cr_task_id req = tid" "cr_attempt req = attempts p"
  shows "\<exists>at. complete tx_fine now nid req s =
      (Inr True, moved_terminal p (cr_outcome req) (cr_result req) (cr_error req) at s)"
proof -
  have v: "valid_channel (task_channel p)"
    using ok p by (auto simp: ok_defs dest: table_find_SomeD)
  have d: "derive_callback nid p out at t = Inr t" for out at t
    using callback_of_none [OF cb] by (simp add: derive_callback_def)
  show ?thesis
    using terminal_move_steps [OF ok p, of nid "attempts p" "cr_outcome req" "cr_result req" "cr_error req" _ True]
      new req d
    by (intro exI [of _ "if is_zero_time (cr_completed_at req) then now else cr_completed_at req"])
      (simp add: complete_def Let_def terminal_outcome_def)
qed

lemma moved_terminal_facts:
  assumes ok: "ledger_ok s" and p: "table_find task_id tid (processings s) = Some p"
    and new: "tid \<notin> done_ids s"
  shows "\<exists>r. get_result tid (moved_terminal p out res err at s) = Inr r
      \<and> result_outcome r = out \<and> result_json r = res \<and> result_attempt r = attempts p
      \<and> (\<forall>j. get_payload tid s = Inr j \<longrightarrow> result_payload r = Some j)"
    and "tid \<notin> in_flight (moved_terminal p out res err at s)"
    and "tid \<in> done_ids (moved_terminal p out res err at s)"
proof -
  note pp = table_find_SomeD [OF p]
  have r: "tid \<notin> table_ids result_task (results s)"
    using ok new by (simp add: ledger_ok_def results_cover_def)
  show "\<exists>r. get_result tid (moved_terminal p out res err at s) = Inr r
      \<and> result_outcome r = out \<and> result_json r = res \<and> result_attempt r = attempts p
      \<and> (\<forall>j. get_payload tid s = Inr j \<longrightarrow> result_payload r = Some j)"
    using r pp
    by (simp add: get_result_def read_row_def moved_terminal_def table_find_append table_find_Cons
        table_find_None [THEN iffD2] result_of_def get_payload_def split: option.splits)
  note ids = moved_terminal_ids [OF p, of out res err at]
  show "tid \<in> done_ids (moved_terminal p out res err at s)" by (simp add: ids)
  have "tid \<in> processing_ids s" using p table_find_Some_ids by (simp add: processing_ids_def)
  then show "tid \<notin> in_flight (moved_terminal p out res err at s)"
    using ok ids unfolding in_flight_def ledger_ok_def stages_disjoint_def by blast
qed

text \<open>The event of a handler that succeeded.\<close>

lemma execute_succeeds:
  assumes "worker_resolve k (tm_type m) (tm_operator m) = Some h"
    and "ha_run h m (exec_budget k m) w = (Inr r, w')" and "hr_outcome r = wire_succeeded"
  obtains ev x' where "execute k L start finish m (x, w) = (ev, x')"
    "re_task_id ev = tm_task_id m" "re_attempt ev = tm_attempt m" "re_outcome ev = wire_succeeded"
    "re_result ev = hr_payload r"
  using assms by (simp add: execute_def Let_def fill_event_def event_of_def wire_succeeded_def outcome_unset_def)

lemma consume_success:
  assumes ok: "ledger_ok s" and p: "table_find task_id tid (processings s) = Some p"
    and new: "tid \<notin> done_ids s" and cb: "callback p = None" and nz: "tid \<noteq> 0"
    and ev: "re_task_id ev = tid" "re_attempt ev = attempts p" "re_outcome ev = wire_succeeded"
  shows "\<exists>at err. snd (collector_consumer (Some (task_ledger tx_fine now nid)) now (Some ev) s) =
      moved_terminal p OutcomeSucceeded (json_or_raw (re_result ev)) err at s"
proof -
  let ?req = "completion_request now ev"
  have q: "cr_task_id ?req = tid" "cr_attempt ?req = attempts p" "cr_outcome ?req = OutcomeSucceeded"
    "cr_result ?req = json_or_raw (re_result ev)"
    using ev by (simp_all add: completion_request_def outcome_of_wire_def)
  obtain at where c: "complete tx_fine now nid ?req s =
      (Inr True, moved_terminal p (cr_outcome ?req) (cr_result ?req) (cr_error ?req) at s)"
    using complete_plain [OF ok p new cb q(1,2)] by blast
  show ?thesis
    using c q ev nz
    by (auto simp: collector_consumer_def consume_def write_terminal_def task_ledger_def outcome_of_wire_def)
qed

text \<open>
  Executing a claimed task completes it: on every well-formed ledger, when a worker gets
  the message of a task in processing at its current attempt and the handler succeeds, the
  executor service answers with that result and the collector has moved the task to the
  completed stage; its result row holds the handler's result, the attempt and the payload
  the task was enqueued with.
\<close>

lemma executed_task_completes:
  assumes ok: "ledger_ok s"
    and "get_processing (tm_task_id m) s = Inr p" and "tm_attempt m = attempts p"
    and "tm_task_id m \<noteq> 0" and "tm_task_id m \<notin> done_ids s" and "callback p = None"
    and "worker_resolve k (tm_type m) (tm_operator m) = Some h"
    and "ha_run h m (exec_budget k m) w = (Inr r, w')" and "hr_outcome r = wire_succeeded"
  shows "\<exists>ev x s'. execute_rpc (Some (k, L)) (Some (collector_consumer (Some (task_ledger tx_fine now nid)) now))
        start finish (Some m) ((l, w), s) = (Inr ev, (x, s'))
    \<and> re_outcome ev = wire_succeeded
    \<and> tm_task_id m \<in> done_ids s' \<and> tm_task_id m \<notin> in_flight s'
    \<and> (\<exists>row j. get_result (tm_task_id m) s' = Inr row \<and> result_outcome row = OutcomeSucceeded
         \<and> result_json row = json_or_raw (hr_payload r) \<and> result_attempt row = tm_attempt m
         \<and> get_payload (tm_task_id m) s = Inr j \<and> result_payload row = Some j)"
proof -
  have p: "table_find task_id (tm_task_id m) (processings s) = Some p"
    using assms(2) by (simp add: get_processing_find)
  obtain ev x' where ev: "execute k L start finish m (l, w) = (ev, x')"
    "re_task_id ev = tm_task_id m" "re_attempt ev = attempts p" "re_outcome ev = wire_succeeded"
    "re_result ev = hr_payload r"
    using execute_succeeds [OF assms(7-9)] assms(3) by metis
  obtain at err where s': "snd (collector_consumer (Some (task_ledger tx_fine now nid)) now (Some ev) s) =
      moved_terminal p OutcomeSucceeded (json_or_raw (re_result ev)) err at s"
    using consume_success [OF ok p assms(5,6,4) ev(2-4)] by blast
  let ?s' = "moved_terminal p OutcomeSucceeded (json_or_raw (re_result ev)) err at s"
  have rpc: "execute_rpc (Some (k, L)) (Some (collector_consumer (Some (task_ledger tx_fine now nid)) now))
      start finish (Some m) ((l, w), s) = (Inr ev, (x', ?s'))"
    using ev(1) s' by (simp add: execute_rpc_def)
  note f = moved_terminal_facts [OF ok p assms(5), of OutcomeSucceeded "json_or_raw (re_result ev)" err at]
  obtain j where j: "get_payload (tm_task_id m) s = Inr j"
    using row_waits_payload [of p s] ok assms(2,5) table_find_SomeD [OF p] by auto
  obtain row where "get_result (tm_task_id m) ?s' = Inr row" "result_outcome row = OutcomeSucceeded"
    "result_json row = json_or_raw (hr_payload r)" "result_attempt row = tm_attempt m" "result_payload row = Some j"
    using f(1) j ev(5) assms(3) by auto
  then show ?thesis
    using rpc f(2,3) ev(4) j by blast
qed

section \<open>A cycle that takes everything\<close>

lemma sort_key_all: "length xs \<le> n \<Longrightarrow> take n (sort_key f xs) = sort_key f xs"
  by simp

lemma promote_everything:
  assumes ok: "ledger_ok s" and "int (length (pendings s)) \<le> limit" "0 < limit"
  obtains s1 where "promote tx_fine no_locks limit s = (Inr (int (length (pendings s))), s1)"
    "set (schedulables s1) = set (schedulables s) \<union> schedulable_of_pending ` set (pendings s)"
    "length (schedulables s1) = length (schedulables s) + length (pendings s)"
    "done_ids s1 = done_ids s" "ledger_ok s1"
proof -
  let ?rows = "sort_key (\<lambda>p. - priority p) (pendings s)"
  have pick: "promote_pick no_locks limit s = ?rows"
    using assms(2,3) by (simp add: promote_pick_def no_locks_def)
  have chk: "\<forall>p\<in>set (map schedulable_of_pending ?rows). valid_channel (task_channel p) \<and> claimable_check p"
    using ok by (auto simp: ok_defs pending_check_def claimable_check_def schedulable_of_pending_def)
  have "set (map task_id ?rows) \<inter> table_ids task_id (schedulables s) = {}"
    using ok by (auto simp: ok_defs ids_defs table_ids_def)
  moreover have "distinct (map task_id ?rows)"
    using pick_distinct(1) [OF ok, of no_locks limit] by (simp add: pick)
  ultimately have "promote_body no_locks limit s = Inr (int (length (pendings s)),
      s\<lparr>schedulables := schedulables s @ map schedulable_of_pending ?rows,
        pendings := table_delete task_id (map task_id ?rows) (pendings s)\<rparr>)" (is "_ = Inr (_, ?s1)")
    using chk by (simp add: promote_body_Inr pick Let_def)
  then have "promote tx_fine no_locks limit s = (Inr (int (length (pendings s))), ?s1)" "ledger_ok ?s1"
    using assms(3) ledger_ok_promote_body [OF _ ok] by (simp_all add: promote_def)
  then show thesis by (intro that) (auto simp: done_ids_def)
qed

lemma claim_everything:
  assumes ok: "ledger_ok s" and "int (length (schedulables s)) \<le> limit" "0 < limit"
    and bound: "\<forall>q\<in>set (schedulables s). attempts q < 2 ^ 63 - 1"
  obtains rows s2 where "claim tx_fine now no_locks limit s = (Inr rows, s2)"
    "set rows = claimed_row now ` set (schedulables s)" "distinct (map task_id rows)"
    "done_ids s2 = done_ids s" "ledger_ok s2" "set rows \<subseteq> set (processings s2)"
proof -
  let ?rows = "sort_key (\<lambda>r. (- priority r, task_id r)) (schedulables s)"
  have pick: "claim_pick no_locks limit s = ?rows"
    using assms(2,3) by (simp add: claim_pick_def no_locks_def)
  have chk: "\<forall>r\<in>set (map (claimed_row now) ?rows). in_int64 (attempts r) \<and> claimable_check r"
    using ok bound by (auto simp: ok_defs claimable_check_def claimed_row_def in_int64_def)
  have "set (map task_id ?rows) \<inter> table_ids task_id (processings s) = {}"
    using ok by (auto simp: ok_defs ids_defs table_ids_def)
  moreover have d: "distinct (map task_id ?rows)"
    using pick_distinct(2) [OF ok, of no_locks limit] by (simp add: pick)
  ultimately have b: "claim_body now no_locks limit s = Inr (map (claimed_row now) ?rows,
      s\<lparr>schedulables := table_delete task_id (map task_id ?rows) (schedulables s),
        processings := processings s @ map (claimed_row now) ?rows\<rparr>)" (is "_ = Inr (_, ?s2)")
    using chk by (simp add: claim_body_Inr pick Let_def)
  then have "claim tx_fine now no_locks limit s = (Inr (map (claimed_row now) ?rows), ?s2)" "ledger_ok ?s2"
    using assms(3) ledger_ok_claim_body [OF b ok] by (simp_all add: claim_def)
  then show thesis
    using d by (intro that [of "map (claimed_row now) ?rows" ?s2]) (auto simp: done_ids_def)
qed

text \<open>A queue: deliveries are accepted and kept in order.\<close>

definition queue_deliverer :: "dispatch_request list deliverer" where
  "queue_deliverer = (\<lambda>req w.
     ((None, Some \<lparr>ds_task_id = 0, ds_target = '''', ds_accepted = True, ds_duplicate = False,
        ds_retryable = True, ds_message = '''', ds_result = None\<rparr>), w @ [req]))"

lemma queue_deliverer_out: "\<exists>r. queue_deliverer req w = (r, w @ [req])"
  by (simp add: queue_deliverer_def)

lemma cycle_rows_grows:
  "cycle_rows c L queue_deliverer cancelled clk i rows res (s, w) = (out, (s', w')) \<Longrightarrow> set w \<subseteq> set w'"
proof (induction rows arbitrary: i res s w)
  case (Cons p ps)
  show ?case
  proof (cases "cl_payload L (task_id p) s")
    case (Inl e)
    then show ?thesis using Cons by (auto split: if_splits)
  next
    case (Inr j)
    obtain r where "queue_deliverer (cycle_request c (clk i) p j) w = (r, w @ [cycle_request c (clk i) p j])"
      using queue_deliverer_out by blast
    then show ?thesis using Inr Cons.prems Cons.IH [of _ _ _ "w @ [cycle_request c (clk i) p j]"]
        Cons.IH [of _ _ _ w]
      by (auto split: if_splits)
  qed
qed simp

lemma dead_letter_done_new:
  "done_ids (snd (dead_letter tx now nid t s)) \<subseteq> insert t (done_ids s)"
proof (cases "fst (dead_letter tx now nid t s) = Inr True")
  case False
  then show ?thesis using complete_ops(3) [of tx now nid t s] by auto
next
  case True
  then obtain s' where d: "dead_letter tx now nid t s = (Inr True, s')"
    by (metis prod.collapse)
  have m: "terminal_move nid t 0 OutcomeDead None '''' now False s = Inr ((), s')"
    using dead_letter_ok d by blast
  then obtain p where p: "table_find task_id t (processings s) = Some p"
    and dc: "derive_callback nid p OutcomeDead now (moved_terminal p OutcomeDead None '''' now s) = Inr s'"
    by (auto simp: ledger_simps)
  have "done_ids s' = done_ids (moved_terminal p OutcomeDead None '''' now s)"
    using derive_callback_effect [OF dc] by (auto simp: adds_identity_def adds_pending_def done_ids_def)
  then show ?thesis using moved_terminal_ids(4) [OF p] d by simp
qed

text \<open>A row the cycle does not dead-letter stays, and its message is in the queue afterwards.\<close>

lemma dead_letter_row_waits:
  assumes "row_waits r s" "t \<noteq> task_id r"
  shows "row_waits r (snd (dead_letter tx now nid t s))"
proof (intro conjI)
  show "get_processing (task_id r) (snd (dead_letter tx now nid t s)) = Inr r"
    using assms dead_letter_effect(1) [of "task_id r" t tx now nid s] by metis
  show "task_id r \<notin> done_ids (snd (dead_letter tx now nid t s))"
    using assms dead_letter_done_new [of tx now nid t s] by blast
  show "ledger_ok (snd (dead_letter tx now nid t s))"
    using assms ledger_ok_step [OF step_dead_letter [of s tx now nid t]] by simp
qed

lemma cycle_rows_queue:
  assumes "cycle_rows c (cycle_task_ledger tx now lk nid) queue_deliverer (\<lambda>_. False) clk i rows res (s, w) = (out, (s', w'))"
    and "\<forall>p\<in>set rows. task_id p = task_id r \<longrightarrow> attempts p \<le> max_attempts p"
    and "row_waits r s"
  shows "row_waits r s' \<and> fst out = None \<and> (r \<in> set rows \<longrightarrow> (\<exists>t j. cycle_request c t r j \<in> set w'))"
  using assms
proof (induction rows arbitrary: i res s w)
  case Nil
  then show ?case by (cases out) simp
next
  case (Cons p ps)
  let ?L = "cycle_task_ledger tx now lk nid"
  have small: "\<forall>p\<in>set ps. task_id p = task_id r \<longrightarrow> attempts p \<le> max_attempts p"
    using Cons.prems(2) by simp
  show ?case
  proof (cases "attempts p > max_attempts p")
    case True
    let ?s = "snd (dead_letter tx now (nid (task_id p)) (task_id p) s)"
    have ne: "task_id p \<noteq> task_id r" using Cons.prems(2) True by auto
    have "cycle_rows c ?L queue_deliverer (\<lambda>_. False) clk (Suc i) ps
        (res\<lparr>cy_skipped := cy_skipped res + 1\<rparr>) (?s, w) = (out, (s', w'))"
      using Cons.prems(1) True by simp
    from Cons.IH [OF this small dead_letter_row_waits [OF Cons.prems(3) ne]] show ?thesis
      using ne by auto
  next
    case na: False
    show ?thesis
    proof (cases "get_payload (task_id p) s")
      case (Inl e)
      then have "p \<noteq> r" using row_waits_payload [OF Cons.prems(3)] by auto
      moreover have "cycle_rows c ?L queue_deliverer (\<lambda>_. False) clk (Suc i) ps
          (res\<lparr>cy_skipped := cy_skipped res + 1\<rparr>) (s, w) = (out, (s', w'))"
        using Cons.prems(1) na Inl by simp
      ultimately show ?thesis using Cons.IH [OF _ small Cons.prems(3)] by simp
    next
      case (Inr j)
      let ?w = "w @ [cycle_request c (clk i) p j]"
      obtain res' where rec: "cycle_rows c ?L queue_deliverer (\<lambda>_. False) clk (Suc i) ps res' (s, ?w) = (out, (s', w'))"
      proof -
        obtain r where "queue_deliverer (cycle_request c (clk i) p j) w = (r, ?w)"
          using queue_deliverer_out by blast
        then show thesis using that Cons.prems(1) na Inr by simp
      qed
      have "cycle_request c (clk i) p j \<in> set w'"
        using cycle_rows_grows [OF rec] by simp
      then show ?thesis using Cons.IH [OF rec small Cons.prems(3)] by auto
    qed
  qed
qed

section \<open>From enqueued to completed\<close>

lemma pending_task_completes:
  assumes "ledger_run empty_ledger s" and "p \<in> set (pendings s)"
    and "task_id p \<noteq> 0" "task_id p \<notin> done_ids s" "callback p = None" "1 \<le> max_attempts p"
    and "int (length (pendings s)) \<le> cy_promote_limit c"
    and "int (length (pendings s)) + int (length (schedulables s)) \<le> cy_claim_batch c"
    and "\<forall>q\<in>set (schedulables s). attempts q < 2 ^ 63 - 1"
    and "worker_resolve k (task_type p) (operator p) = Some h"
    and "\<And>m. tm_task_id m = task_id p \<Longrightarrow>
      \<exists>r w'. ha_run h m (exec_budget k m) w = (Inr r, w') \<and> hr_outcome r = wire_succeeded"
  shows "\<exists>res s1 queue req m ev x s2 row.
      run_cycle c (cycle_task_ledger tx_fine now no_locks nid) queue_deliverer (\<lambda>_. False) clk (s, [])
        = ((None, res), (s1, queue))
    \<and> req \<in> set queue \<and> dr_message req = Some m \<and> tm_task_id m = task_id p \<and> tm_attempt m = 1
    \<and> execute_rpc (Some (k, L)) (Some (collector_consumer (Some (task_ledger tx_fine now2 nid2)) now2))
        start finish (Some m) ((l, w), s1) = (Inr ev, (x, s2))
    \<and> task_id p \<in> done_ids s2 \<and> task_id p \<notin> in_flight s2
    \<and> get_result (task_id p) s2 = Inr row \<and> result_outcome row = OutcomeSucceeded \<and> result_attempt row = 1
    \<and> (\<exists>r w'. ha_run h m (exec_budget k m) w = (Inr r, w') \<and> result_json row = json_or_raw (hr_payload r))"
proof -
  have ok: "ledger_ok s" using assms(1) ledger_ok_run ledger_ok_empty by blast
  have pos: "0 < cy_promote_limit c" "0 < cy_claim_batch c"
    using assms(2,7,8) by (cases "pendings s"; simp)+
  let ?L = "cycle_task_ledger tx_fine now no_locks nid"
  obtain sp where sp: "promote tx_fine no_locks (cy_promote_limit c) s = (Inr (int (length (pendings s))), sp)"
    "set (schedulables sp) = set (schedulables s) \<union> schedulable_of_pending ` set (pendings s)"
    "length (schedulables sp) = length (schedulables s) + length (pendings s)"
    "done_ids sp = done_ids s" "ledger_ok sp"
    using promote_everything [OF ok assms(7) pos(1)] .
  have bound: "\<forall>q\<in>set (schedulables sp). attempts q < 2 ^ 63 - 1"
    using sp(2) assms(9) by auto
  have size: "int (length (schedulables sp)) \<le> cy_claim_batch c"
    using sp(3) assms(8) by simp
  obtain rows sc where sc: "claim tx_fine now no_locks (cy_claim_batch c) sp = (Inr rows, sc)"
    "set rows = claimed_row now ` set (schedulables sp)" "distinct (map task_id rows)"
    "done_ids sc = done_ids sp" "ledger_ok sc" "set rows \<subseteq> set (processings sc)"
    using claim_everything [OF sp(5) size pos(2) bound] by blast
  define r where "r = claimed_row now (schedulable_of_pending p)"
  have "r \<in> set rows"
    unfolding r_def sc(2) sp(2) using assms(2) by blast
  then have r: "r \<in> set rows" "task_id r = task_id p" "attempts r = 1" "callback r = callback p"
    "max_attempts r = max_attempts p" "task_type r = task_type p" "operator r = operator p"
    by (simp_all add: r_def claimed_row_def schedulable_of_pending_def)
  have waits: "row_waits r sc"
    using sc(4-6) sp(4) r(1,2) assms(4) table_find_in [of task_id "processings sc" r]
    by (auto simp: get_processing_find ok_defs)
  have only: "\<forall>q\<in>set rows. task_id q = task_id r \<longrightarrow> attempts q \<le> max_attempts q"
    using sc(3) r assms(6) eq_key_imp_eq_value by (auto simp: distinct_map inj_on_def)
  obtain res0 out s1 queue where rows: "cycle_rows c ?L queue_deliverer (\<lambda>_. False) clk 0 rows res0 (sc, []) = (out, (s1, queue))"
    "run_cycle c ?L queue_deliverer (\<lambda>_. False) clk (s, []) = (out, (s1, queue))"
    using sp(1) sc(1) by (simp add: run_cycle_def) (metis surj_pair)
  obtain t j where q: "row_waits r s1" "fst out = None" "cycle_request c t r j \<in> set queue"
    using cycle_rows_queue [OF rows(1) only waits] r(1) by blast
  define m where "m = cycle_message c t r j"
  have m: "dr_message (cycle_request c t r j) = Some m" "tm_task_id m = task_id p" "tm_attempt m = 1"
    "tm_type m = task_type p" "tm_operator m = operator p"
    using r by (simp_all add: m_def cycle_request_def cycle_message_def Let_def split: prod.split)
  have run1: "ledger_ok s1" using q(1) by simp
  obtain rr w' where h: "ha_run h m (exec_budget k m) w = (Inr rr, w')" "hr_outcome rr = wire_succeeded"
    using assms(11) m(2) by blast
  obtain ev x s2 row jj where e: "execute_rpc (Some (k, L)) (Some (collector_consumer (Some (task_ledger tx_fine now2 nid2)) now2))
        start finish (Some m) ((l, w), s1) = (Inr ev, (x, s2))"
    "task_id p \<in> done_ids s2" "task_id p \<notin> in_flight s2"
    "get_result (task_id p) s2 = Inr row" "result_outcome row = OutcomeSucceeded" "result_attempt row = 1"
    "result_json row = json_or_raw (hr_payload rr)"
    using executed_task_completes [where m = m and p = r and s = s1 and k = k and h = h and w = w and r = rr and w' = w'
        and now = now2 and nid = nid2 and start = start and finish = finish and l = l and L = L]
      run1 q(1) m r(2-4) assms(3,5,10) h by auto
  have "run_cycle c ?L queue_deliverer (\<lambda>_. False) clk (s, []) = ((None, snd out), (s1, queue))"
    using rows(2) q(2) by (metis prod.collapse)
  then show ?thesis using q(3) m(1-3) e h(1) by blast
qed


definition probe_worker :: "unit worker" where
  "probe_worker = new_worker ''w1'' (Some [(signature_of ''probe'' ''op'',
     handler_func ''probe'' ''op'' (Some (\<lambda>_ _ w.
       (Inr \<lparr>hr_outcome = wire_succeeded, hr_payload = NoContent, hr_error = ''''\<rparr>, w))))]) 0 None"


end
