(* ===== verification/Builtin.thy ===== *)
theory Builtin
  imports EndToEnd Codec
begin

text \<open>
  The built-in heartbeat handler and the registrations of the built-in parts
  (\<open>internal/biz/task/factory.go\<close>), and the way of a heartbeat through the whole system.
\<close>

section \<open>The heartbeat handler and the registrations\<close>

definition heartbeat_handle :: "task_message \<Rightarrow> handler_result" where
  "heartbeat_handle m =
     \<lparr>hr_outcome = wire_succeeded,
      hr_payload = JsonContent (JObj [(''task_id'', JInt (tm_task_id m)), (''attempt'', JInt (tm_attempt m))]),
      hr_error = ''''\<rparr>"

definition heartbeat_handler :: "'w handler" where
  "heartbeat_handler =
     \<lparr>ha_type = ''demo'', ha_operator = ''heartbeat'', ha_run = (\<lambda>m _ w. (Inr (heartbeat_handle m), w))\<rparr>"

text \<open>\<open>Inl None\<close>: there is no registry.\<close>

definition register_handlers :: "'w handlers option \<Rightarrow> registry_error option + 'w handlers" where
  "register_handlers reg =
     (case reg of
        None \<Rightarrow> Inl None
      | Some r \<Rightarrow>
          (case register_handler (Some heartbeat_handler) r of Inl e \<Rightarrow> Inl (Some e) | Inr r' \<Rightarrow> Inr r'))"

text \<open>\<open>task_msg\<close> is the empty \<open>TaskMessage\<close>.\<close>

definition register_prototypes ::
  "'m proto_lib \<Rightarrow> 'm \<Rightarrow> 'm proto_registry option \<Rightarrow> codec_error option + 'm proto_registry" where
  "register_prototypes lib task_msg reg =
     (case reg of
        None \<Rightarrow> Inl None
      | Some r \<Rightarrow>
          (case register_proto lib (Some (Some task_msg)) r of
             Inl e \<Rightarrow> Inl (Some e)
           | Inr (_, r') \<Rightarrow> Inr r'))"

lemma register_handlers_resolves:
  assumes "register_handlers (Some hs) = Inr hs'"
  shows "resolve_handler hs' ''demo'' ''heartbeat'' = Some heartbeat_handler"
  using assms
  by (auto simp: register_handlers_def register_handler_def heartbeat_handler_def resolve_handler_def Let_def
      split: sum.splits if_splits)

section \<open>The way of a heartbeat\<close>

lemma enqueue_fresh_key:
  assumes "enqueue tx clk req s = (Inr r, s')" and "table_find identity_key (eq_idempotency_key req) (identities s) = None"
    and "eq_idempotency_key req \<noteq> ''''"
  shows "er_created r \<and> er_task_id r = eq_task_id req \<and> done_ids s' = done_ids s
    \<and> (\<exists>c u. table_find task_id (eq_task_id req) (pendings s') = Some (pending_of_request c u req))"
proof -
  obtain c u where b: "enqueue_body c u req s = Inr (r, s')"
    using enqueue_body_of [OF assms(1)] .
  have new: "identity_key i \<noteq> eq_idempotency_key req" if "i \<in> set (identities s)" for i
    using assms(2) that by (metis imageI table_find_None table_ids_def)
  then have f: "er_created r" "er_task_id r = eq_task_id req"
    and a: "\<exists>s1. adds_identity s s1 \<and> adds_pending (pending_of_request c u req) (json_or_null (eq_payload req)) c s1 s'"
    using enqueue_body_effect [OF b] by blast+
  have "done_ids s' = done_ids s"
    using a by (auto simp: adds_identity_def adds_pending_def done_ids_def)
  then show ?thesis using f created_row [OF b f(1)] unfolding f(2) by blast
qed



end
