(* ===== verification/Migration.thy ===== *)
theory Migration
  imports Prelude "HOL-Library.Multiset"
begin

text \<open>
  Versioned migrations of the database (\<open>internal/domain/migration/migration.go\<close>): naming,
  collection, order, and the run that applies them one transaction at a time. What an SQL file
  or a Go migration does to the schema \<open>'d\<close> is an argument; a migration is assumed to leave
  the version table to this package.
\<close>

section \<open>Names\<close>

definition is_digit :: "char \<Rightarrow> bool" where
  "is_digit c \<longleftrightarrow> (48 :: nat) \<le> of_char c \<and> of_char c \<le> (57 :: nat)"

definition is_letter :: "char \<Rightarrow> bool" where
  "is_letter c \<longleftrightarrow> (65 :: nat) \<le> of_char c \<and> of_char c \<le> (90 :: nat) \<or> (97 :: nat) \<le> of_char c \<and> of_char c \<le> (122 :: nat)"

definition alias_char :: "char \<Rightarrow> bool" where
  "alias_char c \<longleftrightarrow> is_letter c \<or> is_digit c \<or> c = CHR ''_'' \<or> c = CHR ''-''"

text \<open>One or more digits, then what follows them; \<open>None\<close> without a digit.\<close>

definition digits_then :: "string \<Rightarrow> string option" where
  "digits_then s = (if takeWhile is_digit s = [] then None else Some (dropWhile is_digit s))"

definition char_then :: "char \<Rightarrow> string \<Rightarrow> string option" where
  "char_then c s = (case s of x # xs \<Rightarrow> if x = c then Some xs else None | [] \<Rightarrow> None)"

text \<open>
  What remains after \<open>alias.major.minor\<close>: the part that \<open>baseRe\<close> and \<open>versionFmt\<close> share.
  The alias has no dot, so the match is determined.
\<close>

definition after_version :: "string \<Rightarrow> string option" where
  "after_version s =
     (case s of [] \<Rightarrow> None
      | c # cs \<Rightarrow>
          if is_letter c then
            Option.bind (char_then CHR ''.'' (dropWhile alias_char cs)) (\<lambda>r.
            Option.bind (digits_then r) (\<lambda>r1. Option.bind (char_then CHR ''.'' r1) digits_then))
          else None)"

definition base_ok :: "string \<Rightarrow> bool" where
  "base_ok s =
     (case Option.bind (after_version s) (char_then CHR ''_'') of
        None \<Rightarrow> False
      | Some d \<Rightarrow> length d = 8 \<and> list_all is_digit d)"

definition version_ok :: "string \<Rightarrow> bool" where
  "version_ok s = (after_version s = Some [])"

definition identifier_ok :: "string \<Rightarrow> bool" where
  "identifier_ok s =
     (case s of [] \<Rightarrow> False
      | c # cs \<Rightarrow> (is_letter c \<or> c = CHR ''_'') \<and> list_all (\<lambda>x. is_letter x \<or> is_digit x \<or> x = CHR ''_'') cs)"

text \<open>The version of a base name is what stands before its first underscore.\<close>

definition base_version :: "string \<Rightarrow> string" where
  "base_version s = takeWhile (\<lambda>c. c \<noteq> CHR ''_'') s"

definition sql_suffix :: string where
  "sql_suffix = ''.sql''"

definition has_sql_suffix :: "string \<Rightarrow> bool" where
  "has_sql_suffix s \<longleftrightarrow> 4 \<le> length s \<and> drop (length s - 4) s = sql_suffix"

definition trim_sql :: "string \<Rightarrow> string" where
  "trim_sql s = take (length s - 4) s"

section \<open>Collecting the migrations\<close>

record migration =
  mg_name :: string
  mg_version :: string
  mg_sql :: string
  mg_go :: bool

datatype migration_error =
    DuplicateHistory string | BadSqlName string | BadGoName string | UnknownVersion string
  | TwoUnits string | NoVersions | UnknownMigrationTarget string | BadSchema string | ConnectFailed
  | RebuildFailed | VersionTableFailed | ApplyFailed string | MigrationPanic string

text \<open>\<open>Register\<close> panics on a repeated name.\<close>

definition register_go :: "string \<Rightarrow> string list \<Rightarrow> string list option" where
  "register_go n reg = (if n \<in> set reg then None else Some (n # reg))"

fun index_of :: "string list \<Rightarrow> string \<Rightarrow> nat option" where
  "index_of [] v = None"
| "index_of (x # xs) v = (if x = v then Some 0 else map_option Suc (index_of xs v))"

fun first_dup :: "string list \<Rightarrow> string option" where
  "first_dup [] = None"
| "first_dup (x # xs) = (if x \<in> set xs then Some x else first_dup xs)"

definition version_rank :: "string list \<Rightarrow> string \<Rightarrow> nat" where
  "version_rank versions v = (case index_of versions v of None \<Rightarrow> 0 | Some i \<Rightarrow> i)"

text \<open>A file is its name and its content; \<open>None\<close> is a directory.\<close>

definition sql_bases :: "(string \<times> string option) list \<Rightarrow> string list" where
  "sql_bases files = map trim_sql (filter has_sql_suffix (map fst (filter (\<lambda>(n, c). c \<noteq> None) files)))"

definition unit_of :: "(string \<times> string option) list \<Rightarrow> string list \<Rightarrow> string \<Rightarrow> migration" where
  "unit_of files reg base =
     \<lparr>mg_name = base, mg_version = base_version base,
      mg_sql = (case map_of files (base @ sql_suffix) of Some (Some c) \<Rightarrow> c | _ \<Rightarrow> ''''),
      mg_go = (base \<in> set reg)\<rparr>"

text \<open>
  \<open>availableFrom\<close>. The checks run over maps in no fixed order; here the first offender of the
  list is reported.
\<close>

definition available_from ::
  "(string \<times> string option) list \<Rightarrow> string list \<Rightarrow> string list \<Rightarrow> migration_error + migration list" where
  "available_from files reg versions =
     (let bases = remdups (sql_bases files @ reg);
          units = map (unit_of files reg) bases in
      case first_dup versions of
        Some v \<Rightarrow> Inl (DuplicateHistory v)
      | None \<Rightarrow>
      case find (\<lambda>b. \<not> base_ok b) (sql_bases files) of
        Some b \<Rightarrow> Inl (BadSqlName b)
      | None \<Rightarrow>
      case find (\<lambda>b. \<not> base_ok b) reg of
        Some b \<Rightarrow> Inl (BadGoName b)
      | None \<Rightarrow>
      case find (\<lambda>b. base_version b \<notin> set versions) bases of
        Some b \<Rightarrow> Inl (UnknownVersion b)
      | None \<Rightarrow>
      case first_dup (map mg_version units) of
        Some v \<Rightarrow> Inl (TwoUnits v)
      | None \<Rightarrow> Inr (sort_key (\<lambda>m. version_rank versions (mg_version m)) units))"

section \<open>Running\<close>

text \<open>
  What one attempt meets: do the connection, the rebuild of the schema, the version table and
  its reading work, does each transaction begin and commit, what do SQL and Go do; a Go
  migration may also panic, after which the transaction is rolled back.
\<close>

datatype 'd go_outcome = GoDone 'd | GoFailed | GoPanicked

record 'd migration_env =
  me_connect :: bool
  me_rebuild :: bool
  me_table :: bool
  me_read :: bool
  me_begin :: "string \<Rightarrow> bool"
  me_commit :: "string \<Rightarrow> bool"
  me_sql :: "string \<Rightarrow> 'd \<Rightarrow> 'd option"
  me_go :: "string \<Rightarrow> 'd \<Rightarrow> 'd go_outcome"

record 'd database =
  db_schema :: 'd
  db_versions :: "string list"

definition apply_one ::
  "'d migration_env \<Rightarrow> bool \<Rightarrow> migration \<Rightarrow> 'd database \<Rightarrow> migration_error option \<times> 'd database" where
  "apply_one e rebuild m db =
     (if \<not> me_begin e (mg_name m) then (Some (ApplyFailed (mg_name m)), db)
      else case (if mg_sql m = '''' then Some (db_schema db) else me_sql e (mg_sql m) (db_schema db)) of
          None \<Rightarrow> (Some (ApplyFailed (mg_name m)), db)
        | Some d1 \<Rightarrow>
            (case (if mg_go m then me_go e (mg_name m) d1 else GoDone d1) of
               GoFailed \<Rightarrow> (Some (ApplyFailed (mg_name m)), db)
             | GoPanicked \<Rightarrow> (Some (MigrationPanic (mg_name m)), db)
             | GoDone d2 \<Rightarrow>
                 if \<not> rebuild \<and> mg_version m \<in> set (db_versions db)
                   then (Some (ApplyFailed (mg_name m)), db)
                 else if \<not> me_commit e (mg_name m) then (Some (ApplyFailed (mg_name m)), db)
                 else (None, \<lparr>db_schema = d2,
                   db_versions = (if rebuild then db_versions db else db_versions db @ [mg_version m])\<rparr>)))"

text \<open>The loop of \<open>Run\<close>: \<open>applied\<close> is what the version table held when it was read.\<close>

fun apply_all ::
  "'d migration_env \<Rightarrow> bool \<Rightarrow> (string \<Rightarrow> nat) \<Rightarrow> nat \<Rightarrow> string set \<Rightarrow> migration list \<Rightarrow> 'd database
     \<Rightarrow> (migration_error + string list) \<times> 'd database" where
  "apply_all e rebuild rank target applied [] db = (Inr [], db)"
| "apply_all e rebuild rank target applied (m # ms) db =
     (if rank (mg_version m) > target then (Inr [], db)
      else if mg_version m \<in> applied then apply_all e rebuild rank target applied ms db
      else case apply_one e rebuild m db of
          (Some err, db1) \<Rightarrow> (Inl err, db1)
        | (None, db1) \<Rightarrow>
            (let (r, db2) = apply_all e rebuild rank target applied ms db1
             in (case r of Inl err \<Rightarrow> Inl err | Inr vs \<Rightarrow> Inr (mg_version m # vs), db2)))"

text \<open>
  \<open>Run\<close>: a database without a version table is one with no versions, since the run creates the
  table; \<open>fresh\<close> is the schema after \<open>DROP\<close> and \<open>CREATE SCHEMA\<close>, which drop that table as well.
\<close>

definition run_migrations ::
  "'d migration_env \<Rightarrow> 'd \<Rightarrow> (string \<times> string option) list \<Rightarrow> string list \<Rightarrow> string list \<Rightarrow> string \<Rightarrow> bool
     \<Rightarrow> string \<Rightarrow> 'd database \<Rightarrow> (migration_error + string list) \<times> 'd database" where
  "run_migrations e fresh files reg versions target rebuild search_path db =
     (if versions = [] then (Inl NoVersions, db)
      else
        let goal = (if target = '''' then List.last versions else target);
            schema = (if search_path = '''' then ''public'' else search_path) in
        case index_of versions goal of
          None \<Rightarrow> (Inl (UnknownMigrationTarget goal), db)
        | Some i \<Rightarrow>
            if \<not> identifier_ok schema then (Inl (BadSchema schema), db)
            else if \<not> me_connect e then (Inl ConnectFailed, db)
            else if rebuild \<and> \<not> me_rebuild e then (Inl RebuildFailed, db)
            else
              let db1 = (if rebuild then \<lparr>db_schema = fresh, db_versions = []\<rparr> else db) in
              if \<not> me_table e \<or> (\<not> rebuild \<and> \<not> me_read e) then (Inl VersionTableFailed, db1)
              else case available_from files reg versions of
                Inl err \<Rightarrow> (Inl err, db1)
              | Inr ms \<Rightarrow>
                  apply_all e rebuild (version_rank versions) i
                    (if rebuild then {} else set (db_versions db1)) ms db1)"

section \<open>Resuming\<close>

text \<open>Whatever succeeds in the first environment does the same in the second.\<close>

definition env_le :: "'d migration_env \<Rightarrow> 'd migration_env \<Rightarrow> bool" where
  "env_le e1 e2 \<longleftrightarrow>
     (\<forall>n. me_begin e1 n \<longrightarrow> me_begin e2 n) \<and> (\<forall>n. me_commit e1 n \<longrightarrow> me_commit e2 n) \<and>
     (\<forall>q d d'. me_sql e1 q d = Some d' \<longrightarrow> me_sql e2 q d = Some d') \<and>
     (\<forall>n d d'. me_go e1 n d = GoDone d' \<longrightarrow> me_go e2 n d = GoDone d')"

lemma apply_one_le:
  assumes "apply_one e1 rb m db = (None, db1)" "env_le e1 e2"
  shows "apply_one e2 rb m db = (None, db1)"
  using assms
  by (auto simp: apply_one_def env_le_def split: if_splits option.splits go_outcome.splits)

lemma apply_one_error: "apply_one e rb m db = (Some err, db1) \<Longrightarrow> db1 = db"
  by (auto simp: apply_one_def split: if_splits option.splits go_outcome.splits)

lemma apply_one_versions:
  "apply_one e False m db = (None, db1) \<Longrightarrow> db_versions db1 = db_versions db @ [mg_version m]"
  by (auto simp: apply_one_def split: if_splits option.splits go_outcome.splits)

lemma apply_all_cong:
  "\<forall>m\<in>set ms. mg_version m \<in> A \<longleftrightarrow> mg_version m \<in> B \<Longrightarrow>
   apply_all e rb rank t A ms db = apply_all e rb rank t B ms db"
  by (induction ms arbitrary: db) (auto split: prod.splits option.splits)

lemma apply_all_versions:
  "apply_all e False rank t A ms db = (r, db1) \<Longrightarrow>
   \<exists>vs. db_versions db1 = db_versions db @ vs \<and> (\<forall>all. r = Inr all \<longrightarrow> vs = all)
     \<and> (\<forall>v\<in>set vs. v \<in> mg_version ` set ms \<and> v \<notin> A \<and> rank v \<le> t)"
proof (induction ms arbitrary: db r db1)
  case (Cons m ms)
  show ?case
  proof (cases "rank (mg_version m) > t \<or> mg_version m \<in> A")
    case True
    then show ?thesis using Cons by (force split: if_splits)
  next
    case False
    obtain o1 dbm where o1: "apply_one e False m db = (o1, dbm)" by fastforce
    show ?thesis
    proof (cases o1)
      case (Some err)
      then show ?thesis using Cons.prems False o1 apply_one_error [of e False m db err dbm] by auto
    next
      case None
      obtain r2 db2 where rec: "apply_all e False rank t A ms dbm = (r2, db2)" by fastforce
      obtain vs where vs: "db_versions db2 = db_versions dbm @ vs" "\<forall>all. r2 = Inr all \<longrightarrow> vs = all"
        "\<forall>v\<in>set vs. v \<in> mg_version ` set ms \<and> v \<notin> A \<and> rank v \<le> t"
        using Cons.IH [OF rec] by blast
      have "r = (case r2 of Inl err \<Rightarrow> Inl err | Inr vs \<Rightarrow> Inr (mg_version m # vs))" "db1 = db2"
        using Cons.prems False o1 None rec by simp_all
      then show ?thesis
        using vs apply_one_versions [of e m db dbm] o1 None False
        by (intro exI [of _ "mg_version m # vs"]) (auto split: sum.splits)
    qed
  qed
qed simp

lemma apply_all_resume:
  assumes "apply_all e1 False rank t A ms db = (r1, db1)" and "apply_all e2 False rank t A ms db = (Inr all, db2)"
    and "env_le e1 e2" and "distinct (map mg_version ms)"
    and "\<forall>m\<in>set ms. mg_version m \<in> A \<longleftrightarrow> mg_version m \<in> set (db_versions db)" and "A \<subseteq> set (db_versions db)"
  shows "\<exists>fin rest. apply_all e2 False rank t (set (db_versions db1)) ms db1 = (Inr rest, db2)
      \<and> all = fin @ rest \<and> db_versions db1 = db_versions db @ fin \<and> (is_ok r1 \<longrightarrow> r1 = Inr all)"
  using assms
proof (induction ms arbitrary: db r1 all)
  case Nil
  then show ?case by auto
next
  case (Cons m ms)
  let ?v = "mg_version m"
  show ?case
  proof (cases "rank ?v > t")
    case True
    then show ?thesis using Cons.prems(1,2) by auto
  next
    case le: False
    show ?thesis
    proof (cases "?v \<in> A")
      case True
      have "\<exists>fin rest. apply_all e2 False rank t (set (db_versions db1)) ms db1 = (Inr rest, db2)
          \<and> all = fin @ rest \<and> db_versions db1 = db_versions db @ fin \<and> (is_ok r1 \<longrightarrow> r1 = Inr all)"
        using Cons.prems le True by (intro Cons.IH) auto
      then obtain fin rest where f: "apply_all e2 False rank t (set (db_versions db1)) ms db1 = (Inr rest, db2)"
        "all = fin @ rest" "db_versions db1 = db_versions db @ fin" "is_ok r1 \<longrightarrow> r1 = Inr all"
        by blast
      moreover have "?v \<in> set (db_versions db1)"
        using f(3) Cons.prems(6) True by auto
      ultimately show ?thesis using le by auto
    next
      case nA: False
      obtain dbm all' where m2: "apply_one e2 False m db = (None, dbm)"
        "apply_all e2 False rank t A ms dbm = (Inr all', db2)" "all = ?v # all'"
        using Cons.prems(2) le nA by (auto split: prod.splits option.splits sum.splits)
      obtain o1 db1' where o1: "apply_one e1 False m db = (o1, db1')" by fastforce
      show ?thesis
      proof (cases o1)
        case (Some err)
        then have same: "db1 = db" "r1 = Inl err"
          using Cons.prems(1) le nA o1 apply_one_error [of e1 False m db err db1'] by auto
        have "apply_all e2 False rank t (set (db_versions db)) (m # ms) db = (Inr all, db2)"
          unfolding apply_all_cong [OF Cons.prems(5), symmetric] by (rule Cons.prems(2))
        then show ?thesis using same by auto
      next
        case None
        then have dbm: "db1' = dbm"
          using o1 apply_one_le [of e1 False m db db1' e2] Cons.prems(3) m2(1) by simp
        obtain r1' where rec: "apply_all e1 False rank t A ms dbm = (r1', db1)"
          "r1 = (case r1' of Inl err \<Rightarrow> Inl err | Inr vs \<Rightarrow> Inr (?v # vs))"
          using Cons.prems(1) le nA o1 None dbm by (auto split: prod.splits)
        have vm: "db_versions dbm = db_versions db @ [?v]" using apply_one_versions [OF m2(1)] .
        have "\<exists>fin rest. apply_all e2 False rank t (set (db_versions db1)) ms db1 = (Inr rest, db2)
            \<and> all' = fin @ rest \<and> db_versions db1 = db_versions dbm @ fin \<and> (is_ok r1' \<longrightarrow> r1' = Inr all')"
        proof (rule Cons.IH [OF rec(1) m2(2) Cons.prems(3)])
          have "\<forall>m'\<in>set ms. mg_version m' \<noteq> ?v" using Cons.prems(4) by (auto intro: rev_image_eqI)
          then show "\<forall>m\<in>set ms. (mg_version m \<in> A) = (mg_version m \<in> set (db_versions dbm))"
            using Cons.prems(5) vm by auto
        qed (use Cons.prems(4,6) vm in auto)
        then obtain fin rest where f: "apply_all e2 False rank t (set (db_versions db1)) ms db1 = (Inr rest, db2)"
          "all' = fin @ rest" "db_versions db1 = db_versions dbm @ fin" "is_ok r1' \<longrightarrow> r1' = Inr all'"
          by blast
        moreover have "?v \<in> set (db_versions db1)" using f(3) vm by simp
        ultimately show ?thesis
          using le m2(3) vm rec(2)
          by (intro exI [of _ "?v # fin"] exI [of _ rest]) (auto split: sum.splits)
      qed
    qed
  qed
qed

lemma first_dup_None: "first_dup xs = None \<longleftrightarrow> distinct xs"
  by (induction xs) auto

lemma available_distinct:
  assumes "available_from files reg versions = Inr ms"
  shows "distinct (map mg_version ms)" and "\<forall>m\<in>set ms. mg_version m \<in> set versions"
    and "sorted (map (\<lambda>m. version_rank versions (mg_version m)) ms)"
proof -
  let ?us = "map (unit_of files reg) (remdups (sql_bases files @ reg))"
  have ms: "ms = sort_key (\<lambda>m. version_rank versions (mg_version m)) ?us"
    and d: "distinct (map mg_version ?us)"
    and v: "\<forall>b\<in>set (sql_bases files @ reg). base_version b \<in> set versions"
    using assms by (auto simp: available_from_def Let_def first_dup_None find_eq_None split: option.splits)
  have "mset (map mg_version ms) = mset (map mg_version ?us)"
    unfolding ms by (simp only: mset_map mset_sort)
  then show "distinct (map mg_version ms)" using d mset_eq_imp_distinct_iff by blast
  show "\<forall>m\<in>set ms. mg_version m \<in> set versions" using v by (auto simp: ms unit_of_def)
  show "sorted (map (\<lambda>m. version_rank versions (mg_version m)) ms)" by (simp add: ms)
qed

lemma run_migrations_loop:
  assumes "run_migrations e fresh files reg versions target False path db = (Inr all, db2)"
  obtains i ms where "available_from files reg versions = Inr ms"
    "apply_all e False (version_rank versions) i (set (db_versions db)) ms db = (Inr all, db2)"
    "\<And>e' db'. me_connect e' \<Longrightarrow> me_table e' \<Longrightarrow> me_read e' \<Longrightarrow>
       run_migrations e' fresh files reg versions target False path db' =
       apply_all e' False (version_rank versions) i (set (db_versions db')) ms db'"
    "\<And>e' db'. \<not> (me_connect e' \<and> me_table e' \<and> me_read e') \<Longrightarrow>
       snd (run_migrations e' fresh files reg versions target False path db') = db' \<and>
       \<not> is_ok (fst (run_migrations e' fresh files reg versions target False path db'))"
    "me_connect e" "me_table e" "me_read e"
  using assms
  by (auto simp: run_migrations_def Let_def split: if_splits option.splits sum.splits)

lemma apply_all_sorted:
  "apply_all e False rank t A ms db = (Inr all, db2) \<Longrightarrow> sorted (map (\<lambda>m. rank (mg_version m)) ms) \<Longrightarrow>
   sorted (map rank all)"
proof (induction ms arbitrary: db all)
  case (Cons m ms)
  show ?case
  proof (cases "rank (mg_version m) > t \<or> mg_version m \<in> A")
    case True
    then show ?thesis using Cons by (auto split: if_splits)
  next
    case False
    then obtain dbm all' where a: "apply_all e False rank t A ms dbm = (Inr all', db2)" "all = mg_version m # all'"
      using Cons.prems(1) by (auto split: prod.splits option.splits sum.splits)
    have "\<forall>v\<in>set all'. v \<in> mg_version ` set ms"
      using apply_all_versions [OF a(1)] by auto
    then show ?thesis using Cons.IH [OF a(1)] Cons.prems(2) a(2) by auto
  qed
qed simp

text \<open>
  C36. Migrations can be interrupted and resumed: whatever goes wrong in a run (a refused
  connection, a failing statement, a Go migration that fails or panics, a failed commit), the
  database keeps exactly the migrations whose transactions were committed, a later run in
  which nothing fails applies exactly the remaining ones and ends in the same database as a
  run that was never interrupted, and running once more applies nothing. Versions are applied
  and recorded in the order of the version history.
\<close>

theorem interrupted_migration_resumes:
  assumes "run_migrations e1 fresh files reg versions target False path db = (r1, db1)"
    and "run_migrations e fresh files reg versions target False path db = (Inr all, db2)"
    and "env_le e1 e"
  shows "\<exists>fin rest. all = fin @ rest
      \<and> db_versions db1 = db_versions db @ fin \<and> db_versions db2 = db_versions db @ all
      \<and> run_migrations e fresh files reg versions target False path db1 = (Inr rest, db2)
      \<and> run_migrations e fresh files reg versions target False path db2 = (Inr [], db2)
      \<and> sorted (map (version_rank versions) all)"
proof -
  let ?run = "\<lambda>e d. run_migrations e fresh files reg versions target False path d"
  let ?V = "\<lambda>d. set (db_versions d)"
  obtain i ms where ms: "available_from files reg versions = Inr ms"
    and l2: "apply_all e False (version_rank versions) i (?V db) ms db = (Inr all, db2)"
    and ok: "\<And>e' d. me_connect e' \<Longrightarrow> me_table e' \<Longrightarrow> me_read e' \<Longrightarrow>
       ?run e' d = apply_all e' False (version_rank versions) i (?V d) ms d"
    and bad: "\<And>e' d. \<not> (me_connect e' \<and> me_table e' \<and> me_read e') \<Longrightarrow> snd (?run e' d) = d \<and> \<not> is_ok (fst (?run e' d))"
    and e: "me_connect e" "me_table e" "me_read e"
    using run_migrations_loop [OF assms(2)] by metis
  note dist = available_distinct [OF ms]
  have self: "env_le e e" by (simp add: env_le_def)
  have v2: "db_versions db2 = db_versions db @ all" using apply_all_versions [OF l2] by blast
  obtain fin2 rest2 where again: "apply_all e False (version_rank versions) i (?V db2) ms db2 = (Inr rest2, db2)"
    "all = fin2 @ rest2" "db_versions db2 = db_versions db @ fin2"
    using apply_all_resume [OF l2 l2 self dist(1)] by blast
  have again2: "?run e db2 = (Inr [], db2)" using again v2 ok [OF e] by simp
  have ord: "sorted (map (version_rank versions) all)" using apply_all_sorted [OF l2 dist(3)] .
  show ?thesis
  proof (cases "me_connect e1 \<and> me_table e1 \<and> me_read e1")
    case True
    then have "apply_all e1 False (version_rank versions) i (?V db) ms db = (r1, db1)"
      using ok [of e1 db] assms(1) by simp
    from apply_all_resume [OF this l2 assms(3) dist(1)]
    obtain fin rest where "apply_all e False (version_rank versions) i (?V db1) ms db1 = (Inr rest, db2)"
      "all = fin @ rest" "db_versions db1 = db_versions db @ fin" by blast
    then show ?thesis using v2 again2 ord ok [OF e, of db1] by auto
  next
    case False
    then have "db1 = db" using bad [OF False, of db] assms(1) by simp
    then show ?thesis using v2 again2 ord assms(2) by (intro exI [of _ "[]"] exI [of _ all]) simp
  qed
qed

definition sample_files :: "(string \<times> string option) list" where
  "sample_files = [(''a.0.2_20260202.sql'', Some ''two''), (''a.0.1_20260101.sql'', Some ''one''),
     (''old'', None), (''README'', Some ''text'')]"

definition sample_migration_env :: "bool \<Rightarrow> string list migration_env" where
  "sample_migration_env good = \<lparr>me_connect = True, me_rebuild = True, me_table = True, me_read = True,
     me_begin = (\<lambda>_. True), me_commit = (\<lambda>_. True),
     me_sql = (\<lambda>q d. if good \<or> q = ''one'' then Some (d @ [q]) else None), me_go = (\<lambda>n d. GoDone (d @ [n]))\<rparr>"

theorem interrupted_migration_resumes_witness:
  "let run = (\<lambda>e d. run_migrations e [] sample_files [''a.0.2_20260202''] [''a.0.1'', ''a.0.2''] '''' False '''' d);
       start = \<lparr>db_schema = [], db_versions = []\<rparr>;
       stopped = \<lparr>db_schema = [''one''], db_versions = [''a.0.1'']\<rparr>;
       finished = \<lparr>db_schema = [''one'', ''two'', ''a.0.2_20260202''], db_versions = [''a.0.1'', ''a.0.2'']\<rparr>
   in run (sample_migration_env False) start = (Inl (ApplyFailed ''a.0.2_20260202''), stopped)
    \<and> run (sample_migration_env True) start = (Inr [''a.0.1'', ''a.0.2''], finished)
    \<and> run (sample_migration_env True) stopped = (Inr [''a.0.2''], finished)
    \<and> run (sample_migration_env True) finished = (Inr [], finished)"
proof -
  let ?run = "\<lambda>e d. run_migrations e [] sample_files [''a.0.2_20260202''] [''a.0.1'', ''a.0.2''] '''' False '''' d"
  let ?start = "\<lparr>db_schema = [] :: string list, db_versions = []\<rparr>"
  let ?stopped = "\<lparr>db_schema = [''one''], db_versions = [''a.0.1'']\<rparr>"
  let ?finished = "\<lparr>db_schema = [''one'', ''two'', ''a.0.2_20260202''], db_versions = [''a.0.1'', ''a.0.2'']\<rparr>"
  have r1: "?run (sample_migration_env False) ?start = (Inl (ApplyFailed ''a.0.2_20260202''), ?stopped)"
    by code_simp
  have r2: "?run (sample_migration_env True) ?start = (Inr [''a.0.1'', ''a.0.2''], ?finished)"
    by code_simp
  have le: "env_le (sample_migration_env False) (sample_migration_env True)"
    by (simp add: env_le_def sample_migration_env_def)
  obtain fin rest where f: "[''a.0.1'', ''a.0.2''] = fin @ rest
      \<and> db_versions ?stopped = db_versions ?start @ fin
      \<and> db_versions ?finished = db_versions ?start @ [''a.0.1'', ''a.0.2'']
      \<and> ?run (sample_migration_env True) ?stopped = (Inr rest, ?finished)
      \<and> ?run (sample_migration_env True) ?finished = (Inr [], ?finished)
      \<and> sorted (map (version_rank [''a.0.1'', ''a.0.2'']) [''a.0.1'', ''a.0.2''])"
    using interrupted_migration_resumes [OF r1 r2 le] by (elim exE) (rule that)
  have "rest = [''a.0.2'']"
    using f [THEN conjunct1] f [THEN conjunct2, THEN conjunct1] by auto
  moreover note f [THEN conjunct2, THEN conjunct2, THEN conjunct2, THEN conjunct1]
    f [THEN conjunct2, THEN conjunct2, THEN conjunct2, THEN conjunct2, THEN conjunct1]
  ultimately show ?thesis using r1 r2 unfolding Let_def by (intro conjI) (simp_all only:)
qed

section \<open>Aliases with an underscore\<close>

text \<open>
  A version whose alias contains an underscore passes the checks of names and of versions,
  and its migrations still cannot be run: the version is cut at the first underscore.
\<close>

lemma underscore_alias_unusable:
  "version_ok ''my_app.0.1'' \<and> base_ok ''my_app.0.1_20260101''
   \<and> available_from [(''my_app.0.1_20260101.sql'', Some ''x'')] [] [''my_app.0.1''] =
       Inl (UnknownVersion ''my_app.0.1_20260101'')"
  by code_simp

end
