(* ===== verification/MockServer.thy ===== *)
theory MockServer
  imports Lifecycle
begin

text \<open>
  The stand-alone cluster service (\<open>internal/cluster/mockserver/mockserver.go\<close>,
  \<open>internal/cluster/mockserver/hostid.go\<close>): node specifications from the command line, the
  configuration, the derived host identifier, and the service whose leader can be switched.
  The host name, the machine signature and the JSON decoder of the admin request are arguments.
\<close>

section \<open>Splitting and trimming\<close>

definition is_space :: "char \<Rightarrow> bool" where
  "is_space c \<longleftrightarrow> (of_char c :: nat) = 32 \<or> ((9 :: nat) \<le> of_char c \<and> of_char c \<le> (13 :: nat))"

definition trim_chars :: "(char \<Rightarrow> bool) \<Rightarrow> string \<Rightarrow> string" where
  "trim_chars P s = rev (dropWhile P (rev (dropWhile P s)))"

definition trim_space :: "string \<Rightarrow> string" where
  "trim_space s = trim_chars is_space s"

text \<open>\<open>strings.Cut\<close> at a character.\<close>

definition cut_at :: "char \<Rightarrow> string \<Rightarrow> (string \<times> string) option" where
  "cut_at x s =
     (case dropWhile (\<lambda>c. c \<noteq> x) s of [] \<Rightarrow> None | _ # r \<Rightarrow> Some (takeWhile (\<lambda>c. c \<noteq> x) s, r))"

section \<open>Node specifications\<close>

record node_spec =
  ns_id :: string
  ns_address :: string
  ns_vpc :: string
  ns_labels :: "string list"
  ns_roles :: "string list"
  ns_online :: bool
  ns_leader :: bool

datatype mock_error =
    EmptySpec | EmptyField | BadField string | UnknownField string | UnknownRole string | BadBool string
  | IdRequired | EmptyNodeId | DuplicateNodeId string | SelfNotListed string | UnknownMockNode string

definition split_semicolons :: "string \<Rightarrow> string list" where
  "split_semicolons s = filter (\<lambda>t. t \<noteq> '''') (map trim_space (split_on CHR '';'' s))"

definition parse_roles :: "string \<Rightarrow> mock_error + string list" where
  "parse_roles s =
     (let items = split_semicolons s in
      case find (\<lambda>r. fold_name r \<noteq> role_primary \<and> fold_name r \<noteq> role_standby) items of
        Some r \<Rightarrow> Inl (UnknownRole r)
      | None \<Rightarrow> Inr (map fold_name items))"

text \<open>\<open>strconv.ParseBool\<close>.\<close>

definition parse_bool :: "string \<Rightarrow> mock_error + bool" where
  "parse_bool s =
     (if s \<in> {''1'', ''t'', ''T'', ''true'', ''TRUE'', ''True''} then Inr True
      else if s \<in> {''0'', ''f'', ''F'', ''false'', ''FALSE'', ''False''} then Inr False
      else Inl (BadBool s))"

definition set_field :: "string \<Rightarrow> string \<Rightarrow> node_spec \<Rightarrow> mock_error + node_spec" where
  "set_field key v n =
     (let k = fold_name (trim_space key) in
      if k = ''id'' then Inr (n\<lparr>ns_id := v\<rparr>)
      else if k = ''address'' then Inr (n\<lparr>ns_address := v\<rparr>)
      else if k = ''vpc'' then Inr (n\<lparr>ns_vpc := v\<rparr>)
      else if k = ''labels'' then Inr (n\<lparr>ns_labels := split_semicolons v\<rparr>)
      else if k = ''roles'' then rbind (parse_roles v) (\<lambda>r. Inr (n\<lparr>ns_roles := r\<rparr>))
      else if k = ''online'' then rbind (parse_bool v) (\<lambda>b. Inr (n\<lparr>ns_online := b\<rparr>))
      else if k = ''leader'' then rbind (parse_bool v) (\<lambda>b. Inr (n\<lparr>ns_leader := b\<rparr>))
      else Inl (UnknownField key))"

fun parse_fields :: "string list \<Rightarrow> node_spec \<Rightarrow> mock_error + node_spec" where
  "parse_fields [] n = (if ns_id n = '''' then Inl IdRequired else Inr n)"
| "parse_fields (f # fs) n =
     (let g = trim_space f in
      if g = '''' then Inl EmptyField
      else case cut_at CHR ''='' g of
          None \<Rightarrow> Inl (BadField g)
        | Some (k, v) \<Rightarrow> rbind (set_field k v n) (parse_fields fs))"

definition parse_node_spec :: "string \<Rightarrow> mock_error + node_spec" where
  "parse_node_spec s =
     (if trim_space s = '''' then Inl EmptySpec
      else parse_fields (split_on CHR '','' s)
        \<lparr>ns_id = '''', ns_address = '''', ns_vpc = '''', ns_labels = [], ns_roles = [],
         ns_online = True, ns_leader = False\<rparr>)"

section \<open>The host identifier\<close>

definition host_char :: "char \<Rightarrow> bool" where
  "host_char c \<longleftrightarrow> (97 :: nat) \<le> of_char c \<and> of_char c \<le> (122 :: nat) \<or> (48 :: nat) \<le> of_char c \<and> of_char c \<le> (57 :: nat)"

fun squeeze_host :: "bool \<Rightarrow> bool \<Rightarrow> string \<Rightarrow> string" where
  "squeeze_host started last_sep [] = []"
| "squeeze_host started last_sep (c # cs) =
     (if host_char c then c # squeeze_host True False cs
      else if \<not> last_sep \<and> started then CHR ''-'' # squeeze_host True True cs
      else squeeze_host started last_sep cs)"

definition trim_dashes :: "string \<Rightarrow> string" where
  "trim_dashes s = trim_chars (\<lambda>c. c = CHR ''-'') s"

definition sanitize_hostname :: "string \<Rightarrow> string" where
  "sanitize_hostname host =
     (let out = trim_dashes (squeeze_host False False (fold_name host)) in
      if out = '''' then ''localhost''
      else if 24 < length out then trim_dashes (take 24 out)
      else out)"

definition hex_digit :: "nat \<Rightarrow> char" where
  "hex_digit n = char_of (if n < 10 then 48 + n else 87 + n)"

fun show_hex :: "nat \<Rightarrow> nat \<Rightarrow> string" where
  "show_hex 0 n = ''''"
| "show_hex (Suc k) n = show_hex k (n div 16) @ [hex_digit (n mod 16)]"

text \<open>\<open>None\<close>: the host name cannot be read.\<close>

definition host_node_id :: "string option \<Rightarrow> string \<Rightarrow> string" where
  "host_node_id host signature =
     (let h = sanitize_hostname (case host of Some s \<Rightarrow> if trim_space s = '''' then ''localhost'' else s
                                            | None \<Rightarrow> ''localhost'')
      in ''node-'' @ h @ ''-'' @ show_hex 8 (unat (fnv32a (h @ [char_of (0 :: nat)] @ signature))))"

section \<open>The configuration\<close>

record mock_config =
  mk_grpc :: string
  mk_http :: string
  mk_self :: string
  mk_nodes :: "node_spec list"
  mk_shutdown :: int

definition default_mock_nodes :: "string \<Rightarrow> node_spec list" where
  "default_mock_nodes host_id =
     [\<lparr>ns_id = host_id, ns_address = ''127.0.0.1:9090'', ns_vpc = '''', ns_labels = [],
       ns_roles = [role_primary], ns_online = True, ns_leader = True\<rparr>]"

fun check_ids :: "string list \<Rightarrow> node_spec list \<Rightarrow> mock_error option" where
  "check_ids seen [] = None"
| "check_ids seen (n # ns) =
     (if ns_id n = '''' then Some EmptyNodeId
      else if ns_id n \<in> set seen then Some (DuplicateNodeId (ns_id n))
      else check_ids (ns_id n # seen) ns)"

definition normalize_mock :: "string \<Rightarrow> mock_config \<Rightarrow> mock_error + mock_config" where
  "normalize_mock host_id c =
     (let ns = (if mk_nodes c = [] then default_mock_nodes host_id else mk_nodes c) in
      case check_ids [] ns of
        Some e \<Rightarrow> Inl e
      | None \<Rightarrow>
          if mk_self c \<noteq> '''' \<and> mk_self c \<notin> set (map ns_id ns) then Inl (SelfNotListed (mk_self c))
          else Inr \<lparr>mk_grpc = (if mk_grpc c = '''' then ''127.0.0.1:9190'' else mk_grpc c),
            mk_http = (if mk_http c = '''' then ''127.0.0.1:9191'' else mk_http c),
            mk_self = (if mk_self c \<noteq> '''' then mk_self c
              else case find ns_leader ns of Some n \<Rightarrow> ns_id n | None \<Rightarrow> ns_id (hd ns)),
            mk_nodes = ns,
            mk_shutdown = (if mk_shutdown c \<le> 0 then 10 * 10 ^ 9 else mk_shutdown c)\<rparr>)"

fun parse_specs :: "string list \<Rightarrow> mock_error + node_spec list" where
  "parse_specs [] = Inr []"
| "parse_specs (s # ss) = rbind (parse_node_spec s) (\<lambda>n. rbind (parse_specs ss) (\<lambda>ns. Inr (n # ns)))"

definition mock_from_config ::
  "string \<Rightarrow> string \<Rightarrow> string \<Rightarrow> string \<Rightarrow> string list \<Rightarrow> int \<Rightarrow> mock_error + mock_config" where
  "mock_from_config host_id grpc http self specs budget =
     rbind (parse_specs specs) (\<lambda>ns. normalize_mock host_id
       \<lparr>mk_grpc = grpc, mk_http = http, mk_self = self, mk_nodes = ns, mk_shutdown = budget\<rparr>)"

section \<open>The service\<close>

record mock_service =
  ms_nodes :: "node_spec list"
  ms_self :: string

definition new_mock :: "mock_config \<Rightarrow> mock_service" where
  "new_mock c = \<lparr>ms_nodes = mk_nodes c, ms_self = mk_self c\<rparr>"

definition wire_of_spec :: "node_spec \<Rightarrow> wire_node" where
  "wire_of_spec n = \<lparr>wn_id = ns_id n, wn_address = ns_address n, wn_vpc = ns_vpc n, wn_labels = ns_labels n,
     wn_role = ns_roles n, wn_online = ns_online n, wn_leader = ns_leader n\<rparr>"

definition mock_snapshot :: "mock_service \<Rightarrow> string \<times> wire_node option list" where
  "mock_snapshot s = (ms_self s, map (Some \<circ> wire_of_spec) (ms_nodes s))"

definition node_exists :: "string \<Rightarrow> mock_service \<Rightarrow> bool" where
  "node_exists i s = list_ex (\<lambda>n. ns_id n = i) (ms_nodes s)"

definition set_leader :: "string \<Rightarrow> mock_service \<Rightarrow> mock_error option \<times> mock_service" where
  "set_leader i s =
     (if \<not> node_exists i s then (Some (UnknownMockNode i), s)
      else (None, s\<lparr>ms_nodes := map (\<lambda>n. n\<lparr>ns_leader := (ns_id n = i)\<rparr>) (ms_nodes s)\<rparr>))"

text \<open>The admin endpoint: the status and, on success, the new snapshot. \<open>decode\<close> is the JSON decoder.\<close>

definition handle_set_leader ::
  "('b \<Rightarrow> string option) \<Rightarrow> 'b option \<Rightarrow> mock_service
     \<Rightarrow> (nat \<times> (string \<times> wire_node option list) option) \<times> mock_service" where
  "handle_set_leader decode body s =
     (case body of None \<Rightarrow> ((400, None), s)
      | Some raw \<Rightarrow>
          (case decode raw of None \<Rightarrow> ((400, None), s)
           | Some i \<Rightarrow>
               if \<not> node_exists i s then ((404, None), s)
               else (case set_leader i s of
                       (Some e, s') \<Rightarrow> ((404, None), s')
                     | (None, s') \<Rightarrow> ((200, Some (mock_snapshot s')), s'))))"

section \<open>Valid configurations\<close>

lemma check_ids_None:
  "check_ids seen ns = None \<longleftrightarrow>
     distinct (map ns_id ns) \<and> '''' \<notin> ns_id ` set ns \<and> set seen \<inter> ns_id ` set ns = {}"
  by (induction ns arbitrary: seen) auto

lemma find_SomeI: "x \<in> set xs \<Longrightarrow> P x \<Longrightarrow> \<exists>y. find P xs = Some y \<and> y \<in> set xs \<and> P y"
  by (induction xs) auto

lemma normalize_mock_Inr:
  assumes "normalize_mock h c = Inr d"
  shows "distinct (map ns_id (mk_nodes d))" "'''' \<notin> ns_id ` set (mk_nodes d)" "mk_self d \<in> ns_id ` set (mk_nodes d)"
    "mk_nodes d \<noteq> []" "mk_grpc d \<noteq> ''''" "mk_http d \<noteq> ''''" "0 < mk_shutdown d"
proof -
  define ns where "ns = (if mk_nodes c = [] then default_mock_nodes h else mk_nodes c)"
  have ne: "ns \<noteq> []" by (simp add: ns_def default_mock_nodes_def)
  have d: "mk_nodes d = ns" "check_ids [] ns = None"
    "mk_self d = (if mk_self c \<noteq> '''' then mk_self c
       else case find ns_leader ns of Some n \<Rightarrow> ns_id n | None \<Rightarrow> ns_id (hd ns))"
    "mk_self c \<noteq> '''' \<Longrightarrow> mk_self c \<in> ns_id ` set ns"
    using assms by (auto simp: normalize_mock_def Let_def ns_def split: option.splits if_splits)
  show "distinct (map ns_id (mk_nodes d))" "'''' \<notin> ns_id ` set (mk_nodes d)" "mk_nodes d \<noteq> []"
    using d(1,2) ne by (auto simp: check_ids_None)
  show "mk_self d \<in> ns_id ` set (mk_nodes d)"
    using d(1,3,4) ne by (auto dest: find_eq_SomeD split: option.splits)
  show "mk_grpc d \<noteq> ''''" "mk_http d \<noteq> ''''" "0 < mk_shutdown d"
    using assms by (auto simp: normalize_mock_def Let_def split: option.splits if_splits)
qed

text \<open>Normalising is idempotent, as the constructor relies on.\<close>

lemma normalize_mock_idem:
  assumes "normalize_mock h c = Inr d"
  shows "normalize_mock h d = Inr d"
proof -
  note f = normalize_mock_Inr [OF assms]
  have "check_ids [] (mk_nodes d) = None" using f by (simp add: check_ids_None)
  moreover have "mk_self d \<noteq> ''''" using f(2,3) by metis
  ultimately show ?thesis using f by (auto simp: normalize_mock_def Let_def)
qed

lemma parse_roles_ok: "parse_roles s = Inr rs \<Longrightarrow> set rs \<subseteq> {role_primary, role_standby}"
  by (auto simp: parse_roles_def Let_def find_eq_None split: option.splits)

lemma parse_fields_ok:
  "parse_fields fs n = Inr m \<Longrightarrow> set (ns_roles n) \<subseteq> {role_primary, role_standby} \<Longrightarrow>
   ns_id m \<noteq> '''' \<and> set (ns_roles m) \<subseteq> {role_primary, role_standby}"
proof (induction fs arbitrary: n)
  case Nil
  then show ?case by (auto split: if_splits)
next
  case (Cons f fs)
  obtain k v n' where s: "set_field k v n = Inr n'" "parse_fields fs n' = Inr m"
    using Cons.prems(1) by (auto simp: Let_def result_simps split: if_splits option.splits)
  have "set (ns_roles n') \<subseteq> {role_primary, role_standby}"
    using s(1) Cons.prems(2) parse_roles_ok [of v]
    by (fastforce simp: set_field_def Let_def result_simps split: if_splits sum.splits)
  then show ?case using Cons.IH [OF s(2)] by blast
qed

text \<open>A parsed specification has an identifier, and only the two known roles.\<close>

lemma parse_node_spec_ok:
  assumes "parse_node_spec s = Inr n"
  shows "ns_id n \<noteq> '''' \<and> set (ns_roles n) \<subseteq> {role_primary, role_standby}"
proof -
  let ?n0 = "\<lparr>ns_id = '''', ns_address = '''', ns_vpc = '''', ns_labels = [], ns_roles = [],
         ns_online = True, ns_leader = False\<rparr>"
  have "parse_fields (split_on CHR '','' s) ?n0 = Inr n"
    using assms by (auto simp: parse_node_spec_def split: if_splits)
  then show ?thesis by (rule parse_fields_ok) simp
qed

section \<open>Switching the leader\<close>

definition switch_all :: "string list \<Rightarrow> mock_service \<Rightarrow> mock_service" where
  "switch_all is s = fold (\<lambda>i s. snd (set_leader i s)) is s"

lemma set_leader_ids [simp]:
  "map ns_id (ms_nodes (snd (set_leader i s))) = map ns_id (ms_nodes s)"
  "map ns_roles (ms_nodes (snd (set_leader i s))) = map ns_roles (ms_nodes s)"
  by (simp_all add: set_leader_def comp_def)

lemma switch_all_ids: "map ns_id (ms_nodes (switch_all is s)) = map ns_id (ms_nodes s)"
proof (induction "is" arbitrary: s)
  case (Cons i "is")
  then show ?case using Cons.IH [of "snd (set_leader i s)"] by (simp add: switch_all_def)
qed (simp add: switch_all_def)

lemma find_leader_unique:
  assumes "distinct (map ns_id ns)" and "n \<in> set ns" and "ns_id n \<noteq> ''''"
  shows "find (\<lambda>w. wn_leader w \<and> wn_id w \<noteq> '''')
      (map (wire_of_spec \<circ> (\<lambda>m. m\<lparr>ns_leader := (ns_id m = ns_id n)\<rparr>)) ns) =
    Some (wire_of_spec (n\<lparr>ns_leader := True\<rparr>))"
  using assms
proof (induction ns)
  case (Cons m ns)
  then show ?case
    by (cases "m = n") (auto simp: wire_of_spec_def)
qed simp


text \<open>What a poller of the service sees after a switch to a listed node.\<close>

lemma switched_view:
  assumes "distinct (map ns_id (ms_nodes s))" and "n \<in> set (ms_nodes s)" and "ns_id n \<noteq> ''''"
    and "set_leader (ns_id n) s = (None, s')"
  shows "in_scheduler (info_from_proto (Some (mock_snapshot s'))) = ns_id n"
    and "info_node (info_from_proto (Some (mock_snapshot s'))) (ns_id n) =
      Some (node_from_proto (Some (wire_of_spec (n\<lparr>ns_leader := True\<rparr>))))"
    and "filter nd_leader (in_nodes (info_from_proto (Some (mock_snapshot s')))) =
      [node_from_proto (Some (wire_of_spec (n\<lparr>ns_leader := True\<rparr>)))]"
proof -
  define f :: "node_spec \<Rightarrow> node_spec" where "f = (\<lambda>m. m\<lparr>ns_leader := (ns_id m = ns_id n)\<rparr>)"
  have s': "s' = s\<lparr>ms_nodes := map f (ms_nodes s)\<rparr>"
    using assms(4) by (auto simp: set_leader_def f_def split: if_splits)
  have shape: "info_from_proto (Some (mock_snapshot s')) =
      info_from_proto (Some (ms_self s, map Some (map (wire_of_spec \<circ> f) (ms_nodes s))))"
    by (simp add: s' mock_snapshot_def comp_def)
  note roles = snapshot_roles [OF refl, of "ms_self s" "map (wire_of_spec \<circ> f) (ms_nodes s)"]
  show "in_scheduler (info_from_proto (Some (mock_snapshot s'))) = ns_id n"
    using roles find_leader_unique [OF assms(1-3)] by (simp add: shape f_def wire_of_spec_def)
  have nodes: "in_nodes (info_from_proto (Some (mock_snapshot s'))) =
      map (\<lambda>m. node_from_proto (Some (wire_of_spec (f m)))) (ms_nodes s)"
    using roles by (simp add: shape comp_def)
  have "find (\<lambda>k. nd_id k = ns_id n) (map (\<lambda>m. node_from_proto (Some (wire_of_spec (f m)))) ns) =
      Some (node_from_proto (Some (wire_of_spec (n\<lparr>ns_leader := True\<rparr>))))"
    if "distinct (map ns_id ns)" "n \<in> set ns" for ns
    using that by (induction ns) (auto simp: f_def node_from_proto_def wire_of_spec_def)
  then show "info_node (info_from_proto (Some (mock_snapshot s'))) (ns_id n) =
      Some (node_from_proto (Some (wire_of_spec (n\<lparr>ns_leader := True\<rparr>))))"
    using assms(1,2) by (simp add: info_node_def nodes)
  have none: "filter nd_leader (map (\<lambda>m. node_from_proto (Some (wire_of_spec (f m)))) ns) = []"
    if "ns_id n \<notin> ns_id ` set ns" for ns
    using that by (induction ns) (auto simp: f_def node_from_proto_def wire_of_spec_def)
  have "filter nd_leader (map (\<lambda>m. node_from_proto (Some (wire_of_spec (f m)))) ns) =
      [node_from_proto (Some (wire_of_spec (n\<lparr>ns_leader := True\<rparr>)))]"
    if "distinct (map ns_id ns)" "n \<in> set ns" for ns
    using that
  proof (induction ns)
    case (Cons m ns)
    show ?case
    proof (cases "m = n")
      case True
      then show ?thesis using Cons.prems none [of ns]
        by (auto simp: f_def node_from_proto_def wire_of_spec_def)
    next
      case False
      then have "ns_id m \<noteq> ns_id n" "n \<in> set ns" using Cons.prems by auto
      then show ?thesis using Cons by (simp add: f_def node_from_proto_def wire_of_spec_def)
    qed
  qed simp
  then show "filter nd_leader (in_nodes (info_from_proto (Some (mock_snapshot s')))) =
      [node_from_proto (Some (wire_of_spec (n\<lparr>ns_leader := True\<rparr>)))]"
    using assms(1,2) by (simp add: nodes)
qed

lemma permissions_of_schedule:
  "permissions_of rs \<noteq> [] \<and> (PermSchedule \<in> set (permissions_of rs)) = (role_primary \<in> set rs)"
  by (simp add: permissions_of_def)

text \<open>
  From any valid configuration and after any sequence of leader switches, after a switch to
  a listed node every poll sees that node as scheduler and as the only leader; a node runs its control plane after its next poll exactly when it is
  that node and its roles contain \<open>primary\<close>; an unknown node is refused with the leader unchanged.
  A switch to a standby node therefore stops the control plane everywhere.
\<close>

theorem leader_switch_moves_control:
  assumes "normalize_mock host_id c = Inr d" and "s = switch_all targets (new_mock d)"
    and "n \<in> set (ms_nodes s)" and "set_leader (ns_id n) s = (None, s')"
    and "snap = info_from_proto (Some (mock_snapshot s'))"
    and "0 < gt_loops g" and "gate_step self (Some PermSchedule) (GateTick (Some snap) True) g = (log, g')"
  shows "in_scheduler snap = ns_id n \<and> map nd_id (filter nd_leader (in_nodes snap)) = [ns_id n] \<and>
    gt_running g' = (self = ns_id n \<and> role_primary \<in> set (ns_roles n)) \<and>
    log = (if gt_running g' = gt_running g then [] else if gt_running g' then [InnerStart True] else [InnerStop]) \<and>
    (b \<notin> ns_id ` set (mk_nodes d) \<longrightarrow> set_leader b s' = (Some (UnknownMockNode b), s'))"
proof -
  note ok = normalize_mock_Inr [OF assms(1)]
  have ids: "map ns_id (ms_nodes s) = map ns_id (mk_nodes d)"
    by (simp add: assms(2) switch_all_ids new_mock_def)
  then have dist: "distinct (map ns_id (ms_nodes s))" and ne: "ns_id n \<noteq> ''''"
    using ok(1,2) assms(3) by (simp, metis image_eqI list.set_map)
  note v = switched_view [OF dist assms(3) ne assms(4), folded assms(5)]
  have run: "is_scheduler self (Some PermSchedule) (Some snap) =
      (self = ns_id n \<and> role_primary \<in> set (ns_roles n))"
    using v(1,2) ne permissions_of_schedule [of "ns_roles n"]
    by (auto simp: is_scheduler_def node_from_proto_def wire_of_spec_def has_permission_def list_ex_iff)
  have "map ns_id (ms_nodes s') = map ns_id (mk_nodes d)"
    using set_leader_ids(1) [of "ns_id n" s] ids by (simp add: assms(4))
  then have "ns_id ` set (ms_nodes s') = ns_id ` set (mk_nodes d)" by (metis list.set_map)
  then have "b \<notin> ns_id ` set (mk_nodes d) \<longrightarrow> set_leader b s' = (Some (UnknownMockNode b), s')"
    by (auto simp: set_leader_def node_exists_def list_ex_iff)
  moreover have "gt_running g' = is_scheduler self (Some PermSchedule) (Some snap) \<and>
      log = (if gt_running g' = gt_running g then [] else if gt_running g' then [InnerStart True] else [InnerStop])"
    using assms(6,7) by (auto simp: gate_sync_def split: if_splits)
  ultimately show ?thesis using v(1,3) run by (simp add: node_from_proto_def wire_of_spec_def)
qed

definition sample_spec :: "string \<Rightarrow> string \<Rightarrow> node_spec" where
  "sample_spec i r = \<lparr>ns_id = i, ns_address = '''', ns_vpc = '''', ns_labels = [], ns_roles = [r],
     ns_online = True, ns_leader = False\<rparr>"

definition sample_mock :: mock_config where
  "sample_mock = \<lparr>mk_grpc = ''g'', mk_http = ''h'', mk_self = ''a'',
     mk_nodes = [sample_spec ''a'' role_primary, sample_spec ''b'' role_standby], mk_shutdown = 1\<rparr>"

theorem leader_switch_moves_control_witness:
  "in_scheduler (info_from_proto (Some (mock_snapshot (snd (set_leader ''b''
     (switch_all [''a''] (new_mock sample_mock))))))) = ''b'' \<and>
   set_leader ''x'' (snd (set_leader ''b'' (switch_all [''a''] (new_mock sample_mock)))) =
     (Some (UnknownMockNode ''x''), snd (set_leader ''b'' (switch_all [''a''] (new_mock sample_mock))))"
proof -
  let ?s = "switch_all [''a''] (new_mock sample_mock)"
  have n: "normalize_mock ''h'' sample_mock = Inr sample_mock"
    by (simp add: normalize_mock_def sample_mock_def sample_spec_def Let_def)
  have m: "sample_spec ''b'' role_standby \<in> set (ms_nodes ?s)"
    by (simp add: switch_all_def set_leader_def node_exists_def new_mock_def sample_mock_def sample_spec_def)
  have l: "set_leader (ns_id (sample_spec ''b'' role_standby)) ?s = (None, snd (set_leader ''b'' ?s))"
    by (simp add: switch_all_def set_leader_def node_exists_def new_mock_def sample_mock_def sample_spec_def)
  have x: "''x'' \<notin> ns_id ` set (mk_nodes sample_mock)" by (simp add: sample_mock_def sample_spec_def)
  let ?snap = "info_from_proto (Some (mock_snapshot (snd (set_leader ''b'' ?s))))"
  let ?g = "\<lparr>gt_running = True, gt_cancel = True, gt_loops = 1\<rparr>"
  obtain log g' where t: "gate_step ''a'' (Some PermSchedule) (GateTick (Some ?snap) True) ?g = (log, g')"
    by (rule prod.exhaust)
  have "0 < gt_loops ?g" by simp
  from leader_switch_moves_control [OF n refl m l refl this t, of "''x''"] x
  show ?thesis by (simp add: sample_spec_def)
qed

end
