(* ===== verification/Upload.thy ===== *)
theory Upload
  imports Worker
begin

text \<open>
  The built-in capabilities and their service (\<open>internal/biz/worker/capability.go\<close>,
  \<open>internal/biz/worker/verifier.go\<close>): checking credentials, and uploading a file that arrives in
  chunks, to a local staging directory or over SFTP. Paths follow \<open>path/filepath\<close> on Unix. The
  protobuf codecs, SHA-256, the dialer, SSH and SFTP are arguments.
\<close>

section \<open>Paths\<close>

fun clean_parts :: "bool \<Rightarrow> string list \<Rightarrow> string list \<Rightarrow> string list" where
  "clean_parts rooted acc [] = rev acc"
| "clean_parts rooted acc (p # ps) =
     (if p = '''' \<or> p = ''.'' then clean_parts rooted acc ps
      else if p = ''..'' then
        (case acc of
           [] \<Rightarrow> clean_parts rooted (if rooted then [] else [''..'']) ps
         | a # as \<Rightarrow> clean_parts rooted (if a = ''..'' then ''..'' # acc else as) ps)
      else clean_parts rooted (p # acc) ps)"

definition path_rooted :: "string \<Rightarrow> bool" where
  "path_rooted s = (case s of [] \<Rightarrow> False | c # _ \<Rightarrow> c = CHR ''/'')"

definition path_parts :: "string \<Rightarrow> string list" where
  "path_parts s = clean_parts (path_rooted s) [] (split_on CHR ''/'' s)"

fun join_slash :: "string list \<Rightarrow> string" where
  "join_slash [] = ''''"
| "join_slash [s] = s"
| "join_slash (s # t # ss) = s @ CHR ''/'' # join_slash (t # ss)"

definition render_path :: "bool \<Rightarrow> string list \<Rightarrow> string" where
  "render_path rooted ps =
     (if rooted then CHR ''/'' # join_slash ps else if ps = [] then ''.'' else join_slash ps)"

text \<open>\<open>filepath.Clean\<close>, \<open>filepath.Join\<close> of two elements, \<open>filepath.Dir\<close> and \<open>filepath.Base\<close>.\<close>

definition clean_path :: "string \<Rightarrow> string" where
  "clean_path s = render_path (path_rooted s) (path_parts s)"

definition join_path :: "string \<Rightarrow> string \<Rightarrow> string" where
  "join_path a b =
     (if a \<noteq> '''' then clean_path (a @ CHR ''/'' # b) else if b \<noteq> '''' then clean_path b else '''')"

definition path_dir :: "string \<Rightarrow> string" where
  "path_dir s = clean_path (rev (dropWhile (\<lambda>c. c \<noteq> CHR ''/'') (rev s)))"

definition path_base :: "string \<Rightarrow> string" where
  "path_base s =
     (let t = dropWhile (\<lambda>c. c = CHR ''/'') (rev s) in
      if s = '''' then ''.''
      else if t = [] then ''/''
      else rev (takeWhile (\<lambda>c. c \<noteq> CHR ''/'') t))"

section \<open>The surroundings\<close>

record file_entry =
  fl_content :: "byte list"
  fl_mode :: int

type_synonym files = "string \<Rightarrow> file_entry option"

text \<open>
  What the host does: does creating a directory or opening a file for writing work, after how
  many bytes does writing fail, which permissions does a new file get; and the outside world
  \<open>'x\<close> behind the dialer, SSH and SFTP, whose operations report an error or \<open>None\<close>.
\<close>

record 'x host_env =
  he_mkdir :: "string \<Rightarrow> bool"
  he_open :: "string \<Rightarrow> bool"
  he_write :: "string \<Rightarrow> nat option"
  he_perm :: "int \<Rightarrow> int"
  he_tmp :: string
  he_sha :: "byte list \<Rightarrow> string"
  he_dial :: "string \<Rightarrow> int \<Rightarrow> int \<Rightarrow> 'x \<Rightarrow> string option \<times> 'x"
  he_ssh :: "string \<Rightarrow> int \<Rightarrow> string \<Rightarrow> string \<Rightarrow> 'x \<Rightarrow> string option \<times> 'x"
  he_ssh_dial :: "string \<Rightarrow> int \<Rightarrow> string \<Rightarrow> string \<Rightarrow> int \<Rightarrow> 'x \<Rightarrow> string option \<times> 'x"
  he_sftp_client :: "'x \<Rightarrow> string option \<times> 'x"
  he_sftp_mkdir :: "string \<Rightarrow> 'x \<Rightarrow> 'x"
  he_sftp_create :: "string \<Rightarrow> 'x \<Rightarrow> string option \<times> 'x"
  he_sftp_write :: "string \<Rightarrow> byte list \<Rightarrow> 'x \<Rightarrow> (int \<times> string option) \<times> 'x"
  he_sftp_close :: "string \<Rightarrow> 'x \<Rightarrow> string option \<times> 'x"
  he_sftp_chmod :: "string \<Rightarrow> int \<Rightarrow> 'x \<Rightarrow> 'x"

text \<open>\<open>os.WriteFile\<close>: an existing file is truncated and keeps its permissions.\<close>

definition write_file :: "'x host_env \<Rightarrow> string \<Rightarrow> byte list \<Rightarrow> int \<Rightarrow> files \<Rightarrow> string option \<times> files" where
  "write_file e path bs mode fs =
     (if \<not> he_open e path then (Some ''open'', fs)
      else
        let m = (case fs path of Some f \<Rightarrow> fl_mode f | None \<Rightarrow> he_perm e mode) in
        (case he_write e path of
           None \<Rightarrow> (None, fs(path \<mapsto> \<lparr>fl_content = bs, fl_mode = m\<rparr>))
         | Some n \<Rightarrow> (Some ''write'', fs(path \<mapsto> \<lparr>fl_content = take n bs, fl_mode = m\<rparr>))))"

section \<open>Checking credentials\<close>

record verify_request =
  vr_host :: string
  vr_port :: int
  vr_protocol :: string
  vr_username :: string
  vr_password :: string
  vr_timeout :: int

record verify_result =
  vf_ok :: bool
  vf_message :: string

type_synonym 'w verifier = "verify_request \<Rightarrow> 'w \<Rightarrow> (string + verify_result) \<times> 'w"

definition refusal :: "string \<Rightarrow> verify_result" where
  "refusal m = \<lparr>vf_ok = False, vf_message = m\<rparr>"

definition verify_ssh :: "'x host_env \<Rightarrow> verify_request \<Rightarrow> int \<Rightarrow> 'x \<Rightarrow> verify_result \<times> 'x" where
  "verify_ssh e q timeout x =
     (if vr_host q = '''' \<or> vr_username q = '''' then (refusal ''host and username are required'', x)
      else
        let port = (if vr_port q \<le> 0 then 22 else vr_port q) in
        (case he_dial e (vr_host q) port timeout x of
           (Some m, x1) \<Rightarrow> (refusal m, x1)
         | (None, x1) \<Rightarrow>
             (case he_ssh e (vr_host q) port (vr_username q) (vr_password q) x1 of
                (Some m, x2) \<Rightarrow> (refusal m, x2)
              | (None, x2) \<Rightarrow> (\<lparr>vf_ok = True, vf_message = ''ssh password authentication succeeded''\<rparr>, x2))))"

definition verify_tcp :: "'x host_env \<Rightarrow> verify_request \<Rightarrow> int \<Rightarrow> 'x \<Rightarrow> verify_result \<times> 'x" where
  "verify_tcp e q timeout x =
     (if vr_host q = '''' then (refusal ''host is required'', x)
      else if vr_port q \<le> 0 then (refusal ''port is required for tcp protocol'', x)
      else (case he_dial e (vr_host q) (vr_port q) timeout x of
              (Some m, x1) \<Rightarrow> (refusal m, x1)
            | (None, x1) \<Rightarrow> (\<lparr>vf_ok = True, vf_message = ''tcp reachable''\<rparr>, x1)))"

definition default_verifier :: "'x host_env \<Rightarrow> (files \<times> 'x) verifier" where
  "default_verifier e q w =
     (let timeout = (if vr_timeout q \<le> 0 then 10 * 10 ^ 9 else vr_timeout q);
          (r, x) = (if vr_protocol q = '''' \<or> vr_protocol q = ''ssh'' then verify_ssh e q timeout (snd w)
            else if vr_protocol q = ''tcp'' then verify_tcp e q timeout (snd w)
            else (refusal (''unsupported protocol '' @ vr_protocol q), snd w))
      in (Inr r, (fst w, x)))"

section \<open>Uploading\<close>

record upload_request =
  ur_host :: string
  ur_port :: int
  ur_username :: string
  ur_password :: string
  ur_remote_path :: string
  ur_mode :: int
  ur_checksum :: string
  ur_content :: "byte list"
  ur_timeout :: int

text \<open>An uploader reports the bytes written and an error or nothing.\<close>

type_synonym 'w uploader = "upload_request \<Rightarrow> 'w \<Rightarrow> (int \<times> string option) \<times> 'w"

definition upload_sftp :: "'x host_env \<Rightarrow> upload_request \<Rightarrow> 'x \<Rightarrow> (int \<times> string option) \<times> 'x" where
  "upload_sftp e q x =
     (if ur_host q = '''' \<or> ur_remote_path q = '''' then ((0, Some ''host and remote_path are required''), x)
      else
        let port = (if ur_port q \<le> 0 then 22 else ur_port q);
            timeout = (if ur_timeout q \<le> 0 then 30 * 10 ^ 9 else ur_timeout q);
            path = ur_remote_path q; dir = path_dir path in
        (case he_ssh_dial e (ur_host q) port (ur_username q) (ur_password q) timeout x of
           (Some m, x1) \<Rightarrow> ((0, Some m), x1)
         | (None, x1) \<Rightarrow>
        (case he_sftp_client e x1 of
           (Some m, x2) \<Rightarrow> ((0, Some m), x2)
         | (None, x2) \<Rightarrow>
        (case he_sftp_create e path (if dir \<noteq> '''' \<and> dir \<noteq> ''.'' then he_sftp_mkdir e dir x2 else x2) of
           (Some m, x3) \<Rightarrow> ((0, Some m), x3)
         | (None, x3) \<Rightarrow>
        (case he_sftp_write e path (ur_content q) x3 of
           ((n, Some m), x4) \<Rightarrow> ((n, Some m), snd (he_sftp_close e path x4))
         | ((n, None), x4) \<Rightarrow>
        (case he_sftp_close e path x4 of
           (Some m, x5) \<Rightarrow> ((n, Some m), x5)
         | (None, x5) \<Rightarrow> ((n, None), if ur_mode q \<noteq> 0 then he_sftp_chmod e path (ur_mode q) x5 else x5)))))))"

definition staging_dir :: "'x host_env \<Rightarrow> string \<Rightarrow> string" where
  "staging_dir e root = (if root = '''' then join_path (he_tmp e) ''stateflux-uploads'' else root)"

definition staged_name :: "string \<Rightarrow> string" where
  "staged_name remote =
     (let n = path_base remote in if n = '''' \<or> n = ''.'' \<or> n = ''/'' then ''upload.bin'' else n)"

definition upload_local :: "'x host_env \<Rightarrow> string \<Rightarrow> upload_request \<Rightarrow> files \<Rightarrow> (int \<times> string option) \<times> files" where
  "upload_local e root q fs =
     (if \<not> he_mkdir e (staging_dir e root) then ((0, Some ''mkdir''), fs)
      else (case write_file e (join_path (staging_dir e root) (staged_name (ur_remote_path q))) (ur_content q)
              (if ur_mode q = 0 then 420 else ur_mode q) fs of
              (Some m, fs1) \<Rightarrow> ((0, Some m), fs1)
            | (None, fs1) \<Rightarrow> ((int (length (ur_content q)), None), fs1)))"

definition default_uploader :: "'x host_env \<Rightarrow> string \<Rightarrow> (files \<times> 'x) uploader" where
  "default_uploader e root q w =
     (if ur_checksum q \<noteq> '''' \<and> he_sha e (ur_content q) \<noteq> ur_checksum q
        then ((0, Some ''checksum mismatch''), w)
      else if ur_username q \<noteq> '''' then
        (let (r, x) = upload_sftp e q (snd w) in (r, (fst w, x)))
      else (let (r, fs) = upload_local e root q (fst w) in (r, (fs, snd w))))"


section \<open>The built-in capabilities\<close>

record verify_message =
  vm_host :: string
  vm_port :: int
  vm_protocol :: string
  vm_username :: string
  vm_password :: string
  vm_timeout_ms :: int

record upload_meta =
  um_host :: string
  um_remote_path :: string
  um_mode :: int
  um_checksum :: string
  um_port :: int
  um_username :: string
  um_password :: string

definition zero_meta :: upload_meta where
  "zero_meta = \<lparr>um_host = '''', um_remote_path = '''', um_mode = 0, um_checksum = '''', um_port = 0,
     um_username = '''', um_password = ''''\<rparr>"

text \<open>The answer to an upload: \<open>ok\<close> and the bytes written.\<close>

record upload_done =
  ud_ok :: bool
  ud_written :: int

text \<open>Encoders and decoders of the messages; \<open>Inl\<close> is their error.\<close>

record cap_codec =
  cc_enc_verify :: "verify_message \<Rightarrow> string + content"
  cc_dec_verify :: "content \<Rightarrow> string + verify_message"
  cc_enc_verdict :: "verify_result \<Rightarrow> string + content"
  cc_dec_verdict :: "content \<Rightarrow> string + verify_result"
  cc_enc_upload :: "upload_meta option \<times> byte list \<Rightarrow> string + content"
  cc_dec_upload :: "content \<Rightarrow> string + upload_meta option \<times> byte list"
  cc_enc_done :: "upload_done \<Rightarrow> string + content"
  cc_dec_done :: "content \<Rightarrow> string + upload_done"

definition duration_from_ms :: "int \<Rightarrow> int" where
  "duration_from_ms ms = (if ms \<le> 0 then 0 else ms * 10 ^ 6)"

definition cap_result :: "string + content \<Rightarrow> cap_error + cap_response" where
  "cap_result r = (case r of Inl m \<Rightarrow> Inl (CapFailed m) | Inr p \<Rightarrow> Inr \<lparr>cs_payload = p, cs_error = ''''\<rparr>)"

definition verify_capability :: "cap_codec \<Rightarrow> 'w verifier \<Rightarrow> 'w capability" where
  "verify_capability C v =
     cap_func \<lparr>cd_name = ''host.verify_password'', cd_description = ''verify host credentials (ssh/tcp)'',
         cd_labels = [], cd_async = False\<rparr>
       (Some (\<lambda>req w.
          (case cc_dec_verify C (cq_payload req) of
             Inl m \<Rightarrow> (Inl (CapFailed m), w)
           | Inr i \<Rightarrow>
               (case v \<lparr>vr_host = vm_host i, vr_port = vm_port i, vr_protocol = vm_protocol i,
                       vr_username = vm_username i, vr_password = vm_password i,
                       vr_timeout = duration_from_ms (vm_timeout_ms i)\<rparr> w of
                  (Inl m, w1) \<Rightarrow> (Inl (CapFailed m), w1)
                | (Inr r, w1) \<Rightarrow> (cap_result (cc_enc_verdict C r), w1)))))"

definition upload_of_message :: "upload_meta option \<times> byte list \<Rightarrow> upload_request" where
  "upload_of_message i =
     (let m = (case fst i of None \<Rightarrow> zero_meta | Some m \<Rightarrow> m) in
      \<lparr>ur_host = um_host m, ur_port = um_port m, ur_username = um_username m, ur_password = um_password m,
       ur_remote_path = um_remote_path m, ur_mode = um_mode m, ur_checksum = um_checksum m,
       ur_content = snd i, ur_timeout = 0\<rparr>)"

definition upload_capability :: "cap_codec \<Rightarrow> 'w uploader \<Rightarrow> 'w capability" where
  "upload_capability C u =
     cap_func \<lparr>cd_name = ''file.upload'', cd_description = ''upload a file to a target host'',
         cd_labels = [], cd_async = False\<rparr>
       (Some (\<lambda>req w.
          (case cc_dec_upload C (cq_payload req) of
             Inl m \<Rightarrow> (Inl (CapFailed m), w)
           | Inr i \<Rightarrow>
               (case u (upload_of_message i) w of
                  ((_, Some m), w1) \<Rightarrow> (Inl (CapFailed m), w1)
                | ((n, None), w1) \<Rightarrow> (cap_result (cc_enc_done C \<lparr>ud_ok = True, ud_written = n\<rparr>), w1)))))"

text \<open>\<open>RegisterCapabilities\<close>; \<open>Inl None\<close>: there is no registry.\<close>

definition register_capabilities ::
  "cap_codec \<Rightarrow> 'x host_env \<Rightarrow> (files \<times> 'x) verifier option \<Rightarrow> (files \<times> 'x) uploader option
     \<Rightarrow> (files \<times> 'x) cap_registry option \<Rightarrow> registry_error option + (files \<times> 'x) cap_registry" where
  "register_capabilities C e v u reg =
     (case reg of
        None \<Rightarrow> Inl None
      | Some r \<Rightarrow>
          (case register_cap (Some (verify_capability C (case v of Some f \<Rightarrow> f | None \<Rightarrow> default_verifier e))) r of
             Inl err \<Rightarrow> Inl (Some err)
           | Inr r1 \<Rightarrow>
               (case register_cap (Some (upload_capability C (case u of Some f \<Rightarrow> f | None \<Rightarrow> default_uploader e ''''))) r1 of
                  Inl err \<Rightarrow> Inl (Some err)
                | Inr r2 \<Rightarrow> Inr r2)))"

section \<open>The capability service\<close>

datatype cap_service_error =
    CapInvoke string cap_error | CapCodec string | NoUploadMeta | UploadBroken | UploadSend

definition invoke_capability ::
  "'w cap_registry \<Rightarrow> string \<Rightarrow> content \<Rightarrow> (string \<times> string) list \<Rightarrow> 'w
     \<Rightarrow> (cap_service_error + cap_response) \<times> 'w" where
  "invoke_capability r name payload meta w =
     (case cap_invoke r \<lparr>cq_name = name, cq_payload = payload, cq_metadata = meta\<rparr> w of
        (Inl err, w1) \<Rightarrow> (Inl (CapInvoke name err), w1)
      | (Inr resp, w1) \<Rightarrow> (Inr resp, w1))"

definition list_capabilities :: "'w cap_registry \<Rightarrow> cap_descriptor list option" where
  "list_capabilities r = cap_descriptors r"

definition verify_password ::
  "cap_codec \<Rightarrow> 'w cap_registry \<Rightarrow> verify_message \<Rightarrow> 'w \<Rightarrow> (cap_service_error + verify_result) \<times> 'w" where
  "verify_password C r q w =
     (case cc_enc_verify C q of
        Inl m \<Rightarrow> (Inl (CapCodec m), w)
      | Inr p \<Rightarrow>
          (case invoke_capability r ''host.verify_password'' p [] w of
             (Inl err, w1) \<Rightarrow> (Inl err, w1)
           | (Inr resp, w1) \<Rightarrow>
               (case cc_dec_verdict C (cs_payload resp) of
                  Inl m \<Rightarrow> (Inl (CapCodec m), w1)
                | Inr v \<Rightarrow> (Inr v, w1))))"

text \<open>A message of the upload stream.\<close>

record upload_chunk =
  uc_meta :: "upload_meta option"
  uc_content :: "byte list"

fun receive_chunks :: "upload_chunk list \<Rightarrow> upload_meta option \<Rightarrow> byte list \<Rightarrow> upload_meta option \<times> byte list" where
  "receive_chunks [] meta content = (meta, content)"
| "receive_chunks (c # cs) meta content =
     receive_chunks cs (if meta = None then uc_meta c else meta) (content @ uc_content c)"

text \<open>\<open>eof\<close>: the stream ends, else it breaks; \<open>sent\<close>: the answer is sent.\<close>

definition upload_file ::
  "cap_codec \<Rightarrow> 'w cap_registry \<Rightarrow> bool \<Rightarrow> bool \<Rightarrow> upload_chunk list \<Rightarrow> 'w
     \<Rightarrow> (cap_service_error + upload_done) \<times> 'w" where
  "upload_file C r eof sent chunks w =
     (if \<not> eof then (Inl UploadBroken, w)
      else case receive_chunks chunks None [] of
          (None, content) \<Rightarrow> (Inl NoUploadMeta, w)
        | (Some meta, content) \<Rightarrow>
            (case cc_enc_upload C (Some meta, content) of
               Inl m \<Rightarrow> (Inl (CapCodec m), w)
             | Inr p \<Rightarrow>
                 (case invoke_capability r ''file.upload'' p [] w of
                    (Inl err, w1) \<Rightarrow> (Inl err, w1)
                  | (Inr resp, w1) \<Rightarrow>
                      (case cc_dec_done C (cs_payload resp) of
                         Inl m \<Rightarrow> (Inl (CapCodec m), w1)
                       | Inr d \<Rightarrow> if sent then (Inr d, w1) else (Inl UploadSend, w1)))))"

section \<open>Paths of staged files\<close>

lemma receive_chunks_spec:
  "receive_chunks cs meta content =
     (case meta of Some m \<Rightarrow> Some m
      | None \<Rightarrow> (case List.map_filter uc_meta cs of [] \<Rightarrow> None | m # _ \<Rightarrow> Some m),
      content @ concat (map uc_content cs))"
  by (induction cs arbitrary: meta content) (auto simp: List.map_filter_simps split: option.splits)

lemma clean_parts_append:
  "clean_parts rooted acc (ps @ qs) = clean_parts rooted (rev (clean_parts rooted acc ps)) qs"
  by (induction rooted acc ps rule: clean_parts.induct) (auto split: list.splits)

lemma path_parts_join:
  assumes "a \<noteq> ''''" and "CHR ''/'' \<notin> set n" and "n \<notin> {'''', ''.'', ''..''}"
  shows "join_path a n = render_path (path_rooted a) (path_parts a @ [n])"
proof -
  have r: "path_rooted (a @ CHR ''/'' # n) = path_rooted a"
    using assms(1) by (cases a) (simp_all add: path_rooted_def)
  have "path_parts (a @ CHR ''/'' # n) = path_parts a @ [n]"
    using assms(2,3) by (simp add: path_parts_def r split_on_append split_on_single clean_parts_append)
  then show ?thesis using assms(1) by (simp add: join_path_def clean_path_def r)
qed

lemma path_base_no_slash:
  assumes "path_base s \<noteq> ''/''"
  shows "CHR ''/'' \<notin> set (path_base s)"
  using assms by (auto simp: path_base_def Let_def dest: set_takeWhileD split: if_splits)

lemma staged_name_ok: "CHR ''/'' \<notin> set (staged_name s) \<and> staged_name s \<notin> {'''', ''.''}"
  using path_base_no_slash [of s] by (auto simp: staged_name_def Let_def)

lemma registered_upload:
  assumes "register_capabilities C e v u (Some empty_caps) = Inr r"
  shows "cap_get r ''file.upload'' =
    Some (upload_capability C (case u of Some f \<Rightarrow> f | None \<Rightarrow> default_uploader e ''''))"
  using assms
  by (auto simp: register_capabilities_def register_cap_def Let_def cap_get_def upload_capability_def cap_func_def
      split: if_splits sum.splits)


lemma join_slash_snoc_ne: "n \<noteq> '''' \<Longrightarrow> join_slash (ps @ [n]) \<noteq> ''''"
proof (induction ps)
  case (Cons p ps)
  then show ?case by (cases "ps @ [n]") auto
qed simp

lemma staging_dir_ne: "staging_dir e root \<noteq> ''''"
proof -
  have "join_path t ''stateflux-uploads'' \<noteq> ''''" for t
  proof (cases "t = ''''")
    case True
    show ?thesis unfolding True by code_simp
  next
    case False
    then show ?thesis
      using join_slash_snoc_ne [of "''stateflux-uploads''" "path_parts t"]
      by (subst path_parts_join) (simp_all add: render_path_def)
  qed
  then show ?thesis by (simp add: staging_dir_def)
qed

section \<open>Staged uploads\<close>

lemma upload_stages:
  assumes "cap_get r ''file.upload'' = Some (upload_capability C (default_uploader e root))"
    and "List.map_filter uc_meta chunks = meta # metas" and "um_username meta = ''''"
    and "content = concat (map uc_content chunks)"
    and "cc_enc_upload C (Some meta, content) = Inr p" "cc_dec_upload C p = Inr (Some meta, content)"
    and "cc_enc_done C \<lparr>ud_ok = True, ud_written = int (length content)\<rparr> = Inr q"
    and "cc_dec_done C q = Inr \<lparr>ud_ok = True, ud_written = int (length content)\<rparr>"
  shows "upload_file C r True True chunks (fs, x) =
    (if um_checksum meta \<noteq> '''' \<and> he_sha e content \<noteq> um_checksum meta
       then (Inl (CapInvoke ''file.upload'' (CapFailed ''checksum mismatch'')), (fs, x))
     else (case upload_local e root (upload_of_message (Some meta, content)) fs of
         ((n, Some m), fs1) \<Rightarrow> (Inl (CapInvoke ''file.upload'' (CapFailed m)), (fs1, x))
       | ((n, None), fs1) \<Rightarrow> (Inr \<lparr>ud_ok = True, ud_written = int (length content)\<rparr>, (fs1, x))))"
proof -
  have got: "receive_chunks chunks None [] = (Some meta, content)"
    using assms(2,4) by (simp add: receive_chunks_spec)
  have f: "ur_checksum (upload_of_message (Some meta, content)) = um_checksum meta"
    "ur_content (upload_of_message (Some meta, content)) = content"
    "ur_username (upload_of_message (Some meta, content)) = ''''"
    using assms(3) by (simp_all add: upload_of_message_def)
  have n: "n = int (length content)" if "upload_local e root (upload_of_message (Some meta, content)) fs = ((n, None), fs1)" for n fs1
    using that by (auto simp: upload_local_def f split: if_splits prod.splits option.splits)
  show ?thesis
    using assms(5-8) n
    by (auto simp: upload_file_def got invoke_capability_def cap_invoke_def assms(1) upload_capability_def cap_func_def
        default_uploader_def f cap_result_def split: prod.splits option.splits)
qed

text \<open>
  A streamed upload without credentials is staged exactly: however the client cuts the
  file into chunks, wherever the first metadata stands, a content whose checksum does not match
  changes nothing; otherwise, when the host can create the file, it holds exactly the
  concatenated chunks and the answer counts their bytes; no other file changes in any case, and
  the remote host is never contacted. The file lies directly in the staging directory: its path
  is that directory with the last element of the remote path, unless that element is a parent
  reference.
\<close>

theorem staged_upload_exact:
  assumes "register_capabilities C e v u (Some empty_caps) = Inr r"
    and "u = Some (default_uploader e root) \<or> u = None \<and> root = ''''"
    and "List.map_filter uc_meta chunks = meta # metas" and "um_username meta = ''''"
    and "content = concat (map uc_content chunks)"
    and "cc_enc_upload C (Some meta, content) = Inr p" "cc_dec_upload C p = Inr (Some meta, content)"
    and "cc_enc_done C \<lparr>ud_ok = True, ud_written = int (length content)\<rparr> = Inr q"
    and "cc_dec_done C q = Inr \<lparr>ud_ok = True, ud_written = int (length content)\<rparr>"
    and "path = join_path (staging_dir e root) (staged_name (um_remote_path meta))"
    and "upload_file C r True True chunks (fs, x) = (answer, (fs', x'))"
  shows "(um_checksum meta \<noteq> '''' \<and> he_sha e content \<noteq> um_checksum meta \<longrightarrow>
        answer = Inl (CapInvoke ''file.upload'' (CapFailed ''checksum mismatch'')) \<and> fs' = fs)
    \<and> (um_checksum meta = '''' \<or> he_sha e content = um_checksum meta \<longrightarrow>
        he_mkdir e (staging_dir e root) \<longrightarrow> he_open e path \<longrightarrow> he_write e path = None \<longrightarrow>
        answer = Inr \<lparr>ud_ok = True, ud_written = int (length content)\<rparr>
        \<and> map_option fl_content (fs' path) = Some content)
    \<and> (\<forall>f. f \<noteq> path \<longrightarrow> fs' f = fs f) \<and> x' = x
    \<and> (staged_name (um_remote_path meta) \<noteq> ''..'' \<longrightarrow>
        path = render_path (path_rooted (staging_dir e root))
                 (path_parts (staging_dir e root) @ [staged_name (um_remote_path meta)])
        \<and> CHR ''/'' \<notin> set (staged_name (um_remote_path meta)))"
proof -
  have cap: "cap_get r ''file.upload'' = Some (upload_capability C (default_uploader e root))"
    using registered_upload [OF assms(1)] assms(2) by auto
  have f: "ur_remote_path (upload_of_message (Some meta, content)) = um_remote_path meta"
    "ur_content (upload_of_message (Some meta, content)) = content"
    by (simp_all add: upload_of_message_def)
  note run = upload_stages [OF cap assms(3-9), of fs x, unfolded assms(11)]
  have bad: "answer = Inl (CapInvoke ''file.upload'' (CapFailed ''checksum mismatch'')) \<and> fs' = fs"
    if "um_checksum meta \<noteq> ''''" "he_sha e content \<noteq> um_checksum meta"
    using run that by simp
  have good: "answer = Inr \<lparr>ud_ok = True, ud_written = int (length content)\<rparr>
        \<and> map_option fl_content (fs' path) = Some content"
    if "um_checksum meta = '''' \<or> he_sha e content = um_checksum meta"
      "he_mkdir e (staging_dir e root)" "he_open e path" "he_write e path = None"
    using run that by (auto simp: upload_local_def write_file_def f assms(10) [symmetric] Let_def)
  have frame: "(\<forall>f. f \<noteq> path \<longrightarrow> fs' f = fs f) \<and> x' = x"
    using run by (auto simp: upload_local_def write_file_def f assms(10) [symmetric] Let_def
        split: if_splits option.splits)
  show ?thesis
    using bad good frame staged_name_ok [of "um_remote_path meta"]
      path_parts_join [OF staging_dir_ne [of e root], of "staged_name (um_remote_path meta)"]
    by (simp add: assms(10))
qed


definition quiet_host :: "unit host_env" where
  "quiet_host = \<lparr>he_mkdir = (\<lambda>_. True), he_open = (\<lambda>_. True), he_write = (\<lambda>_. None), he_perm = id, he_tmp = ''/tmp'',
     he_sha = (\<lambda>_. ''sum''), he_dial = (\<lambda>_ _ _ x. (None, x)), he_ssh = (\<lambda>_ _ _ _ x. (None, x)),
     he_ssh_dial = (\<lambda>_ _ _ _ _ x. (None, x)), he_sftp_client = (\<lambda>x. (None, x)), he_sftp_mkdir = (\<lambda>_ x. x),
     he_sftp_create = (\<lambda>_ x. (None, x)), he_sftp_write = (\<lambda>_ bs x. ((int (length bs), None), x)),
     he_sftp_close = (\<lambda>_ x. (None, x)), he_sftp_chmod = (\<lambda>_ _ x. x)\<rparr>"

definition escaping_meta :: upload_meta where
  "escaping_meta = zero_meta\<lparr>um_remote_path := ''../../etc/passwd'', um_checksum := ''sum''\<rparr>"

text \<open>A codec that is right for one upload of three bytes.\<close>

definition three_byte_codec :: cap_codec where
  "three_byte_codec = \<lparr>cc_enc_verify = (\<lambda>_. Inl ''''), cc_dec_verify = (\<lambda>_. Inl ''''), cc_enc_verdict = (\<lambda>_. Inl ''''),
     cc_dec_verdict = (\<lambda>_. Inl ''''), cc_enc_upload = (\<lambda>_. Inr NoContent),
     cc_dec_upload = (\<lambda>_. Inr (Some escaping_meta, [1, 2, 3])), cc_enc_done = (\<lambda>_. Inr NoContent),
     cc_dec_done = (\<lambda>_. Inr \<lparr>ud_ok = True, ud_written = 3\<rparr>)\<rparr>"

definition two_chunks :: "upload_chunk list" where
  "two_chunks = [\<lparr>uc_meta = None, uc_content = [1]\<rparr>, \<lparr>uc_meta = Some escaping_meta, uc_content = [2, 3]\<rparr>]"

theorem staged_upload_exact_witness:
  "\<exists>r answer fs'. register_capabilities three_byte_codec quiet_host None (Some (default_uploader quiet_host ''/stage''))
        (Some empty_caps) = Inr r
    \<and> upload_file three_byte_codec r True True two_chunks (Map.empty, ()) = (answer, (fs', ()))
    \<and> answer = Inr \<lparr>ud_ok = True, ud_written = 3\<rparr>
    \<and> map_option fl_content (fs' ''/stage/passwd'') = Some [1, 2, 3] \<and> fs' ''/etc/passwd'' = None"
proof -
  let ?C = three_byte_codec and ?e = quiet_host
  obtain r where r: "register_capabilities ?C ?e None (Some (default_uploader ?e ''/stage'')) (Some empty_caps) = Inr r"
    by (simp add: register_capabilities_def register_cap_def verify_capability_def upload_capability_def cap_func_def
        empty_caps_def Let_def)
  obtain answer fs' where u: "upload_file ?C r True True two_chunks (Map.empty, ()) = (answer, (fs', ()))"
    by (metis old.unit.exhaust prod.exhaust)
  have m: "List.map_filter uc_meta two_chunks = escaping_meta # []" "concat (map uc_content two_chunks) = [1, 2, 3]"
    "um_username escaping_meta = ''''" "um_checksum escaping_meta = ''sum''"
    by (simp_all add: two_chunks_def List.map_filter_simps escaping_meta_def zero_meta_def)
  have path: "join_path (staging_dir ?e ''/stage'') (staged_name (um_remote_path escaping_meta)) = ''/stage/passwd''"
    by code_simp
  have c: "cc_enc_upload ?C (Some escaping_meta, [1, 2, 3]) = Inr NoContent"
    "cc_dec_upload ?C NoContent = Inr (Some escaping_meta, [1, 2, 3])"
    "cc_enc_done ?C \<lparr>ud_ok = True, ud_written = int (length [1, 2, 3 :: byte])\<rparr> = Inr NoContent"
    "cc_dec_done ?C NoContent = Inr \<lparr>ud_ok = True, ud_written = int (length [1, 2, 3 :: byte])\<rparr>"
    by (simp_all add: three_byte_codec_def)
  have h: "he_sha ?e [1, 2, 3] = ''sum''" "he_mkdir ?e d" "he_open ?e d" "he_write ?e d = None" for d
    by (simp_all add: quiet_host_def)
  note t = staged_upload_exact [OF r disjI1 [OF refl] m(1,3) m(2) [symmetric] c refl u, unfolded path]
  have "answer = Inr \<lparr>ud_ok = True, ud_written = 3\<rparr> \<and> map_option fl_content (fs' ''/stage/passwd'') = Some [1, 2, 3]"
    using t h m(4) by simp
  moreover have "fs' ''/etc/passwd'' = None" using t by simp
  ultimately show ?thesis using r u by blast
qed

end
