(* ===== verification/RedisView.thy ===== *)
theory RedisView
  imports CacheView
begin

text \<open>
  The Redis implementation of the asynchronous view (\<open>internal/domain/cacheview/redis.go\<close>).
  Redis is an argument: its commands are functions on a state \<open>'r\<close> at a time, and
  \<open>redis_laws\<close> states what they are documented to do when they answer without an error, by way
  of an observer that says what a key holds at a time.
\<close>

section \<open>Stored integers\<close>

definition parse_i64 :: "string \<Rightarrow> int \<Rightarrow> int" where
  "parse_i64 s fallback =
     (if s = '''' then fallback else case parse_int64 s of Some n \<Rightarrow> n | None \<Rightarrow> fallback)"

lemma parse_i64_show [simp]: "in_int64 n \<Longrightarrow> parse_i64 (show_int n) d = n"
  by (simp add: parse_i64_def)

section \<open>Redis\<close>

datatype redis_value = RHash "(string \<times> string) list" | RString string

text \<open>
  The commands as the view issues them: \<open>ro_hset\<close> is the pipeline of \<open>HSET\<close> and \<open>EXPIRE\<close>,
  \<open>ro_incr\<close> the one of \<open>INCR\<close> and \<open>EXPIRE\<close>; \<open>ro_scan\<close> gives the keys an iteration delivers and the
  error it may end with.
\<close>

record 'r redis_ops =
  ro_hset :: "gotime \<Rightarrow> string \<Rightarrow> (string \<times> string) list \<Rightarrow> int \<Rightarrow> 'r \<Rightarrow> string option \<times> 'r"
  ro_hgetall :: "gotime \<Rightarrow> string \<Rightarrow> 'r \<Rightarrow> (string + (string \<times> string) list) \<times> 'r"
  ro_del :: "gotime \<Rightarrow> string list \<Rightarrow> 'r \<Rightarrow> (string + int) \<times> 'r"
  ro_setnx :: "gotime \<Rightarrow> string \<Rightarrow> string \<Rightarrow> int \<Rightarrow> 'r \<Rightarrow> (string + bool) \<times> 'r"
  ro_incr :: "gotime \<Rightarrow> string \<Rightarrow> int \<Rightarrow> 'r \<Rightarrow> (string + int) \<times> 'r"
  ro_decr :: "gotime \<Rightarrow> string \<Rightarrow> 'r \<Rightarrow> (string + int) \<times> 'r"
  ro_set :: "gotime \<Rightarrow> string \<Rightarrow> string \<Rightarrow> int \<Rightarrow> 'r \<Rightarrow> string option \<times> 'r"
  ro_get :: "gotime \<Rightarrow> string \<Rightarrow> 'r \<Rightarrow> (string + string option) \<times> 'r"
  ro_scan :: "gotime \<Rightarrow> string \<Rightarrow> 'r \<Rightarrow> string list \<times> string option"

text \<open>What the commands are documented to do; expiry is in whole seconds.\<close>

type_synonym 'r redis_observer = "gotime \<Rightarrow> string \<Rightarrow> 'r \<Rightarrow> redis_value option"

definition whole_seconds :: "int \<Rightarrow> bool" where
  "whole_seconds ttl \<longleftrightarrow> 0 < ttl \<and> 10 ^ 9 dvd ttl"

definition rd_same :: "'r redis_observer \<Rightarrow> gotime \<Rightarrow> (string \<Rightarrow> bool) \<Rightarrow> 'r \<Rightarrow> 'r \<Rightarrow> bool" where
  "rd_same see now P r r' \<longleftrightarrow> (\<forall>t k. now \<le> t \<longrightarrow> P k \<longrightarrow> see t k r' = see t k r)"

definition rd_written :: "'r redis_observer \<Rightarrow> gotime \<Rightarrow> string \<Rightarrow> redis_value \<Rightarrow> int \<Rightarrow> 'r \<Rightarrow> 'r \<Rightarrow> bool" where
  "rd_written see now key x ttl r r' \<longleftrightarrow>
     (\<forall>t. now \<le> t \<longrightarrow> see t key r' = (if t < now + ttl then Some x else None)) \<and> rd_same see now (\<lambda>k. k \<noteq> key) r r'"

definition rd_number :: "'r redis_observer \<Rightarrow> gotime \<Rightarrow> string \<Rightarrow> 'r \<Rightarrow> int option" where
  "rd_number see now key r =
     (case see now key r of None \<Rightarrow> Some 0 | Some (RString s) \<Rightarrow> parse_int64 s | Some (RHash h) \<Rightarrow> None)"

definition merge_fields :: "(string \<times> string) list \<Rightarrow> (string \<times> string) list \<Rightarrow> (string \<times> string) list" where
  "merge_fields fs h = fold (\<lambda>(k, v). AList.update k v) fs h"

definition hash_laws :: "'r redis_observer \<Rightarrow> 'r redis_ops \<Rightarrow> bool" where
  "hash_laws see R \<longleftrightarrow>
     (\<forall>now key fs ttl r r'. ro_hset R now key fs ttl r = (None, r') \<longrightarrow> whole_seconds ttl \<longrightarrow> fs \<noteq> [] \<longrightarrow>
        (\<exists>old. see now key r = (if old = [] then None else Some (RHash old)) \<and>
           rd_written see now key (RHash (merge_fields fs old)) ttl r r')) \<and>
     (\<forall>now key r h r'. ro_hgetall R now key r = (Inr h, r') \<longrightarrow>
        see now key r = (if h = [] then None else Some (RHash h)) \<and> rd_same see now (\<lambda>_. True) r r')"

definition string_laws :: "'r redis_observer \<Rightarrow> 'r redis_ops \<Rightarrow> bool" where
  "string_laws see R \<longleftrightarrow>
     (\<forall>now key x ttl r r'. ro_set R now key x ttl r = (None, r') \<longrightarrow> whole_seconds ttl \<longrightarrow>
        rd_written see now key (RString x) ttl r r') \<and>
     (\<forall>now key x ttl r b r'. ro_setnx R now key x ttl r = (Inr b, r') \<longrightarrow> whole_seconds ttl \<longrightarrow>
        (if b then see now key r = None \<and> rd_written see now key (RString x) ttl r r'
         else see now key r \<noteq> None \<and> rd_same see now (\<lambda>_. True) r r')) \<and>
     (\<forall>now key r x r'. ro_get R now key r = (Inr x, r') \<longrightarrow>
        see now key r = map_option RString x \<and> rd_same see now (\<lambda>_. True) r r')"

definition number_laws :: "'r redis_observer \<Rightarrow> 'r redis_ops \<Rightarrow> bool" where
  "number_laws see R \<longleftrightarrow>
     (\<forall>now key ttl r n r'. ro_incr R now key ttl r = (Inr n, r') \<longrightarrow> whole_seconds ttl \<longrightarrow>
        rd_number see now key r = Some (n - 1) \<and> in_int64 n \<and> rd_written see now key (RString (show_int n)) ttl r r') \<and>
     (\<forall>now key r n r'. ro_decr R now key r = (Inr n, r') \<longrightarrow>
        rd_number see now key r = Some (n + 1) \<and> in_int64 n \<and> rd_same see now (\<lambda>k. k \<noteq> key) r r' \<and>
        (\<forall>t. now \<le> t \<longrightarrow> see t key r' =
           (if see now key r \<noteq> None \<and> see t key r = None then None else Some (RString (show_int n)))))"

definition del_laws :: "'r redis_observer \<Rightarrow> 'r redis_ops \<Rightarrow> bool" where
  "del_laws see R \<longleftrightarrow>
     (\<forall>now ks r n r'. ro_del R now ks r = (Inr n, r') \<longrightarrow>
        n = int (card {k \<in> set ks. see now k r \<noteq> None}) \<and>
        (\<forall>t k. now \<le> t \<longrightarrow> see t k r' = (if k \<in> set ks then None else see t k r)))"

definition redis_laws :: "'r redis_observer \<Rightarrow> 'r redis_ops \<Rightarrow> bool" where
  "redis_laws see R \<longleftrightarrow> hash_laws see R \<and> string_laws see R \<and> number_laws see R \<and> del_laws see R"

section \<open>The view\<close>

definition task_key :: "view_options \<Rightarrow> int \<Rightarrow> string" where
  "task_key v i = vo_prefix v @ ''{task}:'' @ show_int i"

definition view_dedupe_key :: "view_options \<Rightarrow> string \<Rightarrow> string" where
  "view_dedupe_key v k = vo_prefix v @ ''{dedupe}:'' @ k"

definition inflight_key :: "view_options \<Rightarrow> string \<Rightarrow> string" where
  "inflight_key v n = vo_prefix v @ ''{inflight}:'' @ n"

definition route_key :: "view_options \<Rightarrow> string \<Rightarrow> string" where
  "route_key v q = vo_prefix v @ ''{route}:'' @ q"

definition state_string :: "task_view_state \<Rightarrow> string" where
  "state_string s =
     (case s of StateDispatched \<Rightarrow> ''dispatched'' | StateProcessing \<Rightarrow> ''processing''
      | StateSucceeded \<Rightarrow> ''succeeded'' | StateFailed \<Rightarrow> ''failed'')"

definition task_fields :: "task_state \<Rightarrow> (string \<times> string) list" where
  "task_fields st =
     [(''task_id'', show_int (ts_task st)), (''attempt'', show_int (ts_attempt st)),
      (''state'', state_string (ts_state st)), (''node_id'', ts_node st), (''queue'', ts_queue st),
      (''error'', ts_error st), (''updated_at'', show_int (unix_milli (ts_updated st)))]"

text \<open>A state as it is read: the state is any string, the time is in whole milliseconds.\<close>

record read_state =
  rs_task :: int
  rs_attempt :: int
  rs_state :: string
  rs_node :: string
  rs_queue :: string
  rs_error :: string
  rs_updated :: gotime

definition field_of :: "(string \<times> string) list \<Rightarrow> string \<Rightarrow> string" where
  "field_of h f = (case map_of h f of None \<Rightarrow> '''' | Some x \<Rightarrow> x)"

definition read_hash :: "int \<Rightarrow> (string \<times> string) list \<Rightarrow> read_state" where
  "read_hash i h =
     \<lparr>rs_task = parse_i64 (field_of h ''task_id'') i, rs_attempt = parse_i64 (field_of h ''attempt'') 0,
      rs_state = field_of h ''state'', rs_node = field_of h ''node_id'', rs_queue = field_of h ''queue'',
      rs_error = field_of h ''error'',
      rs_updated = (let ms = parse_i64 (field_of h ''updated_at'') 0 in if ms > 0 then time_of_milli ms else 0)\<rparr>"

definition redis_set_task :: "'r redis_ops \<Rightarrow> view_options \<Rightarrow> gotime \<Rightarrow> task_state \<Rightarrow> 'r \<Rightarrow> string option \<times> 'r" where
  "redis_set_task R v now st r =
     (let st1 = (if is_zero_time (ts_updated st) then st\<lparr>ts_updated := now\<rparr> else st)
      in ro_hset R now (task_key v (ts_task st1)) (task_fields st1) (vo_task_ttl v) r)"

definition redis_get_task ::
  "'r redis_ops \<Rightarrow> view_options \<Rightarrow> gotime \<Rightarrow> int \<Rightarrow> 'r \<Rightarrow> (string + read_state option) \<times> 'r" where
  "redis_get_task R v now i r =
     (case ro_hgetall R now (task_key v i) r of
        (Inl e, r1) \<Rightarrow> (Inl e, r1)
      | (Inr h, r1) \<Rightarrow> (Inr (if h = [] then None else Some (read_hash i h)), r1))"

definition redis_delete_task :: "'r redis_ops \<Rightarrow> view_options \<Rightarrow> gotime \<Rightarrow> int \<Rightarrow> 'r \<Rightarrow> (string + int) \<times> 'r" where
  "redis_delete_task R v now i r = ro_del R now [task_key v i] r"

definition redis_claim_dedupe :: "'r redis_ops \<Rightarrow> view_options \<Rightarrow> gotime \<Rightarrow> string \<Rightarrow> 'r \<Rightarrow> (string + bool) \<times> 'r" where
  "redis_claim_dedupe R v now k r = ro_setnx R now (view_dedupe_key v k) (show_int (unix_milli now)) (vo_dedupe_ttl v) r"

definition redis_release_dedupe :: "'r redis_ops \<Rightarrow> view_options \<Rightarrow> gotime \<Rightarrow> string \<Rightarrow> 'r \<Rightarrow> (string + int) \<times> 'r" where
  "redis_release_dedupe R v now k r = ro_del R now [view_dedupe_key v k] r"

definition redis_incr_inflight :: "'r redis_ops \<Rightarrow> view_options \<Rightarrow> gotime \<Rightarrow> string \<Rightarrow> 'r \<Rightarrow> (string + int) \<times> 'r" where
  "redis_incr_inflight R v now n r = ro_incr R now (inflight_key v n) (vo_task_ttl v) r"

text \<open>
  \<open>DecrInflight\<close> is two commands: the second clamps a negative counter, and its error is dropped.
\<close>

definition redis_clamp :: "'r redis_ops \<Rightarrow> view_options \<Rightarrow> gotime \<Rightarrow> string \<Rightarrow> int \<Rightarrow> 'r \<Rightarrow> int \<times> 'r" where
  "redis_clamp R v now n c r =
     (if c < 0 then (0, snd (ro_set R now (inflight_key v n) (show_int 0) (vo_task_ttl v) r)) else (c, r))"

definition redis_decr_inflight :: "'r redis_ops \<Rightarrow> view_options \<Rightarrow> gotime \<Rightarrow> string \<Rightarrow> 'r \<Rightarrow> (string + int) \<times> 'r" where
  "redis_decr_inflight R v now n r =
     (case ro_decr R now (inflight_key v n) r of
        (Inl e, r1) \<Rightarrow> (Inl e, r1)
      | (Inr c, r1) \<Rightarrow> map_prod Inr id (redis_clamp R v now n c r1))"

definition redis_inflight :: "'r redis_ops \<Rightarrow> view_options \<Rightarrow> gotime \<Rightarrow> string \<Rightarrow> 'r \<Rightarrow> (string + int) \<times> 'r" where
  "redis_inflight R v now n r =
     (case ro_get R now (inflight_key v n) r of
        (Inl e, r1) \<Rightarrow> (Inl e, r1)
      | (Inr None, r1) \<Rightarrow> (Inr 0, r1)
      | (Inr (Some s), r1) \<Rightarrow> (case parse_int64 s of None \<Rightarrow> (Inl ''not a number'', r1) | Some c \<Rightarrow> (Inr c, r1)))"

definition redis_set_route :: "'r redis_ops \<Rightarrow> view_options \<Rightarrow> gotime \<Rightarrow> string \<Rightarrow> string \<Rightarrow> 'r \<Rightarrow> string option \<times> 'r" where
  "redis_set_route R v now q n r = ro_set R now (route_key v q) n (vo_route_ttl v) r"

definition redis_get_route ::
  "'r redis_ops \<Rightarrow> view_options \<Rightarrow> gotime \<Rightarrow> string \<Rightarrow> 'r \<Rightarrow> (string + string option) \<times> 'r" where
  "redis_get_route R v now q r = ro_get R now (route_key v q) r"

text \<open>\<open>QueueRoutes\<close>: keys that cannot be read are left out.\<close>

fun read_routes :: "'r redis_ops \<Rightarrow> gotime \<Rightarrow> nat \<Rightarrow> string list \<Rightarrow> 'r \<Rightarrow> (string \<times> string) list \<times> 'r" where
  "read_routes R now n [] r = ([], r)"
| "read_routes R now n (k # ks) r =
     (case ro_get R now k r of
        (Inr (Some x), r1) \<Rightarrow> (let (out, r2) = read_routes R now n ks r1 in ((drop n k, x) # out, r2))
      | (_, r1) \<Rightarrow> read_routes R now n ks r1)"

definition redis_queue_routes ::
  "'r redis_ops \<Rightarrow> view_options \<Rightarrow> gotime \<Rightarrow> 'r \<Rightarrow> (string + (string \<times> string) list) \<times> 'r" where
  "redis_queue_routes R v now r =
     (let (keys, err) = ro_scan R now (vo_prefix v @ ''{route}:*'') r;
          (out, r1) = read_routes R now (length (vo_prefix v @ ''{route}:'')) keys r
      in (case err of Some e \<Rightarrow> Inl e | None \<Rightarrow> Inr out, r1))"

text \<open>\<open>Purge\<close> deletes in batches of 512 keys; what it had deleted is returned with an error.\<close>

definition purge_flush :: "'r redis_ops \<Rightarrow> gotime \<Rightarrow> string list \<Rightarrow> int \<Rightarrow> 'r \<Rightarrow> (int \<times> string option) \<times> 'r" where
  "purge_flush R now batch n r =
     (if batch = [] then ((n, None), r)
      else (case ro_del R now batch r of
              (Inl e, r1) \<Rightarrow> ((n, Some e), r1)
            | (Inr m, r1) \<Rightarrow> ((n + m, None), r1)))"

fun purge_loop ::
  "'r redis_ops \<Rightarrow> gotime \<Rightarrow> string option \<Rightarrow> string list \<Rightarrow> string list \<Rightarrow> int \<Rightarrow> 'r \<Rightarrow> (int \<times> string option) \<times> 'r" where
  "purge_loop R now err batch [] n r =
     (case err of Some e \<Rightarrow> ((n, Some e), r) | None \<Rightarrow> purge_flush R now batch n r)"
| "purge_loop R now err batch (k # ks) n r =
     (if 512 \<le> length (batch @ [k]) then
        (case purge_flush R now (batch @ [k]) n r of
           ((m, Some e), r1) \<Rightarrow> ((m, Some e), r1)
         | ((m, None), r1) \<Rightarrow> purge_loop R now err [] ks m r1)
      else purge_loop R now err (batch @ [k]) ks n r)"

definition redis_purge :: "'r redis_ops \<Rightarrow> view_options \<Rightarrow> gotime \<Rightarrow> string \<Rightarrow> 'r \<Rightarrow> (int \<times> string option) \<times> 'r" where
  "redis_purge R v now p r =
     (let (keys, err) = ro_scan R now ((if p = '''' then vo_prefix v else p) @ ''*'') r
      in purge_loop R now err [] keys 0 r)"


section \<open>Histories of operations\<close>

datatype view_op =
    OpSetTask task_state | OpGetTask int | OpDeleteTask int | OpClaim string | OpRelease string
  | OpIncr string | OpDecr string | OpInflight string | OpSetRoute string string | OpGetRoute string

datatype view_answer =
    Ok | TaskAnswer "read_state option" | Claimed bool | Count int | RouteAnswer "string option"

text \<open>A task state as it reads back: its time in milliseconds, and only after 1970.\<close>

definition as_read :: "task_state \<Rightarrow> read_state" where
  "as_read st =
     \<lparr>rs_task = ts_task st, rs_attempt = ts_attempt st, rs_state = state_string (ts_state st),
      rs_node = ts_node st, rs_queue = ts_queue st, rs_error = ts_error st,
      rs_updated = (let ms = unix_milli (ts_updated st) in if ms > 0 then time_of_milli ms else 0)\<rparr>"

fun mem_step :: "gotime \<Rightarrow> view_op \<Rightarrow> mem_view \<Rightarrow> view_answer \<times> mem_view" where
  "mem_step now (OpSetTask st) m = (Ok, set_task_state now st m)"
| "mem_step now (OpGetTask i) m = (TaskAnswer (map_option as_read (get_task_state i m)), m)"
| "mem_step now (OpDeleteTask i) m = (Ok, delete_task_state i m)"
| "mem_step now (OpClaim k) m = (let (b, m1) = claim_dedupe now k m in (Claimed b, m1))"
| "mem_step now (OpRelease k) m = (Ok, release_dedupe k m)"
| "mem_step now (OpIncr n) m = (let (c, m1) = incr_inflight n m in (Count c, m1))"
| "mem_step now (OpDecr n) m = (let (c, m1) = decr_inflight n m in (Count c, m1))"
| "mem_step now (OpInflight n) m = (Count (inflight n m), m)"
| "mem_step now (OpSetRoute q n) m = (Ok, set_queue_route q n m)"
| "mem_step now (OpGetRoute q) m = (RouteAnswer (get_queue_route q m), m)"

definition answered :: "('a \<Rightarrow> view_answer) \<Rightarrow> (string + 'a) \<times> 'r \<Rightarrow> (string + view_answer) \<times> 'r" where
  "answered f = map_prod (map_sum id f) id"

definition acknowledged :: "string option \<times> 'r \<Rightarrow> (string + view_answer) \<times> 'r" where
  "acknowledged = map_prod (\<lambda>e. case e of None \<Rightarrow> Inr Ok | Some m \<Rightarrow> Inl m) id"

fun redis_step :: "'r redis_ops \<Rightarrow> view_options \<Rightarrow> gotime \<Rightarrow> view_op \<Rightarrow> 'r \<Rightarrow> (string + view_answer) \<times> 'r" where
  "redis_step R v now (OpSetTask st) r = acknowledged (redis_set_task R v now st r)"
| "redis_step R v now (OpGetTask i) r = answered TaskAnswer (redis_get_task R v now i r)"
| "redis_step R v now (OpDeleteTask i) r = answered (\<lambda>_. Ok) (redis_delete_task R v now i r)"
| "redis_step R v now (OpClaim k) r = answered Claimed (redis_claim_dedupe R v now k r)"
| "redis_step R v now (OpRelease k) r = answered (\<lambda>_. Ok) (redis_release_dedupe R v now k r)"
| "redis_step R v now (OpIncr n) r = answered Count (redis_incr_inflight R v now n r)"
| "redis_step R v now (OpDecr n) r = answered Count (redis_decr_inflight R v now n r)"
| "redis_step R v now (OpInflight n) r = answered Count (redis_inflight R v now n r)"
| "redis_step R v now (OpSetRoute q n) r = acknowledged (redis_set_route R v now q n r)"
| "redis_step R v now (OpGetRoute q) r = answered RouteAnswer (redis_get_route R v now q r)"

fun mem_run :: "(gotime \<times> view_op) list \<Rightarrow> mem_view \<Rightarrow> view_answer list \<times> mem_view" where
  "mem_run [] m = ([], m)"
| "mem_run ((now, x) # xs) m =
     (let (a, m1) = mem_step now x m; (as, m2) = mem_run xs m1 in (a # as, m2))"

text \<open>A run of the Redis view up to its first error.\<close>

fun redis_run ::
  "'r redis_ops \<Rightarrow> view_options \<Rightarrow> (gotime \<times> view_op) list \<Rightarrow> 'r \<Rightarrow> (string + view_answer list) \<times> 'r" where
  "redis_run R v [] r = (Inr [], r)"
| "redis_run R v ((now, x) # xs) r =
     (case redis_step R v now x r of
        (Inl e, r1) \<Rightarrow> (Inl e, r1)
      | (Inr a, r1) \<Rightarrow>
          (let (as, r2) = redis_run R v xs r1 in (map_sum id ((#) a) as, r2)))"

section \<open>The keys of the view\<close>

lemma show_int_eq [simp]: "show_int a = show_int b \<longleftrightarrow> a = b"
  using show_int_inj by blast

lemma keys_inj [simp]:
  "task_key v i = task_key v j \<longleftrightarrow> i = j" "view_dedupe_key v k = view_dedupe_key v l \<longleftrightarrow> k = l"
  "inflight_key v n = inflight_key v m \<longleftrightarrow> n = m" "route_key v q = route_key v p \<longleftrightarrow> q = p"
  by (simp_all add: task_key_def view_dedupe_key_def inflight_key_def route_key_def)

text \<open>Keys of different kinds never meet.\<close>

lemma keys_apart [simp]:
  "task_key v i \<noteq> view_dedupe_key v k" "task_key v i \<noteq> inflight_key v n" "task_key v i \<noteq> route_key v q"
  "view_dedupe_key v k \<noteq> task_key v i" "view_dedupe_key v k \<noteq> inflight_key v n" "view_dedupe_key v k \<noteq> route_key v q"
  "inflight_key v n \<noteq> task_key v i" "inflight_key v n \<noteq> view_dedupe_key v k" "inflight_key v n \<noteq> route_key v q"
  "route_key v q \<noteq> task_key v i" "route_key v q \<noteq> view_dedupe_key v k" "route_key v q \<noteq> inflight_key v n"
  by (simp_all add: task_key_def view_dedupe_key_def inflight_key_def route_key_def)

lemma map_of_merge: "map_of (merge_fields fs h) k = (case map_of (rev fs) k of None \<Rightarrow> map_of h k | Some x \<Rightarrow> Some x)"
  by (induction fs arbitrary: h)
    (auto simp: merge_fields_def update_conv' map_of_append map_add_def split: option.splits)

text \<open>Does a stored hash hold this state?\<close>

definition holds_state :: "(string \<times> string) list \<Rightarrow> task_state \<Rightarrow> bool" where
  "holds_state h st \<longleftrightarrow> (\<forall>(f, x) \<in> set (task_fields st). map_of h f = Some x)"

lemma holds_state_merge: "holds_state (merge_fields (task_fields st) h) st"
  by (simp add: holds_state_def map_of_merge) (simp add: task_fields_def)

lemma holds_state_ne: "holds_state h st \<Longrightarrow> h \<noteq> []"
  by (auto simp: holds_state_def task_fields_def)

definition state_in_range :: "task_state \<Rightarrow> bool" where
  "state_in_range st \<longleftrightarrow> in_int64 (ts_task st) \<and> in_int64 (ts_attempt st) \<and> in_int64 (unix_milli (ts_updated st))"

lemma read_hash_holds:
  assumes "holds_state h st" and "state_in_range st"
  shows "read_hash i h = as_read st"
  using assms
  by (simp add: holds_state_def task_fields_def read_hash_def as_read_def field_of_def state_in_range_def)

section \<open>The simulation\<close>

definition task_matches :: "redis_value option \<Rightarrow> task_state option \<Rightarrow> bool" where
  "task_matches x st =
     (case st of None \<Rightarrow> x = None | Some s \<Rightarrow> \<exists>h. x = Some (RHash h) \<and> holds_state h s)"

definition count_matches :: "redis_value option \<Rightarrow> int \<Rightarrow> bool" where
  "count_matches x c \<longleftrightarrow> x = None \<and> c = 0 \<or> x = Some (RString (show_int c))"

text \<open>
  At each time from \<open>now\<close> up to \<open>end_t\<close>, Redis holds what the in-process view holds.
\<close>

definition view_sim ::
  "'r redis_observer \<Rightarrow> view_options \<Rightarrow> gotime \<Rightarrow> gotime \<Rightarrow> mem_view \<Rightarrow> 'r \<Rightarrow> bool" where
  "view_sim see v now end_t m r \<longleftrightarrow>
     mv_opts m = v \<and> (\<forall>i st. map_of (mv_tasks m) i = Some st \<longrightarrow> state_in_range st) \<and>
     (\<forall>n. 0 \<le> inflight n m \<and> in_int64 (inflight n m)) \<and>
     (\<forall>t i. now \<le> t \<longrightarrow> t < end_t \<longrightarrow> task_matches (see t (task_key v i) r) (map_of (mv_tasks m) i)) \<and>
     (\<forall>t k. now \<le> t \<longrightarrow> t < end_t \<longrightarrow> (see t (view_dedupe_key v k) r \<noteq> None) = dedupe_blocked t k m) \<and>
     (\<forall>t n. now \<le> t \<longrightarrow> t < end_t \<longrightarrow> count_matches (see t (inflight_key v n) r) (inflight n m)) \<and>
     (\<forall>t q. now \<le> t \<longrightarrow> t < end_t \<longrightarrow> see t (route_key v q) r = map_option RString (map_of (mv_routes m) q))"

lemma view_simD:
  assumes "view_sim see v now end_t m r"
  shows "mv_opts m = v" "map_of (mv_tasks m) i = Some st \<Longrightarrow> state_in_range st"
    "0 \<le> inflight n m" "in_int64 (inflight n m)"
    "now \<le> t \<Longrightarrow> t < end_t \<Longrightarrow> task_matches (see t (task_key v i) r) (map_of (mv_tasks m) i)"
    "now \<le> t \<Longrightarrow> t < end_t \<Longrightarrow> (see t (view_dedupe_key v k) r \<noteq> None) = dedupe_blocked t k m"
    "now \<le> t \<Longrightarrow> t < end_t \<Longrightarrow> count_matches (see t (inflight_key v n) r) (inflight n m)"
    "now \<le> t \<Longrightarrow> t < end_t \<Longrightarrow> see t (route_key v q) r = map_option RString (map_of (mv_routes m) q)"
  using assms unfolding view_sim_def by blast+

lemma view_sim_later: "view_sim see v now end_t m r \<Longrightarrow> now \<le> now' \<Longrightarrow> view_sim see v now' end_t m r"
  unfolding view_sim_def by (meson order_trans)

lemma view_sim_same: "view_sim see v now end_t m r \<Longrightarrow> rd_same see now (\<lambda>_. True) r r' \<Longrightarrow> view_sim see v now end_t m r'"
  unfolding view_sim_def rd_same_def by presburger

lemma seen_after_write:
  assumes "rd_written see now key x ttl r r'" and "now \<le> t" and "t < end_t" and "end_t \<le> now + ttl"
  shows "see t k r' = (if k = key then Some x else see t k r)"
  using assms by (auto simp: rd_written_def rd_same_def)

text \<open>Each command that changes a key keeps the simulation.\<close>

lemma sim_set_task:
  assumes "hash_laws see R" and "whole_seconds (vo_task_ttl v)" and "end_t \<le> now + vo_task_ttl v"
    and "view_sim see v now end_t m r" and "redis_set_task R v now st r = (None, r')"
    and "state_in_range (if is_zero_time (ts_updated st) then st\<lparr>ts_updated := now\<rparr> else st)"
  shows "view_sim see v now end_t (set_task_state now st m) r'"
proof -
  define st1 where "st1 = (if is_zero_time (ts_updated st) then st\<lparr>ts_updated := now\<rparr> else st)"
  obtain old where w: "rd_written see now (task_key v (ts_task st1)) (RHash (merge_fields (task_fields st1) old)) (vo_task_ttl v) r r'"
  proof -
    have "task_fields st1 \<noteq> []" by (simp add: task_fields_def)
    moreover have "ro_hset R now (task_key v (ts_task st1)) (task_fields st1) (vo_task_ttl v) r = (None, r')"
      using assms(5) by (simp add: redis_set_task_def Let_def st1_def)
    ultimately show thesis using that assms(1,2) unfolding hash_laws_def by blast
  qed
  have m: "set_task_state now st m = m\<lparr>mv_tasks := AList.update (ts_task st1) st1 (mv_tasks m)\<rparr>"
    by (simp add: set_task_state_def st1_def Let_def)
  note see = seen_after_write [OF w _ _ assms(3)]
  show ?thesis
    using view_simD [OF assms(4)] assms(6) holds_state_merge [of st1 old] unfolding m view_sim_def
    by (simp add: see update_conv' inflight_def dedupe_blocked_def st1_def [symmetric] task_matches_def)
qed


lemma seen_after_del:
  assumes "del_laws see R" and "ro_del R now [key] r = (Inr n, r')" and "now \<le> t"
  shows "see t k r' = (if k = key then None else see t k r)"
  using assms unfolding del_laws_def by fastforce

lemma sim_delete_task:
  assumes "del_laws see R" and "view_sim see v now end_t m r" and "redis_delete_task R v now i r = (Inr n, r')"
  shows "view_sim see v now end_t (delete_task_state i m) r'"
proof -
  note see = seen_after_del [OF assms(1) assms(3) [unfolded redis_delete_task_def]]
  show ?thesis
    using view_simD [OF assms(2)] unfolding view_sim_def
    by (simp add: delete_task_state_def see delete_conv' inflight_def dedupe_blocked_def task_matches_def)
qed

lemma sim_release:
  assumes "del_laws see R" and "view_sim see v now end_t m r" and "redis_release_dedupe R v now k r = (Inr n, r')"
  shows "view_sim see v now end_t (release_dedupe k m) r'"
proof -
  note see = seen_after_del [OF assms(1) assms(3) [unfolded redis_release_dedupe_def]]
  show ?thesis
    using view_simD [OF assms(2)] unfolding view_sim_def
    by (simp add: release_dedupe_def see delete_conv' inflight_def dedupe_blocked_def)
qed

lemma sim_claim:
  assumes "string_laws see R" and "whole_seconds (vo_dedupe_ttl v)" and "end_t \<le> now + vo_dedupe_ttl v" "now < end_t"
    and sim: "view_sim see v now end_t m r" and "redis_claim_dedupe R v now k r = (Inr b, r')"
  shows "view_sim see v now end_t (snd (claim_dedupe now k m)) r' \<and> fst (claim_dedupe now k m) = b"
proof -
  have law: "if b then see now (view_dedupe_key v k) r = None \<and>
        rd_written see now (view_dedupe_key v k) (RString (show_int (unix_milli now))) (vo_dedupe_ttl v) r r'
      else see now (view_dedupe_key v k) r \<noteq> None \<and> rd_same see now (\<lambda>_. True) r r'"
    using assms(1,2,6) unfolding string_laws_def redis_claim_dedupe_def by blast
  have blocked: "dedupe_blocked now k m = (\<not> b)"
    using view_simD(6) [OF sim order_refl assms(4), of k] law by (cases b) auto
  have fst_b: "fst (claim_dedupe now k m) = b"
    using blocked by (simp add: claim_dedupe_def dedupe_blocked_def)
  show ?thesis
  proof (cases b)
    case False
    then have "snd (claim_dedupe now k m) = m"
      using blocked by (simp add: claim_dedupe_def dedupe_blocked_def)
    then show ?thesis using view_sim_same [OF sim] law False fst_b by simp
  next
    case True
    then have w: "rd_written see now (view_dedupe_key v k) (RString (show_int (unix_milli now))) (vo_dedupe_ttl v) r r'"
      using law by simp
    note see = seen_after_write [OF w _ _ assms(3)]
    have m: "snd (claim_dedupe now k m) = m\<lparr>mv_dedupe := AList.update k (now + vo_dedupe_ttl v) (mv_dedupe m)\<rparr>"
      using blocked True view_simD(1) [OF sim] by (simp add: claim_dedupe_def dedupe_blocked_def)
    have "now \<le> t \<Longrightarrow> t < end_t \<Longrightarrow> t < now + vo_dedupe_ttl v" for t using assms(3) by simp
    then have "view_sim see v now end_t (snd (claim_dedupe now k m)) r'"
      using view_simD [OF sim] unfolding m view_sim_def
      by (simp add: see inflight_def dedupe_blocked_def update_conv')
    then show ?thesis using fst_b by simp
  qed
qed

lemma sim_set_route:
  assumes "string_laws see R" and "whole_seconds (vo_route_ttl v)" and "end_t \<le> now + vo_route_ttl v"
    and "view_sim see v now end_t m r" and "redis_set_route R v now q n r = (None, r')"
  shows "view_sim see v now end_t (set_queue_route q n m) r'"
proof -
  have w: "rd_written see now (route_key v q) (RString n) (vo_route_ttl v) r r'"
    using assms(1,2,5) unfolding string_laws_def redis_set_route_def by blast
  note see = seen_after_write [OF w _ _ assms(3)]
  show ?thesis
    using view_simD [OF assms(4)] unfolding view_sim_def
    by (simp add: set_queue_route_def see inflight_def dedupe_blocked_def update_conv')
qed

lemma count_number:
  assumes "view_sim see v now end_t m r" and "now < end_t"
  shows "rd_number see now (inflight_key v n) r = Some (inflight n m)"
  using view_simD(7) [OF assms(1) order_refl assms(2), of n] view_simD(4) [OF assms(1), of n]
  by (auto simp: count_matches_def rd_number_def)

lemma inflight_update: "inflight k (m\<lparr>mv_inflight := AList.update n c (mv_inflight m)\<rparr>) = (if k = n then c else inflight k m)"
  by (simp add: inflight_def update_conv')

lemma sim_count:
  assumes "view_sim see v now end_t m r" and "0 \<le> c" "in_int64 c"
    and "\<And>t k. now \<le> t \<Longrightarrow> t < end_t \<Longrightarrow>
      see t k r' = (if k = inflight_key v n then Some (RString (show_int c)) else see t k r)"
  shows "view_sim see v now end_t (m\<lparr>mv_inflight := AList.update n c (mv_inflight m)\<rparr>) r'"
  using view_simD [OF assms(1)] assms(2-4) unfolding view_sim_def
  by (simp add: inflight_update dedupe_blocked_def count_matches_def)

lemma sim_incr:
  assumes "number_laws see R" and "whole_seconds (vo_task_ttl v)" and "end_t \<le> now + vo_task_ttl v" "now < end_t"
    and sim: "view_sim see v now end_t m r" and "redis_incr_inflight R v now n r = (Inr c, r')"
  shows "view_sim see v now end_t (snd (incr_inflight n m)) r' \<and> fst (incr_inflight n m) = c"
proof -
  have law: "rd_number see now (inflight_key v n) r = Some (c - 1)" "in_int64 c"
    "rd_written see now (inflight_key v n) (RString (show_int c)) (vo_task_ttl v) r r'"
    using assms(1,2,6) unfolding number_laws_def redis_incr_inflight_def by blast+
  have c: "inflight n m = c - 1" using count_number [OF sim assms(4), of n] law(1) by simp
  note see = seen_after_write [OF law(3) _ _ assms(3)]
  have "view_sim see v now end_t (m\<lparr>mv_inflight := AList.update n c (mv_inflight m)\<rparr>) r'"
    by (rule sim_count [OF sim _ law(2) see]) (use c view_simD(3) [OF sim, of n] in auto)
  then show ?thesis by (simp add: incr_inflight_def Let_def c inflight_update)
qed

lemma map_prod_Inr: "map_prod Inr id p = (Inr c, s) \<longleftrightarrow> p = (c, s)"
  by (cases p) auto

lemma sim_decr:
  assumes "number_laws see R" and "string_laws see R" and set_ok: "\<forall>t k x ttl s. fst (ro_set R t k x ttl s) = None"
    and "whole_seconds (vo_task_ttl v)" and "end_t \<le> now + vo_task_ttl v" "now < end_t"
    and sim: "view_sim see v now end_t m r" and "redis_decr_inflight R v now n r = (Inr c, r')"
  shows "view_sim see v now end_t (snd (decr_inflight n m)) r' \<and> fst (decr_inflight n m) = c"
proof -
  obtain d r1 where d: "ro_decr R now (inflight_key v n) r = (Inr d, r1)" "redis_clamp R v now n d r1 = (c, r')"
    using assms(8) by (auto simp: redis_decr_inflight_def map_prod_Inr split: prod.splits sum.splits)
  have law: "rd_number see now (inflight_key v n) r = Some (d + 1)" "in_int64 d"
    "rd_same see now (\<lambda>k. k \<noteq> inflight_key v n) r r1"
    "\<And>t. now \<le> t \<Longrightarrow> see t (inflight_key v n) r1 =
       (if see now (inflight_key v n) r \<noteq> None \<and> see t (inflight_key v n) r = None then None else Some (RString (show_int d)))"
    using assms(1) d(1) unfolding number_laws_def by blast+
  have i: "inflight n m = d + 1" using count_number [OF sim assms(6), of n] law(1) by simp
  show ?thesis
  proof (cases "d < 0")
    case False
    then have c: "c = d" "r' = r1" using d(2) by (simp_all add: redis_clamp_def)
    have pos: "inflight n m \<noteq> 0" using False i by simp
    have "see t (inflight_key v n) r = Some (RString (show_int (inflight n m)))" if "now \<le> t" "t < end_t" for t
      using view_simD(7) [OF sim that, of n] pos by (simp add: count_matches_def)
    then have "see t k r' = (if k = inflight_key v n then Some (RString (show_int d)) else see t k r)"
      if "now \<le> t" "t < end_t" for t k
      using that law(3) law(4) [OF that(1)] c(2) by (auto simp: rd_same_def)
    then have "view_sim see v now end_t (m\<lparr>mv_inflight := AList.update n d (mv_inflight m)\<rparr>) r'"
      using sim_count [OF sim _ law(2), of r' n] False by simp
    then show ?thesis using i False c by (simp add: decr_inflight_def Let_def inflight_update)
  next
    case True
    then have z: "inflight n m = 0" using i view_simD(3) [OF sim, of n] by simp
    obtain w: "rd_written see now (inflight_key v n) (RString (show_int 0)) (vo_task_ttl v) r1 r'" and c: "c = 0"
    proof -
      have "ro_set R now (inflight_key v n) (show_int 0) (vo_task_ttl v) r1 = (None, r')" "c = 0"
        using d(2) True set_ok by (auto simp: redis_clamp_def prod_eq_iff)
      then show thesis using that assms(2,4) unfolding string_laws_def by blast
    qed
    have see: "see t k r' = (if k = inflight_key v n then Some (RString (show_int 0)) else see t k r)"
      if "now \<le> t" "t < end_t" for t k
      using seen_after_write [OF w that assms(5), of k] law(3) that by (auto simp: rd_same_def)
    have "view_sim see v now end_t m r'"
      using view_simD [OF sim] z unfolding view_sim_def
      by (auto simp: see count_matches_def)
    then show ?thesis using z c by (simp add: decr_inflight_def Let_def)
  qed
qed


section \<open>The two views agree\<close>

fun op_in_range :: "gotime \<Rightarrow> view_op \<Rightarrow> bool" where
  "op_in_range now (OpSetTask st) = state_in_range (if is_zero_time (ts_updated st) then st\<lparr>ts_updated := now\<rparr> else st)"
| "op_in_range now x = True"

definition ttls_cover :: "view_options \<Rightarrow> gotime \<Rightarrow> gotime \<Rightarrow> bool" where
  "ttls_cover v start end_t \<longleftrightarrow>
     whole_seconds (vo_task_ttl v) \<and> whole_seconds (vo_dedupe_ttl v) \<and> whole_seconds (vo_route_ttl v) \<and>
     end_t \<le> start + vo_task_ttl v \<and> end_t \<le> start + vo_dedupe_ttl v \<and> end_t \<le> start + vo_route_ttl v"

lemma answered_Inr: "answered f p = (Inr a, s) \<longleftrightarrow> (\<exists>x. p = (Inr x, s) \<and> a = f x)"
  by (cases p; cases "fst p") (auto simp: answered_def)

lemma acknowledged_Inr: "acknowledged p = (Inr a, s) \<longleftrightarrow> p = (None, s) \<and> a = Ok"
  by (cases p) (auto simp: acknowledged_def split: option.splits)

lemma sim_get_task:
  assumes "hash_laws see R" and sim: "view_sim see v now end_t m r" and "now < end_t"
    and "redis_get_task R v now i r = (Inr x, r')"
  shows "x = map_option as_read (get_task_state i m) \<and> view_sim see v now end_t m r'"
proof -
  obtain h where h: "ro_hgetall R now (task_key v i) r = (Inr h, r')" "x = (if h = [] then None else Some (read_hash i h))"
    using assms(4) by (auto simp: redis_get_task_def split: prod.splits sum.splits)
  have law: "see now (task_key v i) r = (if h = [] then None else Some (RHash h))" "rd_same see now (\<lambda>_. True) r r'"
    using assms(1) h(1) unfolding hash_laws_def by blast+
  have match: "task_matches (see now (task_key v i) r) (get_task_state i m)"
    using view_simD(5) [OF sim order_refl assms(3), of i] by (simp add: get_task_state_def)
  have "x = map_option as_read (get_task_state i m)"
  proof (cases "get_task_state i m")
    case None
    then show ?thesis using match law(1) h(2) by (auto simp: task_matches_def split: if_splits)
  next
    case (Some st)
    then have "state_in_range st" using view_simD(2) [OF sim, of i st] by (simp add: get_task_state_def)
    moreover have "h \<noteq> []" "holds_state h st"
      using match law(1) Some by (auto simp: task_matches_def split: if_splits)
    ultimately show ?thesis using Some h(2) read_hash_holds by simp
  qed
  then show ?thesis using view_sim_same [OF sim law(2)] by simp
qed

lemma sim_get:
  assumes "string_laws see R" and "view_sim see v now end_t m r" and "ro_get R now key r = (Inr x, r')"
  shows "see now key r = map_option RString x \<and> view_sim see v now end_t m r'"
proof -
  have "see now key r = map_option RString x \<and> rd_same see now (\<lambda>_. True) r r'"
    using assms(1,3) unfolding string_laws_def by blast
  then show ?thesis using view_sim_same [OF assms(2)] by blast
qed

lemma sim_inflight:
  assumes "string_laws see R" and sim: "view_sim see v now end_t m r" and "now < end_t"
    and "redis_inflight R v now n r = (Inr c, r')"
  shows "c = inflight n m \<and> view_sim see v now end_t m r'"
proof -
  obtain x where x: "ro_get R now (inflight_key v n) r = (Inr x, r')"
    "c = (case x of None \<Rightarrow> 0 | Some s \<Rightarrow> the (parse_int64 s))"
    using assms(4) by (auto simp: redis_inflight_def split: prod.splits sum.splits option.splits)
  have "see now (inflight_key v n) r = map_option RString x" "view_sim see v now end_t m r'"
    using sim_get [OF assms(1) sim x(1)] by blast+
  then show ?thesis
    using x(2) view_simD(4) [OF sim, of n] view_simD(7) [OF sim order_refl assms(3), of n]
    by (auto simp: count_matches_def split: option.splits)
qed

lemma redis_step_simulates:
  assumes laws: "redis_laws see R" and set_ok: "\<forall>t k x ttl s. fst (ro_set R t k x ttl s) = None"
    and "ttls_cover v start end_t" and "start \<le> now" "now < end_t"
    and sim: "view_sim see v now end_t m r" and "op_in_range now x" and "redis_step R v now x r = (Inr a, r')"
  shows "a = fst (mem_step now x m) \<and> view_sim see v now end_t (snd (mem_step now x m)) r'"
proof -
  have L: "hash_laws see R" "string_laws see R" "number_laws see R" "del_laws see R"
    using laws by (simp_all add: redis_laws_def)
  have T: "whole_seconds (vo_task_ttl v)" "whole_seconds (vo_dedupe_ttl v)" "whole_seconds (vo_route_ttl v)"
    "end_t \<le> now + vo_task_ttl v" "end_t \<le> now + vo_dedupe_ttl v" "end_t \<le> now + vo_route_ttl v"
    using assms(3,4) by (simp_all add: ttls_cover_def)
  show ?thesis
  proof (cases x)
    case (OpSetTask st)
    then show ?thesis using assms(7,8) sim_set_task [OF L(1) T(1,4) sim] by (simp add: acknowledged_Inr)
  next
    case (OpGetTask i)
    then show ?thesis using assms(8) sim_get_task [OF L(1) sim assms(5)] by (auto simp: answered_Inr)
  next
    case (OpDeleteTask i)
    then show ?thesis using assms(8) sim_delete_task [OF L(4) sim] by (auto simp: answered_Inr)
  next
    case (OpClaim k)
    then show ?thesis using assms(8) sim_claim [OF L(2) T(2,5) assms(5) sim]
      by (fastforce simp: answered_Inr split: prod.splits)
  next
    case (OpRelease k)
    then show ?thesis using assms(8) sim_release [OF L(4) sim] by (auto simp: answered_Inr)
  next
    case (OpIncr n)
    then show ?thesis using assms(8) sim_incr [OF L(3) T(1,4) assms(5) sim]
      by (fastforce simp: answered_Inr split: prod.splits)
  next
    case (OpDecr n)
    then show ?thesis using assms(8) sim_decr [OF L(3,2) set_ok T(1,4) assms(5) sim]
      by (fastforce simp: answered_Inr split: prod.splits)
  next
    case (OpInflight n)
    then show ?thesis using assms(8) sim_inflight [OF L(2) sim assms(5)] by (auto simp: answered_Inr)
  next
    case (OpSetRoute q n)
    then show ?thesis using assms(8) sim_set_route [OF L(2) T(3,6) sim] by (simp add: acknowledged_Inr)
  next
    case (OpGetRoute q)
    then obtain y where y: "ro_get R now (route_key v q) r = (Inr y, r')" "a = RouteAnswer y"
      using assms(8) by (auto simp: answered_Inr redis_get_route_def)
    then have "map_option RString y = map_option RString (map_of (mv_routes m) q)" "view_sim see v now end_t m r'"
      using sim_get [OF L(2) sim y(1)] view_simD(8) [OF sim order_refl assms(5), of q] by auto
    moreover from this(1) have "y = map_of (mv_routes m) q"
      by (cases y; cases "map_of (mv_routes m) q") auto
    ultimately show ?thesis using OpGetRoute y(2) by (simp add: get_queue_route_def)
  qed
qed

lemma redis_run_simulates:
  assumes "redis_laws see R" "\<forall>t k x ttl s. fst (ro_set R t k x ttl s) = None"
    and "ttls_cover v start end_t" and "\<forall>(t, x) \<in> set xs. now \<le> t \<and> t < end_t \<and> op_in_range t x"
    and "sorted (map fst xs)" and "start \<le> now" and "view_sim see v now end_t m r"
    and "redis_run R v xs r = (Inr as, r')"
  shows "as = fst (mem_run xs m)"
  using assms(4-8)
proof (induction xs arbitrary: now m r as)
  case (Cons p xs)
  obtain t x where p: "p = (t, x)" by fastforce
  obtain a r1 as' where s: "redis_step R v t x r = (Inr a, r1)" "redis_run R v xs r1 = (Inr as', r')" "as = a # as'"
    using Cons.prems(5) by (auto simp: p split: prod.splits sum.splits) (metis map_sum.simps(1) sum.exhaust sum.inject(2) map_sum.simps(2) sum.distinct(1))
  have time: "now \<le> t" "t < end_t" "op_in_range t x" using Cons.prems(1) by (auto simp: p)
  have "start \<le> t" using Cons.prems(3) time(1) by simp
  from redis_step_simulates [OF assms(1-3) this time(2) view_sim_later [OF Cons.prems(4) time(1)] time(3) s(1)]
  have step: "a = fst (mem_step t x m)" "view_sim see v t end_t (snd (mem_step t x m)) r1" by blast+
  have "\<forall>(u, y) \<in> set xs. t \<le> u \<and> u < end_t \<and> op_in_range u y"
    using Cons.prems(1,2) by (auto simp: p)
  from Cons.IH [OF this _ \<open>start \<le> t\<close> step(2) s(2)] Cons.prems(2)
  have "as' = fst (mem_run xs (snd (mem_step t x m)))" by (simp add: p)
  then show ?case using step(1) s(3) by (simp add: p split: prod.splits)
qed simp



text \<open>
  The clamp of the Redis counter is not atomic: on a node with no tasks in flight, when
  another instance counts a task between the two commands of a decrement, its increment is
  lost, and the counter stands at 0 with one task in flight; executed one after the other, the
  same decrement and increment leave it at 1.
\<close>

theorem decr_race_loses_increment:
  assumes "redis_laws see R" and "\<forall>t k x ttl s. fst (ro_set R t k x ttl s) = None"
    and "whole_seconds (vo_task_ttl v)" and "rd_number see now (inflight_key v n) r = Some 0"
    and "ro_decr R now (inflight_key v n) r = (Inr c, r1)"
    and "redis_incr_inflight R v now n r1 = (Inr i, r2)" and "redis_clamp R v now n c r2 = (d, r3)"
    and "redis_decr_inflight R v now n r = (Inr d', s1)" and "redis_incr_inflight R v now n s1 = (Inr i', s2)"
  shows "rd_number see now (inflight_key v n) r3 = Some 0 \<and> rd_number see now (inflight_key v n) s2 = Some 1
    \<and> i = 0 \<and> i' = 1 \<and> d = 0 \<and> d' = 0"
proof -
  let ?key = "inflight_key v n"
  have L: "string_laws see R" "number_laws see R" using assms(1) by (simp_all add: redis_laws_def)
  have pos: "0 < vo_task_ttl v" using assms(3) by (simp add: whole_seconds_def)
  have written: "rd_number see now ?key b = Some x" if "rd_written see now ?key (RString (show_int x)) (vo_task_ttl v) a b" "in_int64 x" for a b x
    using that pos by (simp add: rd_written_def rd_number_def)
  have incr: "rd_number see now ?key a = Some (x - 1) \<and> rd_number see now ?key b = Some x"
    if "redis_incr_inflight R v now n a = (Inr x, b)" for a x b
  proof -
    have "rd_number see now ?key a = Some (x - 1) \<and> in_int64 x \<and> rd_written see now ?key (RString (show_int x)) (vo_task_ttl v) a b"
      using that L(2) assms(3) unfolding number_laws_def redis_incr_inflight_def by blast
    then show ?thesis using written by blast
  qed
  have clamp: "x = 0 \<and> rd_number see now ?key b = Some 0" if "redis_clamp R v now n (- 1) a = (x, b)" for a x b
  proof -
    have "ro_set R now ?key (show_int 0) (vo_task_ttl v) a = (None, b)" "x = 0"
      using that assms(2) by (auto simp: redis_clamp_def prod_eq_iff)
    then have "rd_written see now ?key (RString (show_int 0)) (vo_task_ttl v) a b"
      using L(1) assms(3) unfolding string_laws_def by blast
    then show ?thesis using written [of 0] \<open>x = 0\<close> by (simp add: in_int64_def)
  qed
  have c: "c = -1" and r1: "rd_number see now ?key r1 = Some (- 1)"
  proof -
    have d: "rd_number see now ?key r = Some (c + 1)" "in_int64 c"
      "see now ?key r1 = (if see now ?key r \<noteq> None \<and> see now ?key r = None then None else Some (RString (show_int c)))"
      using L(2) assms(5) unfolding number_laws_def by blast+
    show "c = -1" using d(1) assms(4) by simp
    then show "rd_number see now ?key r1 = Some (- 1)" using d(2,3) by (auto simp: rd_number_def)
  qed
  have i: "i = 0" using incr [OF assms(6)] r1 by simp
  have r3: "d = 0 \<and> rd_number see now ?key r3 = Some 0" using clamp assms(7) c by blast
  have s1: "d' = 0 \<and> rd_number see now ?key s1 = Some 0"
    using assms(5,8) clamp c by (simp add: redis_decr_inflight_def map_prod_Inr)
  have "i' = 1 \<and> rd_number see now ?key s2 = Some 1" using incr [OF assms(9)] s1 by simp
  then show ?thesis using i r3 s1 by simp
qed

section \<open>A Redis in memory\<close>

text \<open>A small keyspace with expiry that keeps the laws, for the concrete instances.\<close>

type_synonym keyspace = "(string \<times> redis_value \<times> gotime option) list"

definition ks_see :: "gotime \<Rightarrow> string \<Rightarrow> keyspace \<Rightarrow> redis_value option" where
  "ks_see t k s =
     (case map_of s k of
        None \<Rightarrow> None
      | Some (x, e) \<Rightarrow> if x = RHash [] \<or> (case e of None \<Rightarrow> False | Some u \<Rightarrow> u \<le> t) then None else Some x)"

definition ks_number :: "gotime \<Rightarrow> string \<Rightarrow> int \<Rightarrow> gotime option \<Rightarrow> keyspace \<Rightarrow> (string + int) \<times> keyspace" where
  "ks_number now k d e s =
     (case rd_number ks_see now k s of
        Some n \<Rightarrow> if in_int64 (n + d) then (Inr (n + d), AList.update k (RString (show_int (n + d)), e) s) else (Inl ''overflow'', s)
      | None \<Rightarrow> (Inl ''type'', s))"

definition ks_hset :: "gotime \<Rightarrow> string \<Rightarrow> (string \<times> string) list \<Rightarrow> int \<Rightarrow> keyspace \<Rightarrow> string option \<times> keyspace" where
  "ks_hset now k fs ttl s =
     (case ks_see now k s of
        Some (RString _) \<Rightarrow> (Some ''type'', s)
      | Some (RHash h) \<Rightarrow> (None, AList.update k (RHash (merge_fields fs h), Some (now + ttl)) s)
      | None \<Rightarrow> (None, AList.update k (RHash (merge_fields fs []), Some (now + ttl)) s))"

definition ks_hgetall :: "gotime \<Rightarrow> string \<Rightarrow> keyspace \<Rightarrow> (string + (string \<times> string) list) \<times> keyspace" where
  "ks_hgetall now k s =
     (case ks_see now k s of
        Some (RString _) \<Rightarrow> (Inl ''type'', s) | Some (RHash h) \<Rightarrow> (Inr h, s) | None \<Rightarrow> (Inr [], s))"

definition ks_del :: "gotime \<Rightarrow> string list \<Rightarrow> keyspace \<Rightarrow> (string + int) \<times> keyspace" where
  "ks_del now ks s =
     (Inr (int (length (filter (\<lambda>k. ks_see now k s \<noteq> None) (remdups ks)))), filter (\<lambda>p. fst p \<notin> set ks) s)"

definition ks_setnx :: "gotime \<Rightarrow> string \<Rightarrow> string \<Rightarrow> int \<Rightarrow> keyspace \<Rightarrow> (string + bool) \<times> keyspace" where
  "ks_setnx now k x ttl s =
     (if ks_see now k s = None then (Inr True, AList.update k (RString x, Some (now + ttl)) s) else (Inr False, s))"

definition ks_incr :: "gotime \<Rightarrow> string \<Rightarrow> int \<Rightarrow> keyspace \<Rightarrow> (string + int) \<times> keyspace" where
  "ks_incr now k ttl s = ks_number now k 1 (Some (now + ttl)) s"

definition ks_decr :: "gotime \<Rightarrow> string \<Rightarrow> keyspace \<Rightarrow> (string + int) \<times> keyspace" where
  "ks_decr now k s =
     ks_number now k (- 1)
       (if ks_see now k s = None then None else case map_of s k of None \<Rightarrow> None | Some (_, e) \<Rightarrow> e) s"

definition ks_set :: "gotime \<Rightarrow> string \<Rightarrow> string \<Rightarrow> int \<Rightarrow> keyspace \<Rightarrow> string option \<times> keyspace" where
  "ks_set now k x ttl s = (None, AList.update k (RString x, Some (now + ttl)) s)"

definition ks_get :: "gotime \<Rightarrow> string \<Rightarrow> keyspace \<Rightarrow> (string + string option) \<times> keyspace" where
  "ks_get now k s =
     (case ks_see now k s of
        Some (RString x) \<Rightarrow> (Inr (Some x), s) | Some (RHash _) \<Rightarrow> (Inl ''type'', s) | None \<Rightarrow> (Inr None, s))"

definition ks_scan :: "gotime \<Rightarrow> string \<Rightarrow> keyspace \<Rightarrow> string list \<times> string option" where
  "ks_scan now p s = (filter (\<lambda>k. has_prefix k (butlast p)) (map fst s), None)"

definition ks_redis :: "keyspace redis_ops" where
  "ks_redis = \<lparr>ro_hset = ks_hset, ro_hgetall = ks_hgetall, ro_del = ks_del, ro_setnx = ks_setnx, ro_incr = ks_incr,
     ro_decr = ks_decr, ro_set = ks_set, ro_get = ks_get, ro_scan = ks_scan\<rparr>"

lemmas ks_defs = ks_redis_def ks_hset_def ks_hgetall_def ks_del_def ks_setnx_def ks_incr_def ks_decr_def
  ks_set_def ks_get_def

lemma merge_fields_ne: "fs \<noteq> [] \<Longrightarrow> merge_fields fs h \<noteq> []"
  using map_of_merge [of fs h "fst (hd fs)"]
  by (cases fs) (auto simp: map_of_append split: option.splits)

lemma ks_hash_laws: "hash_laws ks_see ks_redis"
  unfolding hash_laws_def
proof (intro conjI allI impI)
  fix now key fs ttl r r'
  assume a: "ro_hset ks_redis now key fs ttl r = (None, r')" "whole_seconds ttl" "fs \<noteq> []"
  define old where "old = (case ks_see now key r of Some (RHash h) \<Rightarrow> h | _ \<Rightarrow> [])"
  have "ks_see now key r = (if old = [] then None else Some (RHash old))"
    "r' = AList.update key (RHash (merge_fields fs old), Some (now + ttl)) r"
    using a(1) by (auto simp: ks_defs old_def ks_see_def update_conv' split: option.splits redis_value.splits if_splits)
  then show "\<exists>old. ks_see now key r = (if old = [] then None else Some (RHash old)) \<and>
      rd_written ks_see now key (RHash (merge_fields fs old)) ttl r r'"
    using merge_fields_ne [OF a(3)] by (intro exI [of _ old]) (auto simp: rd_written_def rd_same_def ks_see_def update_conv')
next
  fix now key r h r'
  assume "ro_hgetall ks_redis now key r = (Inr h, r')"
  then show "ks_see now key r = (if h = [] then None else Some (RHash h))" "rd_same ks_see now (\<lambda>_. True) r r'"
    by (auto simp: ks_defs rd_same_def ks_see_def update_conv' split: option.splits redis_value.splits if_splits)
qed

lemma ks_string_laws: "string_laws ks_see ks_redis"
  unfolding string_laws_def
  by (auto simp: ks_defs rd_written_def rd_same_def ks_see_def update_conv' split: option.splits redis_value.splits if_splits)

lemma ks_number_laws: "number_laws ks_see ks_redis"
  unfolding number_laws_def
proof (intro conjI allI impI)
  fix now key ttl r n r'
  assume a: "ro_incr ks_redis now key ttl r = (Inr n, r')" "whole_seconds ttl"
  show "rd_number ks_see now key r = Some (n - 1)" "in_int64 n"
    using a(1) by (auto simp: ks_defs ks_number_def split: option.splits if_splits)
  show "rd_written ks_see now key (RString (show_int n)) ttl r r'"
    using a(1) by (auto simp: ks_defs ks_number_def rd_written_def rd_same_def ks_see_def update_conv'
        split: option.splits if_splits)
next
  fix now key r n r' 
  assume a: "ro_decr ks_redis now key r = (Inr n, r')"
  show "rd_number ks_see now key r = Some (n + 1)" "in_int64 n" "rd_same ks_see now (\<lambda>k. k \<noteq> key) r r'"
    using a by (auto simp: ks_defs ks_number_def rd_same_def ks_see_def update_conv' split: option.splits if_splits)
  fix t
  assume "now \<le> t"
  then show "ks_see t key r' = (if ks_see now key r \<noteq> None \<and> ks_see t key r = None then None else Some (RString (show_int n)))"
    using a by (auto simp: ks_defs ks_number_def ks_see_def update_conv' split: option.splits if_splits)
qed

lemma map_of_kept: "map_of (filter (\<lambda>p. fst p \<notin> S) s) k = (if k \<in> S then None else map_of s k)"
  by (induction s) auto

lemma length_present: "length (filter P (remdups ks)) = card {k \<in> set ks. P k}"
  by (metis distinct_card distinct_filter distinct_remdups set_filter set_remdups)

lemma ks_laws: "redis_laws ks_see ks_redis"
  using ks_hash_laws ks_string_laws ks_number_laws
  by (auto simp: redis_laws_def del_laws_def ks_defs ks_see_def length_present map_of_kept split: option.splits)


definition sample_history :: "(gotime \<times> view_op) list" where
  "sample_history =
     [(time_of_milli 1 + 5, OpClaim ''k''), (time_of_milli 1 + 6, OpDecr ''n''), (time_of_milli 1 + 7, OpIncr ''n''), (time_of_milli 1 + 8, OpInflight ''n''), (time_of_milli 1 + 9, OpClaim ''k''),
      (time_of_milli 1 + 10, OpSetTask \<lparr>ts_task = 3, ts_attempt = 1, ts_state = StateDispatched, ts_node = ''n'', ts_queue = ''q'',
         ts_error = '''', ts_updated = time_of_milli 7 + 1\<rparr>),
      (time_of_milli 1 + 11, OpGetTask 3), (time_of_milli 1 + 12, OpDeleteTask 3), (time_of_milli 1 + 13, OpGetTask 3), (time_of_milli 1 + 14, OpSetRoute ''q'' ''n''), (time_of_milli 1 + 15, OpGetRoute ''q'')]"

definition ten_minutes :: view_options where
  "ten_minutes = \<lparr>vo_prefix = '''', vo_task_ttl = 0, vo_dedupe_ttl = 0, vo_route_ttl = 0\<rparr>"


theorem decr_race_loses_increment_witness:
  "\<exists>c r1 i r2 d r3 d' s1 i' s2.
     ro_decr ks_redis 5 (inflight_key (with_defaults ten_minutes) ''n'') [] = (Inr c, r1)
   \<and> redis_incr_inflight ks_redis (with_defaults ten_minutes) 5 ''n'' r1 = (Inr i, r2)
   \<and> redis_clamp ks_redis (with_defaults ten_minutes) 5 ''n'' c r2 = (d, r3)
   \<and> redis_decr_inflight ks_redis (with_defaults ten_minutes) 5 ''n'' [] = (Inr d', s1)
   \<and> redis_incr_inflight ks_redis (with_defaults ten_minutes) 5 ''n'' s1 = (Inr i', s2)
   \<and> rd_number ks_see 5 (inflight_key (with_defaults ten_minutes) ''n'') r3 = Some 0
   \<and> rd_number ks_see 5 (inflight_key (with_defaults ten_minutes) ''n'') s2 = Some 1"
proof -
  let ?v = "with_defaults ten_minutes" and ?key = "inflight_key (with_defaults ten_minutes) ''n''"
  have set_ok: "\<forall>t k x ttl s. fst (ro_set ks_redis t k x ttl s) = None" by (simp add: ks_defs)
  have w: "whole_seconds (vo_task_ttl ?v)"
    by (simp add: with_defaults_def ten_minutes_def default_view_ttl_def whole_seconds_def)
  have z: "rd_number ks_see 5 ?key [] = Some 0" by (simp add: rd_number_def ks_see_def update_conv')
  have ok: "case ro_decr ks_redis 5 ?key [] of (x, a) \<Rightarrow> is_ok x \<and> is_ok (fst (redis_incr_inflight ks_redis ?v 5 ''n'' a))"
    "case redis_decr_inflight ks_redis ?v 5 ''n'' [] of (x, a) \<Rightarrow> is_ok x \<and> is_ok (fst (redis_incr_inflight ks_redis ?v 5 ''n'' a))"
    by code_simp+
  obtain c r1 i r2 where s1: "ro_decr ks_redis 5 ?key [] = (Inr c, r1)" "redis_incr_inflight ks_redis ?v 5 ''n'' r1 = (Inr i, r2)"
    using ok(1) by (auto simp: is_ok_def split: prod.splits sum.splits) (metis prod.collapse)
  obtain d' s1 i' s2 where s2: "redis_decr_inflight ks_redis ?v 5 ''n'' [] = (Inr d', s1)"
    "redis_incr_inflight ks_redis ?v 5 ''n'' s1 = (Inr i', s2)"
    using ok(2) by (auto simp: is_ok_def split: prod.splits sum.splits) (metis prod.collapse)
  obtain d r3 where k: "redis_clamp ks_redis ?v 5 ''n'' c r2 = (d, r3)" by fastforce
  from decr_race_loses_increment [OF ks_laws set_ok w z s1 k s2] s1 k s2 show ?thesis by blast
qed

end
