(* ===== verification/Assembly.thy ===== *)
theory Assembly
  imports Config EventBus
begin

text \<open>
  The assembly of a server (\<open>cmd/stateflux/providers.go\<close>): its components in start order, which
  of them the election gate guards and with which permission, the scheduler instances that the
  configuration asks for, and the wrapper that makes a blocking loop a component.
\<close>

section \<open>The components\<close>

datatype serve_part =
    EventBusPart | WorkerPart | PullerPart | CollectorPart | CoherencePart | FactoryPart | SchedulerPart | ReconcilePart

text \<open>The permission a guarded component needs; \<open>None\<close>: it runs on every node.\<close>

definition part_permission :: "serve_part \<Rightarrow> permission option" where
  "part_permission p =
     (case p of
        EventBusPart \<Rightarrow> None | WorkerPart \<Rightarrow> None | PullerPart \<Rightarrow> None
      | CollectorPart \<Rightarrow> Some PermCollect
      | CoherencePart \<Rightarrow> Some PermSchedule | FactoryPart \<Rightarrow> Some PermSchedule
      | SchedulerPart \<Rightarrow> Some PermSchedule | ReconcilePart \<Rightarrow> Some PermSchedule)"

text \<open>\<open>provideComponents\<close>: the parts that exist, in start order.\<close>

definition serve_components :: "(serve_part \<Rightarrow> bool) \<Rightarrow> (serve_part \<times> permission option) list" where
  "serve_components present =
     map (\<lambda>p. (p, part_permission p))
       (filter present [EventBusPart, WorkerPart, PullerPart, CollectorPart, CoherencePart, FactoryPart,
          SchedulerPart, ReconcilePart])"

text \<open>\<open>provideNodeID\<close>.\<close>

definition serve_node_id :: "cluster_info \<Rightarrow> string" where
  "serve_node_id snap = (if in_node_id snap \<noteq> '''' then in_node_id snap else nd_id default_local_node)"

section \<open>Scheduler instances\<close>

datatype trigger_spec = TickEvery int | NotifyOr bool int | CoherenceEvery int | ManualOnly

definition scheduler_trigger :: "config \<Rightarrow> bool \<Rightarrow> string \<Rightarrow> trigger_spec" where
  "scheduler_trigger c has_notifier name =
     (if name = ''notify'' then
        NotifyOr has_notifier
          (let fallback = to_int64 (rc_tick_interval (cf_runtime c) * 10)
           in if fallback \<le> 0 then seconds 1 else fallback)
      else if name = ''coherence'' then CoherenceEvery (ch_sync_interval (cf_coherence c))
      else if name = ''manual'' then ManualOnly
      else TickEvery (rc_tick_interval (cf_runtime c)))"

definition scheduler_group :: "config \<Rightarrow> bool \<Rightarrow> (string \<times> trigger_spec) list" where
  "scheduler_group c has_notifier =
     (let names = rc_scheduler_triggers (cf_runtime c) in
      map (\<lambda>n. (n, scheduler_trigger c has_notifier n)) (if names = [] then [''tick''] else names))"

text \<open>What an instance does with the events it sees: its loop of \<open>Lifecycle\<close>.\<close>

definition run_trigger :: "trigger_spec \<Rightarrow> int option \<Rightarrow> trigger_event list \<Rightarrow> nat \<times> bool" where
  "run_trigger s revision es =
     (case s of
        TickEvery _ \<Rightarrow> tick_trigger es
      | NotifyOr has _ \<Rightarrow> notify_trigger has es
      | CoherenceEvery _ \<Rightarrow> coherence_trigger revision es
      | ManualOnly \<Rightarrow> manual_trigger True es)"

section \<open>Blocking loops as components\<close>

text \<open>The wrapper: is there a cancel function, and how many loops run. \<open>Start\<close> returns nil always.\<close>

record runner =
  rn_cancel :: bool
  rn_loops :: nat

definition new_runner :: runner where
  "new_runner = \<lparr>rn_cancel = False, rn_loops = 0\<rparr>"

definition runner_start :: "runner \<Rightarrow> runner" where
  "runner_start r = (if rn_cancel r then r else \<lparr>rn_cancel = True, rn_loops = rn_loops r + 1\<rparr>)"

definition runner_stop :: "runner \<Rightarrow> runner" where
  "runner_stop r = \<lparr>rn_cancel = False, rn_loops = (if rn_cancel r then rn_loops r - 1 else rn_loops r)\<rparr>"

fun runner_call :: "inner_call \<Rightarrow> runner \<Rightarrow> runner" where
  "runner_call (InnerStart ok) r = runner_start r"
| "runner_call InnerStop r = runner_stop r"

section \<open>The control plane runs in one place\<close>

fun starts_ok :: "gate_event \<Rightarrow> bool" where
  "starts_ok (GateStart view ok) = ok"
| "starts_ok (GateTick view ok) = ok"
| "starts_ok e = True"

lemma gate_step_starts:
  "gate_step self perm e g = (l, g') \<Longrightarrow> starts_ok e \<Longrightarrow> InnerStart False \<notin> set l"
  by (cases e) (auto simp: gate_sync_def gate_stop_inner_def split: if_splits)

lemma gate_run_starts:
  "gate_run self perm es g = (l, g') \<Longrightarrow> list_all starts_ok es \<Longrightarrow> InnerStart False \<notin> set l"
proof (induction es arbitrary: g l)
  case (Cons e es)
  then show ?case using gate_step_starts [of self perm e g] by (fastforce split: prod.splits)
qed simp

lemma runner_follows:
  assumes "well_paired b l b'" and "InnerStart False \<notin> set l"
    and "r = \<lparr>rn_cancel = b, rn_loops = (if b then 1 else 0)\<rparr>"
  shows "fold runner_call l r = \<lparr>rn_cancel = b', rn_loops = (if b' then 1 else 0)\<rparr>"
  using assms
proof (induction b l b' arbitrary: r rule: well_paired.induct)
  case (2 b ok l b')
  then have "ok" by (cases ok) auto
  then show ?case using 2 by (simp add: runner_start_def)
qed (simp_all add: runner_stop_def)

lemma elected_by_wire:
  assumes "distinct (map wn_id ws)" and "snap = info_from_proto (Some (rep, map Some ws))"
    and "perm = PermSchedule \<or> perm = PermCollect"
  shows "is_scheduler self (Some perm) (Some snap) \<longleftrightarrow>
    (\<exists>w. find (\<lambda>w. wn_leader w \<and> wn_id w \<noteq> '''') ws = Some w \<and> wn_id w = self \<and> role_primary \<in> set (wn_role w))"
proof -
  have v: "in_nodes snap = map (\<lambda>w. node_from_proto (Some w)) ws"
    "in_scheduler snap = (case find (\<lambda>w. wn_leader w \<and> wn_id w \<noteq> '''') ws of None \<Rightarrow> '''' | Some w \<Rightarrow> wn_id w)"
    using snapshot_roles [OF assms(2)] by blast+
  show ?thesis
  proof (cases "find (\<lambda>w. wn_leader w \<and> wn_id w \<noteq> '''') ws")
    case None
    then show ?thesis using v(2) by (simp add: is_scheduler_def)
  next
    case (Some w)
    then have w: "w \<in> set ws" "wn_id w \<noteq> ''''" by (auto dest: find_eq_SomeD)
    have "find (\<lambda>n. nd_id n = wn_id w) (map (\<lambda>w. node_from_proto (Some w)) vs) = Some (node_from_proto (Some w))"
      if "distinct (map wn_id vs)" "w \<in> set vs" for vs
      using that by (induction vs) (auto simp: node_from_proto_def)
    then have "info_node snap (wn_id w) = Some (node_from_proto (Some w))"
      using assms(1) w(1) by (simp add: info_node_def v(1))
    then show ?thesis
      using v(2) Some w(2) assms(3)
      by (auto simp: is_scheduler_def node_from_proto_def has_permission_def permissions_of_def split: if_splits)
  qed
qed


section \<open>One node, and there one loop\<close>

text \<open>The node a cluster answer puts in control: the first flagged leader, if its roles contain primary.\<close>

definition leads :: "wire_node list \<Rightarrow> string \<Rightarrow> bool" where
  "leads ws self =
     (case find (\<lambda>w. wn_leader w \<and> wn_id w \<noteq> '''') ws of
        None \<Rightarrow> False
      | Some w \<Rightarrow> wn_id w = self \<and> role_primary \<in> set (wn_role w))"

lemma leads_one: "leads ws a \<Longrightarrow> leads ws b \<Longrightarrow> a = b"
  by (auto simp: leads_def split: option.splits)

lemma guarded_permission:
  "(p, Some perm) \<in> set (serve_components present) \<Longrightarrow> perm = PermSchedule \<or> perm = PermCollect"
  by (auto simp: serve_components_def part_permission_def split: serve_part.splits)

lemma ticked_gate:
  assumes "distinct (map wn_id ws)" and "(p, Some perm) \<in> set (serve_components present)"
    and "gate_run self (Some perm) es new_gate = (log, g)" and "list_all starts_ok es" and "0 < gt_loops g"
    and "gate_step self (Some perm) (GateTick (Some (info_from_proto (Some (rep, map Some ws)))) True) g = (l, g')"
  shows "gt_running g' = leads ws self"
    and "fold runner_call (log @ l) new_runner =
      \<lparr>rn_cancel = gt_running g', rn_loops = (if gt_running g' then 1 else 0)\<rparr>"
proof -
  have "is_scheduler self (Some perm) (Some (info_from_proto (Some (rep, map Some ws)))) = leads ws self"
    using elected_by_wire [OF assms(1) refl guarded_permission [OF assms(2)], of self rep]
    by (auto simp: leads_def split: option.splits)
  then show "gt_running g' = leads ws self"
    using assms(5,6) by (auto simp: gate_sync_def split: if_splits)
  have ok: "gate_ok new_gate" by (simp add: gate_ok_def new_gate_def)
  note run = gate_run_paired [OF assms(3) ok]
  have "well_paired (gt_running new_gate) (log @ l) (gt_running g')"
    using well_paired_append run gate_step_paired [OF assms(6)] by blast
  moreover have "InnerStart False \<notin> set (log @ l)"
    using gate_run_starts [OF assms(3,4)] gate_step_starts [OF assms(6)] by simp
  ultimately show "fold runner_call (log @ l) new_runner =
      \<lparr>rn_cancel = gt_running g', rn_loops = (if gt_running g' then 1 else 0)\<rparr>"
    by (rule runner_follows) (simp add: new_gate_def new_runner_def)
qed

text \<open>
  C28. The control plane runs in one place, and there in one loop. Take two nodes of a cluster
  whose identifiers are distinct, a guarded component on each, and any histories of starts, ticks,
  stops and cancellations of their gates. Once both gates have seen the same answer of the cluster
  service, each component runs exactly if its node is the first flagged leader and has the role
  primary, so two different nodes never both run one; and the wrapper of the component runs one
  loop where it runs, and none elsewhere.
\<close>

theorem control_plane_exclusive:
  assumes "distinct (map wn_id ws)"
    and "(p, Some perm) \<in> set (serve_components here)" and "(q, Some perm') \<in> set (serve_components there)"
    and "list_all starts_ok es" and "gate_run a (Some perm) es new_gate = (log, g)" and "0 < gt_loops g"
    and "list_all starts_ok fs" and "gate_run b (Some perm') fs new_gate = (log', h)" and "0 < gt_loops h"
    and "gate_step a (Some perm) (GateTick (Some (info_from_proto (Some (rep, map Some ws)))) True) g = (l, g')"
    and "gate_step b (Some perm') (GateTick (Some (info_from_proto (Some (rep', map Some ws)))) True) h = (l', h')"
  shows "gt_running g' = leads ws a \<and> gt_running h' = leads ws b \<and>
    (gt_running g' \<and> gt_running h' \<longrightarrow> a = b) \<and>
    rn_loops (fold runner_call (log @ l) new_runner) = (if leads ws a then 1 else 0) \<and>
    rn_loops (fold runner_call (log' @ l') new_runner) = (if leads ws b then 1 else 0)"
  using ticked_gate [OF assms(1,2,5,4,6,10)] ticked_gate [OF assms(1,3,8,7,9,11)] leads_one [of ws a b] by simp

definition flagged_wire :: "string \<Rightarrow> bool \<Rightarrow> wire_node" where
  "flagged_wire i l = \<lparr>wn_id = i, wn_address = '''', wn_vpc = '''', wn_labels = [], wn_role = [role_primary],
     wn_online = True, wn_leader = l\<rparr>"

theorem control_plane_exclusive_witness:
  "rn_loops (fold runner_call ([InnerStart True] @ [InnerStop]) new_runner) = 0 \<and>
   rn_loops (fold runner_call ([] @ [InnerStart True]) new_runner) = 1"
proof -
  let ?ws = "[flagged_wire ''a'' False, flagged_wire ''b'' True]"
  let ?own = "\<lparr>in_nodes = [], in_node_id = ''a'', in_scheduler = ''a''\<rparr>"
  let ?off = "\<lparr>in_nodes = [], in_node_id = ''b'', in_scheduler = ''a''\<rparr>"
  let ?up = "\<lparr>gt_running = True, gt_cancel = True, gt_loops = 1\<rparr>"
  let ?down = "\<lparr>gt_running = False, gt_cancel = True, gt_loops = 1\<rparr>"
  have "distinct (map wn_id ?ws)" by (simp add: flagged_wire_def)
  moreover have "(SchedulerPart, Some PermSchedule) \<in> set (serve_components (\<lambda>_. True))"
    and "(CollectorPart, Some PermCollect) \<in> set (serve_components (\<lambda>_. True))"
    by (simp_all add: serve_components_def part_permission_def)
  moreover have "gate_run ''a'' (Some PermSchedule) [GateStart (Some ?own) True] new_gate = ([InnerStart True], ?up)"
    and "gate_run ''b'' (Some PermCollect) [GateStart (Some ?off) True] new_gate = ([], ?down)"
    by (simp_all add: new_gate_def gate_sync_def is_scheduler_def info_node_def)
  moreover have "gate_step ''a'' (Some PermSchedule) (GateTick (Some (info_from_proto (Some (''a'', map Some ?ws)))) True) ?up
      = ([InnerStop], ?down)"
    and "gate_step ''b'' (Some PermCollect) (GateTick (Some (info_from_proto (Some (''b'', map Some ?ws)))) True) ?down
      = ([InnerStart True], ?up)"
    by (code_simp, code_simp)
  ultimately show ?thesis
    using control_plane_exclusive [of ?ws SchedulerPart PermSchedule "\<lambda>_. True" CollectorPart PermCollect "\<lambda>_. True"
        "[GateStart (Some ?own) True]" "''a''" "[InnerStart True]" ?up
        "[GateStart (Some ?off) True]" "''b''" "[]" ?down "''a''" "[InnerStop]" ?down "''b''" "[InnerStart True]" ?up]
    by (simp add: leads_def flagged_wire_def)
qed

end
