(* ===== verification/RpcChannel.thy ===== *)
theory RpcChannel
  imports Messages EventBus GoBinary
begin

text \<open>
  The RPC channels (\<open>internal/eventbus/channel/rpc\<close>) and the connection pool under them
  (\<open>pkg/transport\<close>). A result stream is a state machine: callers register a waiter under the key
  of their event, send, and wait; a loop receives acknowledgements; either side may fail or close
  at any moment. Every step is what one goroutine does while it holds the lock. The protobuf
  codecs and the remote procedures are arguments.
\<close>

section \<open>The connection pool\<close>

record dialer =
  dl_conns :: "(string \<times> nat) list"
  dl_closed :: bool

datatype dial_error = DialNoTarget | DialerClosed | DialFailed string

definition new_dialer :: dialer where
  "new_dialer = \<lparr>dl_conns = [], dl_closed = False\<rparr>"

text \<open>\<open>Conn\<close>: \<open>fresh\<close> is the result of \<open>grpc.NewClient\<close>.\<close>

definition dialer_conn :: "string \<Rightarrow> string + nat \<Rightarrow> dialer \<Rightarrow> (dial_error + nat) \<times> dialer" where
  "dialer_conn address fresh d =
     (if address = '''' then (Inl DialNoTarget, d)
      else if dl_closed d then (Inl DialerClosed, d)
      else case map_of (dl_conns d) address of
          Some c \<Rightarrow> (Inr c, d)
        | None \<Rightarrow>
            (case fresh of
               Inl e \<Rightarrow> (Inl (DialFailed e), d)
             | Inr c \<Rightarrow> (Inr c, d\<lparr>dl_conns := AList.update address c (dl_conns d)\<rparr>)))"

text \<open>\<open>Close\<close>: the first error of closing a connection; \<open>close_err c\<close> is the one of \<open>c\<close>.\<close>

definition dialer_close :: "(nat \<Rightarrow> string option) \<Rightarrow> dialer \<Rightarrow> string option \<times> dialer" where
  "dialer_close close_err d =
     (if dl_closed d then (None, d)
      else (case List.map_filter (\<lambda>(_, c). close_err c) (dl_conns d) of [] \<Rightarrow> None | e # _ \<Rightarrow> Some e,
            \<lparr>dl_conns = [], dl_closed = True\<rparr>))"

section \<open>Keys\<close>

definition parse_key :: "string \<Rightarrow> int" where
  "parse_key s = (if s = '''' then 0 else case parse_int64 s of None \<Rightarrow> 0 | Some n \<Rightarrow> n)"

definition ack_key :: "int \<Rightarrow> int \<Rightarrow> string" where
  "ack_key i a = show_int i @ '':'' @ show_int a"

definition event_key :: "result_event \<Rightarrow> string" where
  "event_key ev = ack_key (re_task_id ev) (re_attempt ev)"

section \<open>One result stream\<close>

text \<open>The buffered channel a caller waits on: empty, with an acknowledgement, or closed.\<close>

datatype ack_slot = SlotEmpty | SlotAck result_ack | SlotClosed

text \<open>What \<open>send\<close> returns: an error, or an acknowledgement, which is nil for a closed channel.\<close>

datatype send_phase = Registered | Waiting | Returned "string + result_ack option"

record send_call =
  sd_event :: result_event
  sd_slot :: ack_slot
  sd_phase :: send_phase

record stream_conn =
  sn_waiters :: "(string \<times> nat) list"
  sn_closed :: bool
  sn_recv_err :: "string option"
  sn_receiving :: bool
  sn_calls :: "nat \<Rightarrow> send_call option"
  sn_next :: nat

definition new_conn :: stream_conn where
  "new_conn = \<lparr>sn_waiters = [], sn_closed = False, sn_recv_err = None, sn_receiving = True,
     sn_calls = (\<lambda>_. None), sn_next = 0\<rparr>"

datatype conn_event =
    SendBegin result_event
  | SendWire nat "string option"
  | SendWake nat
  | SendCancel nat string
  | RecvAck result_ack
  | RecvError string
  | ConnClose

definition set_call :: "nat \<Rightarrow> send_call \<Rightarrow> stream_conn \<Rightarrow> stream_conn" where
  "set_call i q c = c\<lparr>sn_calls := (sn_calls c)(i \<mapsto> q)\<rparr>"

text \<open>The lock-protected first part of \<open>send\<close>.\<close>

definition send_begin :: "result_event \<Rightarrow> stream_conn \<Rightarrow> stream_conn" where
  "send_begin ev c =
     (let i = sn_next c; c1 = c\<lparr>sn_next := Suc i\<rparr> in
      if sn_closed c then
        set_call i \<lparr>sd_event = ev, sd_slot = SlotEmpty, sd_phase = Returned (Inl
            (case sn_recv_err c of Some e \<Rightarrow> e | None \<Rightarrow> ''eventbus/channel/rpc: stream closed''))\<rparr> c1
      else
        set_call i \<lparr>sd_event = ev, sd_slot = SlotEmpty, sd_phase = Registered\<rparr>
          (c1\<lparr>sn_waiters := AList.update (event_key ev) i (sn_waiters c)\<rparr>))"

definition remove_waiter :: "string \<Rightarrow> stream_conn \<Rightarrow> stream_conn" where
  "remove_waiter k c = c\<lparr>sn_waiters := AList.delete k (sn_waiters c)\<rparr>"

text \<open>Every waiter's channel is closed and the waiters are forgotten.\<close>

definition close_waiters :: "stream_conn \<Rightarrow> stream_conn" where
  "close_waiters c =
     c\<lparr>sn_waiters := [], sn_calls := (\<lambda>i. if i \<in> snd ` set (sn_waiters c)
         then map_option (sd_slot_update (\<lambda>_. SlotClosed)) (sn_calls c i) else sn_calls c i)\<rparr>"

definition conn_close :: "stream_conn \<Rightarrow> stream_conn" where
  "conn_close c = (if sn_closed c then c else close_waiters (c\<lparr>sn_closed := True\<rparr>))"

text \<open>A turn of \<open>recvLoop\<close>.\<close>

definition recv_ack :: "result_ack \<Rightarrow> stream_conn \<Rightarrow> stream_conn" where
  "recv_ack a c =
     (let k = ack_key (ra_task_id a) (ra_attempt a) in
      case map_of (sn_waiters c) k of
        None \<Rightarrow> c
      | Some i \<Rightarrow>
          (case sn_calls c i of
             None \<Rightarrow> c
           | Some q \<Rightarrow> set_call i (q\<lparr>sd_slot := SlotAck a\<rparr>) (remove_waiter k c)))"

definition recv_error :: "string \<Rightarrow> stream_conn \<Rightarrow> stream_conn" where
  "recv_error e c = close_waiters (c\<lparr>sn_closed := True, sn_recv_err := Some e, sn_receiving := False\<rparr>)"

text \<open>One step of the stream; \<open>None\<close>: the step is not possible.\<close>

fun conn_step :: "conn_event \<Rightarrow> stream_conn \<Rightarrow> stream_conn option" where
  "conn_step (SendBegin ev) c = Some (send_begin ev c)"
| "conn_step (SendWire i err) c =
     (case sn_calls c i of
        None \<Rightarrow> None
      | Some q \<Rightarrow>
          if sd_phase q \<noteq> Registered then None
          else Some (case err of
              None \<Rightarrow> set_call i (q\<lparr>sd_phase := Waiting\<rparr>) c
            | Some e \<Rightarrow> set_call i (q\<lparr>sd_phase := Returned (Inl e)\<rparr>) (remove_waiter (event_key (sd_event q)) c)))"
| "conn_step (SendWake i) c =
     (case sn_calls c i of
        None \<Rightarrow> None
      | Some q \<Rightarrow>
          if sd_phase q \<noteq> Waiting then None
          else (case sd_slot q of
              SlotEmpty \<Rightarrow> None
            | SlotAck a \<Rightarrow> Some (set_call i (q\<lparr>sd_phase := Returned (Inr (Some a))\<rparr>) c)
            | SlotClosed \<Rightarrow> Some (set_call i (q\<lparr>sd_phase := Returned (Inr None)\<rparr>) c)))"
| "conn_step (SendCancel i e) c =
     (case sn_calls c i of
        None \<Rightarrow> None
      | Some q \<Rightarrow>
          if sd_phase q \<noteq> Waiting then None
          else Some (set_call i (q\<lparr>sd_phase := Returned (Inl e)\<rparr>) (remove_waiter (event_key (sd_event q)) c)))"
| "conn_step (RecvAck a) c = (if sn_receiving c then Some (recv_ack a c) else None)"
| "conn_step (RecvError e) c = (if sn_receiving c then Some (recv_error e c) else None)"
| "conn_step ConnClose c = Some (conn_close c)"

fun conn_run :: "conn_event list \<Rightarrow> stream_conn \<Rightarrow> stream_conn option" where
  "conn_run [] c = Some c"
| "conn_run (e # es) c = Option.bind (conn_step e c) (conn_run es)"


section \<open>What a stream guarantees\<close>

abbreviation in_flight :: "send_call \<Rightarrow> bool" where
  "in_flight q \<equiv> sd_phase q = Registered \<or> sd_phase q = Waiting"

abbreviation ack_matches :: "result_ack \<Rightarrow> result_event \<Rightarrow> bool" where
  "ack_matches a ev \<equiv> ra_task_id a = re_task_id ev \<and> ra_attempt a = re_attempt ev"

lemma ack_key_event: "ack_key (ra_task_id a) (ra_attempt a) = event_key ev \<longleftrightarrow> ack_matches a ev"
proof
  assume "ack_key (ra_task_id a) (ra_attempt a) = event_key ev"
  then have "show_int (ra_task_id a) = show_int (re_task_id ev) \<and> show_int (ra_attempt a) = show_int (re_attempt ev)"
    unfolding ack_key_def event_key_def
    using append_sep_inj [OF show_int_no_colon show_int_no_colon] by simp
  then show "ack_matches a ev" using show_int_inj by blast
qed (simp add: ack_key_def event_key_def)

text \<open>A call's slot and answer; \<open>P i a\<close>: the acknowledgement \<open>a\<close> may be in the slot of call \<open>i\<close>.\<close>

definition call_ok :: "(nat \<Rightarrow> result_ack \<Rightarrow> bool) \<Rightarrow> bool \<Rightarrow> nat \<Rightarrow> send_call \<Rightarrow> bool" where
  "call_ok P closed i q \<longleftrightarrow>
     (\<forall>a. sd_slot q = SlotAck a \<longrightarrow> P i a \<and> ack_matches a (sd_event q)) \<and>
     (sd_slot q = SlotClosed \<longrightarrow> closed) \<and>
     (\<forall>a. sd_phase q = Returned (Inr (Some a)) \<longrightarrow> sd_slot q = SlotAck a) \<and>
     (sd_phase q = Returned (Inr None) \<longrightarrow> sd_slot q = SlotClosed)"

definition waiters_ok :: "stream_conn \<Rightarrow> bool" where
  "waiters_ok c \<longleftrightarrow>
     distinct (map fst (sn_waiters c)) \<and> (sn_closed c \<longrightarrow> sn_waiters c = []) \<and>
     (\<forall>k i. map_of (sn_waiters c) k = Some i \<longrightarrow>
        (\<exists>q. sn_calls c i = Some q \<and> k = event_key (sd_event q) \<and> sd_slot q = SlotEmpty \<and> in_flight q))"

definition calls_ok :: "(nat \<Rightarrow> result_ack \<Rightarrow> bool) \<Rightarrow> stream_conn \<Rightarrow> bool" where
  "calls_ok P c \<longleftrightarrow> (\<forall>i q. sn_calls c i = Some q \<longrightarrow> i < sn_next c \<and> call_ok P (sn_closed c) i q)"

text \<open>A caller without an answer is a waiter, or another call was made for the same event.\<close>

definition nobody_forgotten :: "stream_conn \<Rightarrow> bool" where
  "nobody_forgotten c \<longleftrightarrow>
     (\<forall>i q. sn_calls c i = Some q \<and> sd_slot q = SlotEmpty \<and> in_flight q \<longrightarrow>
        map_of (sn_waiters c) (event_key (sd_event q)) = Some i \<or>
        (\<exists>j r. j \<noteq> i \<and> sn_calls c j = Some r \<and> event_key (sd_event r) = event_key (sd_event q)))"

definition conn_ok :: "(nat \<Rightarrow> result_ack \<Rightarrow> bool) \<Rightarrow> stream_conn \<Rightarrow> bool" where
  "conn_ok P c \<longleftrightarrow> waiters_ok c \<and> calls_ok P c \<and> nobody_forgotten c"

lemmas conn_ok_defs = conn_ok_def waiters_ok_def calls_ok_def nobody_forgotten_def

lemma conn_ok_new: "conn_ok P new_conn"
  by (simp add: conn_ok_defs new_conn_def)

lemma waiter_call:
  assumes "conn_ok P c" and "map_of (sn_waiters c) k = Some i"
  shows "\<exists>q. sn_calls c i = Some q \<and> k = event_key (sd_event q) \<and> sd_slot q = SlotEmpty \<and> in_flight q"
  using assms by (simp add: conn_ok_def waiters_ok_def)

lemma forgotten:
  assumes "nobody_forgotten c" and "sn_calls c i = Some q" "sd_slot q = SlotEmpty" "in_flight q"
    and "map_of (sn_waiters c) (event_key (sd_event q)) \<noteq> Some i"
  shows "\<exists>j r. j \<noteq> i \<and> sn_calls c j = Some r \<and> event_key (sd_event r) = event_key (sd_event q)"
  using assms unfolding nobody_forgotten_def by blast

lemma nobody_forgottenI:
  assumes "\<And>i q. sn_calls c i = Some q \<Longrightarrow> sd_slot q = SlotEmpty \<Longrightarrow> in_flight q \<Longrightarrow>
      map_of (sn_waiters c) (event_key (sd_event q)) \<noteq> Some i \<Longrightarrow>
      \<exists>j r. j \<noteq> i \<and> sn_calls c j = Some r \<and> event_key (sd_event r) = event_key (sd_event q)"
  shows "nobody_forgotten c"
  using assms unfolding nobody_forgotten_def by blast

lemma waiters_okI:
  assumes "distinct (map fst (sn_waiters c))" and "sn_closed c \<Longrightarrow> sn_waiters c = []"
    and "\<And>k i. map_of (sn_waiters c) k = Some i \<Longrightarrow>
      \<exists>q. sn_calls c i = Some q \<and> k = event_key (sd_event q) \<and> sd_slot q = SlotEmpty \<and> in_flight q"
  shows "waiters_ok c"
  using assms unfolding waiters_ok_def by blast

lemma waiters_distinct: "conn_ok P c \<Longrightarrow> distinct (map fst (sn_waiters c)) \<and> (sn_closed c \<longrightarrow> sn_waiters c = [])"
  by (simp add: conn_ok_def waiters_ok_def)

text \<open>Only the phase of a call changes.\<close>

lemma conn_ok_phase:
  assumes ok: "conn_ok P c" and q: "sn_calls c i = Some q"
    and q': "sd_event q' = sd_event q" "sd_slot q' = sd_slot q" "in_flight q' \<or> sd_slot q \<noteq> SlotEmpty" "in_flight q"
    and c: "call_ok P (sn_closed c) i q'"
  shows "conn_ok P (set_call i q' c)"
proof -
  have "waiters_ok (set_call i q' c)"
  proof (rule waiters_okI)
    fix k j
    assume k: "map_of (sn_waiters (set_call i q' c)) k = Some j"
    then obtain r where "sn_calls c j = Some r" "k = event_key (sd_event r)" "sd_slot r = SlotEmpty" "in_flight r"
      using waiter_call [OF ok, of k j] by (auto simp: set_call_def)
    then show "\<exists>r. sn_calls (set_call i q' c) j = Some r \<and> k = event_key (sd_event r) \<and> sd_slot r = SlotEmpty \<and> in_flight r"
      using q q' by (cases "j = i") (auto simp: set_call_def)
  qed (use waiters_distinct [OF ok] in \<open>auto simp: set_call_def\<close>)
  moreover have "calls_ok P (set_call i q' c)"
    using ok q c by (auto simp: conn_ok_def calls_ok_def set_call_def)
  moreover have "nobody_forgotten (set_call i q' c)"
  proof (rule nobody_forgottenI)
    fix j r
    assume r: "sn_calls (set_call i q' c) j = Some r" "sd_slot r = SlotEmpty" "in_flight r"
      "map_of (sn_waiters (set_call i q' c)) (event_key (sd_event r)) \<noteq> Some j"
    obtain r0 where r0: "sn_calls c j = Some r0" "sd_event r0 = sd_event r" "sd_slot r0 = SlotEmpty" "in_flight r0"
      using r q q' by (auto simp: set_call_def split: if_splits)
    obtain k s where "k \<noteq> j" "sn_calls c k = Some s" "event_key (sd_event s) = event_key (sd_event r)"
      using forgotten [of c j r0] ok r0 r(4) by (auto simp: conn_ok_def set_call_def)
    then show "\<exists>k s. k \<noteq> j \<and> sn_calls (set_call i q' c) k = Some s \<and> event_key (sd_event s) = event_key (sd_event r)"
      using q q'(1) by (intro exI [of _ k], cases "k = i") (auto simp: set_call_def)
  qed
  ultimately show ?thesis by (simp add: conn_ok_def)
qed


text \<open>A call leaves the waiters: its slot is filled, or it returns.\<close>

lemma conn_ok_leave:
  assumes ok: "conn_ok P c" and q: "sn_calls c i = Some q"
    and q': "sd_event q' = sd_event q" "sd_slot q' \<noteq> SlotEmpty \<or> \<not> in_flight q'"
    and c: "call_ok P (sn_closed c) i q'"
  shows "conn_ok P (set_call i q' (remove_waiter (event_key (sd_event q)) c))" (is "conn_ok P ?d")
proof -
  have "waiters_ok ?d"
  proof (rule waiters_okI)
    fix k j
    assume "map_of (sn_waiters ?d) k = Some j"
    then have k: "map_of (sn_waiters c) k = Some j" "k \<noteq> event_key (sd_event q)"
      by (auto simp: set_call_def remove_waiter_def AList.delete_conv' split: if_splits)
    obtain r where r: "sn_calls c j = Some r" "k = event_key (sd_event r)" "sd_slot r = SlotEmpty" "in_flight r"
      using waiter_call [OF ok k(1)] by blast
    then have "j \<noteq> i" using k(2) q by auto
    then show "\<exists>r. sn_calls ?d j = Some r \<and> k = event_key (sd_event r) \<and> sd_slot r = SlotEmpty \<and> in_flight r"
      using r by (auto simp: set_call_def remove_waiter_def)
  qed (use waiters_distinct [OF ok] in \<open>auto simp: set_call_def remove_waiter_def AList.distinct_delete\<close>)
  moreover have "calls_ok P ?d"
    using ok q c by (auto simp: conn_ok_def calls_ok_def set_call_def remove_waiter_def)
  moreover have "nobody_forgotten ?d"
  proof (rule nobody_forgottenI)
    fix j r
    assume r: "sn_calls ?d j = Some r" "sd_slot r = SlotEmpty" "in_flight r"
      "map_of (sn_waiters ?d) (event_key (sd_event r)) \<noteq> Some j"
    then have j: "j \<noteq> i" "sn_calls c j = Some r" using q' by (auto simp: set_call_def remove_waiter_def split: if_splits)
    show "\<exists>k s. k \<noteq> j \<and> sn_calls ?d k = Some s \<and> event_key (sd_event s) = event_key (sd_event r)"
    proof (cases "event_key (sd_event r) = event_key (sd_event q)")
      case True
      then show ?thesis using j(1) q'(1) by (intro exI [of _ i]) (auto simp: set_call_def)
    next
      case False
      then have "map_of (sn_waiters c) (event_key (sd_event r)) \<noteq> Some j"
        using r(4) by (simp add: set_call_def remove_waiter_def AList.delete_conv')
      then obtain k s where "k \<noteq> j" "sn_calls c k = Some s" "event_key (sd_event s) = event_key (sd_event r)"
        using forgotten [of c j r] ok j(2) r by (auto simp: conn_ok_def)
      then show ?thesis
        using q q'(1) by (intro exI [of _ k], cases "k = i") (auto simp: set_call_def remove_waiter_def)
    qed
  qed
  ultimately show ?thesis by (simp add: conn_ok_def)
qed

lemma conn_ok_begin:
  assumes ok: "conn_ok P c"
  shows "conn_ok P (send_begin ev c)" (is "conn_ok P ?d")
proof -
  have fresh: "sn_calls c (sn_next c) = None"
    using ok by (cases "sn_calls c (sn_next c)") (auto simp: conn_ok_def calls_ok_def)
  have old: "sn_calls ?d j = sn_calls c j" if "j \<noteq> sn_next c" for j
    using that by (simp add: send_begin_def set_call_def Let_def)
  have new: "\<exists>q. sn_calls ?d (sn_next c) = Some q \<and> sd_event q = ev \<and> sd_slot q = SlotEmpty \<and>
      (if sn_closed c then \<not> in_flight q else in_flight q) \<and> call_ok P (sn_closed c) (sn_next c) q"
    by (simp add: send_begin_def set_call_def Let_def call_ok_def)
  have misc: "sn_closed ?d = sn_closed c" "sn_next ?d = Suc (sn_next c)"
    "sn_waiters ?d = (if sn_closed c then sn_waiters c else AList.update (event_key ev) (sn_next c) (sn_waiters c))"
    by (simp_all add: send_begin_def set_call_def Let_def)
  have "waiters_ok ?d"
  proof (rule waiters_okI)
    fix k j
    assume k: "map_of (sn_waiters ?d) k = Some j"
    show "\<exists>r. sn_calls ?d j = Some r \<and> k = event_key (sd_event r) \<and> sd_slot r = SlotEmpty \<and> in_flight r"
    proof (cases "sn_closed c \<or> k \<noteq> event_key ev")
      case True
      then have c: "map_of (sn_waiters c) k = Some j"
        using k misc(3) by (auto simp: AList.update_conv' split: if_splits)
      then have "j \<noteq> sn_next c" using waiter_call [OF ok c] fresh by auto
      then show ?thesis using waiter_call [OF ok c] old by simp
    next
      case False
      then show ?thesis using k misc(3) new by (auto simp: AList.update_conv')
    qed
  qed (use waiters_distinct [OF ok] misc in \<open>auto simp: AList.distinct_update\<close>)
  moreover have "calls_ok P ?d"
    unfolding calls_ok_def
  proof (intro allI impI)
    fix j q
    assume "sn_calls ?d j = Some q"
    then show "j < sn_next ?d \<and> call_ok P (sn_closed ?d) j q"
      using ok new old misc by (cases "j = sn_next c") (auto simp: conn_ok_def calls_ok_def less_Suc_eq)
  qed
  moreover have "nobody_forgotten ?d"
  proof (rule nobody_forgottenI)
    fix j r
    assume r: "sn_calls ?d j = Some r" "sd_slot r = SlotEmpty" "in_flight r"
      "map_of (sn_waiters ?d) (event_key (sd_event r)) \<noteq> Some j"
    show "\<exists>k s. k \<noteq> j \<and> sn_calls ?d k = Some s \<and> event_key (sd_event s) = event_key (sd_event r)"
    proof (cases "j = sn_next c")
      case True
      then show ?thesis using r new misc(3) by (auto simp: AList.update_conv' split: if_splits)
    next
      case False
      then have j: "sn_calls c j = Some r" using r(1) old by simp
      show ?thesis
      proof (cases "map_of (sn_waiters c) (event_key (sd_event r)) = Some j")
        case True
        then have "event_key (sd_event r) = event_key ev"
          using r(4) misc(3) by (auto simp: AList.update_conv' split: if_splits)
        then show ?thesis using new False by auto
      next
        case out: False
        obtain k s where "k \<noteq> j" "sn_calls c k = Some s" "event_key (sd_event s) = event_key (sd_event r)"
          using forgotten [of c j r] ok j r(2,3) out by (auto simp: conn_ok_def)
        moreover have "k \<noteq> sn_next c" using calculation fresh by auto
        ultimately show ?thesis using old by metis
      qed
    qed
  qed
  ultimately show ?thesis by (simp add: conn_ok_def)
qed

lemma call_phase:
  assumes "conn_ok P c" and "sn_calls c i = Some q"
  shows "call_ok P (sn_closed c) i q"
  using assms by (simp add: conn_ok_def calls_ok_def)

lemma conn_ok_close:
  assumes ok: "conn_ok P c" and d: "sn_closed d" "sn_waiters d = sn_waiters c" "sn_calls d = sn_calls c" "sn_next d = sn_next c"
  shows "conn_ok P (close_waiters d)"
proof -
  have w: "i \<in> snd ` set (sn_waiters c) \<longleftrightarrow> (\<exists>k. map_of (sn_waiters c) k = Some i)" for i
    using waiters_distinct [OF ok] by (force simp: map_of_eq_Some_iff)
  have call: "call_ok P True i q" if "sn_calls (close_waiters d) i = Some q" for i q
  proof (cases "i \<in> snd ` set (sn_waiters c)")
    case True
    then obtain q0 where "sn_calls c i = Some q0" "in_flight q0"
      using waiter_call [OF ok] unfolding w by blast
    then have "q = q0\<lparr>sd_slot := SlotClosed\<rparr>" "in_flight q0"
      using that True d by (auto simp: close_waiters_def)
    then show ?thesis by (auto simp: call_ok_def)
  next
    case False
    then have "sn_calls c i = Some q" using that d by (simp add: close_waiters_def)
    from call_phase [OF ok this] show ?thesis unfolding call_ok_def by blast
  qed
  have "calls_ok P (close_waiters d)"
    unfolding calls_ok_def
  proof (intro allI impI)
    fix i q
    assume q: "sn_calls (close_waiters d) i = Some q"
    then have "sn_calls c i \<noteq> None" using d by (auto simp: close_waiters_def split: if_splits)
    then have "i < sn_next c" using ok by (auto simp: conn_ok_def calls_ok_def)
    then show "i < sn_next (close_waiters d) \<and> call_ok P (sn_closed (close_waiters d)) i q"
      using call [OF q] d by (simp add: close_waiters_def)
  qed
  moreover have "nobody_forgotten (close_waiters d)"
  proof (rule nobody_forgottenI)
    fix j r
    assume r: "sn_calls (close_waiters d) j = Some r" "sd_slot r = SlotEmpty" "in_flight r"
    then have j: "sn_calls c j = Some r" "j \<notin> snd ` set (sn_waiters c)"
      using d by (auto simp: close_waiters_def split: if_splits)
    then have "map_of (sn_waiters c) (event_key (sd_event r)) \<noteq> Some j" unfolding w by blast
    then obtain k s where "k \<noteq> j" "sn_calls c k = Some s" "event_key (sd_event s) = event_key (sd_event r)"
      using forgotten [of c j r] ok j(1) r(2,3) by (auto simp: conn_ok_def)
    then show "\<exists>k s. k \<noteq> j \<and> sn_calls (close_waiters d) k = Some s \<and> event_key (sd_event s) = event_key (sd_event r)"
      using d by (intro exI [of _ k]) (auto simp: close_waiters_def)
  qed
  ultimately show ?thesis by (simp add: conn_ok_def waiters_ok_def close_waiters_def)
qed


lemma conn_step_ok:
  assumes ok: "conn_ok P c" and step: "conn_step e c = Some c'" and acks: "\<And>a i. e = RecvAck a \<Longrightarrow> P i a"
  shows "conn_ok P c'"
proof (cases e)
  case (SendBegin ev)
  then show ?thesis using step conn_ok_begin [OF ok, of ev] by simp
next
  case (SendWire i err)
  then obtain q where q: "sn_calls c i = Some q" "sd_phase q = Registered"
    using step by (auto split: option.splits if_splits)
  show ?thesis
  proof (cases err)
    case None
    then show ?thesis
      using SendWire step q call_phase [OF ok q(1)]
        conn_ok_phase [OF ok q(1), of "q\<lparr>sd_phase := Waiting\<rparr>"] by (auto simp: call_ok_def)
  next
    case (Some m)
    then show ?thesis
      using SendWire step q call_phase [OF ok q(1)]
        conn_ok_leave [OF ok q(1), of "q\<lparr>sd_phase := Returned (Inl m)\<rparr>"] by (auto simp: call_ok_def)
  qed
next
  case (SendWake i)
  then obtain q where q: "sn_calls c i = Some q" "sd_phase q = Waiting" "sd_slot q \<noteq> SlotEmpty"
    using step by (auto split: option.splits if_splits ack_slot.splits)
  then show ?thesis
    using SendWake step call_phase [OF ok q(1)]
      conn_ok_phase [OF ok q(1), of "q\<lparr>sd_phase := Returned (Inr (Some a))\<rparr>" for a]
      conn_ok_phase [OF ok q(1), of "q\<lparr>sd_phase := Returned (Inr None)\<rparr>"]
    by (auto simp: call_ok_def split: ack_slot.splits)
next
  case (SendCancel i m)
  then obtain q where q: "sn_calls c i = Some q" "sd_phase q = Waiting"
    using step by (auto split: option.splits if_splits)
  then show ?thesis
    using SendCancel step call_phase [OF ok q(1)]
      conn_ok_leave [OF ok q(1), of "q\<lparr>sd_phase := Returned (Inl m)\<rparr>"] by (auto simp: call_ok_def)
next
  case (RecvAck a)
  then have c': "c' = recv_ack a c" using step by (auto split: if_splits)
  show ?thesis
  proof (cases "map_of (sn_waiters c) (ack_key (ra_task_id a) (ra_attempt a))")
    case None
    then show ?thesis using c' ok by (simp add: recv_ack_def)
  next
    case (Some i)
    obtain q where q: "sn_calls c i = Some q" "ack_key (ra_task_id a) (ra_attempt a) = event_key (sd_event q)" "in_flight q"
      using waiter_call [OF ok Some] by blast
    have "c' = set_call i (q\<lparr>sd_slot := SlotAck a\<rparr>) (remove_waiter (event_key (sd_event q)) c)"
      using c' Some q by (simp add: recv_ack_def)
    moreover have "call_ok P (sn_closed c) i (q\<lparr>sd_slot := SlotAck a\<rparr>)"
      using acks [OF RecvAck] q(2,3) ack_key_event [of a "sd_event q"] by (auto simp: call_ok_def)
    ultimately show ?thesis using conn_ok_leave [OF ok q(1)] by simp
  qed
next
  case (RecvError m)
  then have "c' = recv_error m c" using step by (auto split: if_splits)
  then show ?thesis
    using conn_ok_close [OF ok, of "c\<lparr>sn_closed := True, sn_recv_err := Some m, sn_receiving := False\<rparr>"]
    by (simp add: recv_error_def)
next
  case ConnClose
  then show ?thesis
    using step ok conn_ok_close [OF ok, of "c\<lparr>sn_closed := True\<rparr>"] by (auto simp: conn_close_def split: if_splits)
qed

lemma conn_run_ok:
  assumes "conn_ok P c" and "conn_run es c = Some c'" and "\<And>a i. RecvAck a \<in> set es \<Longrightarrow> P i a"
  shows "conn_ok P c'"
  using assms
proof (induction es arbitrary: c)
  case (Cons e es)
  then obtain c1 where c1: "conn_step e c = Some c1" "conn_run es c1 = Some c'" by (auto simp: bind_eq_Some_conv)
  have "conn_ok P c1" using conn_step_ok [OF Cons.prems(1) c1(1)] Cons.prems(3) by auto
  then show ?case using Cons.IH c1(2) Cons.prems(3) by simp
qed simp


section \<open>The stream channel\<close>

datatype rpc_error =
    RpcNoTarget | RpcDecode string | RpcStreamClosed | RpcDial dial_error | RpcOpen string
  | RpcSend string | RpcEncode string | RpcRemote string

text \<open>The protobuf codecs; a nil acknowledgement has an encoding too.\<close>

record rpc_codec =
  rx_dec_event :: "byte list \<Rightarrow> string + result_event"
  rx_enc_event :: "result_event \<Rightarrow> string + byte list"
  rx_enc_ack :: "result_ack option \<Rightarrow> string + byte list"
  rx_dec_message :: "byte list \<Rightarrow> string + task_message"

text \<open>\<open>Stream\<close>: the connections by address, and all connections ever opened.\<close>

record rpc_stream =
  rs_streams :: "(string \<times> nat) list"
  rs_closed :: bool
  rs_conns :: "nat \<Rightarrow> stream_conn"
  rs_next :: nat

definition new_rpc_stream :: rpc_stream where
  "new_rpc_stream = \<lparr>rs_streams = [], rs_closed = False, rs_conns = (\<lambda>_. new_conn), rs_next = 0\<rparr>"

definition rpc_open :: "string \<Rightarrow> dial_error + nat \<Rightarrow> string option \<Rightarrow> rpc_stream \<Rightarrow> (rpc_error + nat) \<times> rpc_stream" where
  "rpc_open address dial open_err s =
     (case dial of
        Inl e \<Rightarrow> (Inl (RpcDial e), s)
      | Inr _ \<Rightarrow>
          (case open_err of
             Some e \<Rightarrow> (Inl (RpcOpen e), s)
           | None \<Rightarrow>
               (let i = rs_next s in
                (Inr i, s\<lparr>rs_streams := AList.update address i (rs_streams s),
                  rs_conns := (rs_conns s)(i := new_conn), rs_next := Suc i\<rparr>))))"

definition rpc_conn :: "string \<Rightarrow> dial_error + nat \<Rightarrow> string option \<Rightarrow> rpc_stream \<Rightarrow> (rpc_error + nat) \<times> rpc_stream" where
  "rpc_conn address dial open_err s =
     (if rs_closed s then (Inl RpcStreamClosed, s)
      else case map_of (rs_streams s) address of
          None \<Rightarrow> rpc_open address dial open_err s
        | Some i \<Rightarrow> if \<not> sn_closed (rs_conns s i) then (Inr i, s) else rpc_open address dial open_err s)"

definition rpc_drop :: "string \<Rightarrow> nat \<Rightarrow> rpc_stream \<Rightarrow> rpc_stream" where
  "rpc_drop address i s =
     s\<lparr>rs_conns := (rs_conns s)(i := conn_close (rs_conns s i)),
       rs_streams := (if map_of (rs_streams s) address = Some i then AList.delete address (rs_streams s)
                      else rs_streams s)\<rparr>"

definition rpc_close :: "rpc_stream \<Rightarrow> rpc_stream" where
  "rpc_close s =
     (if rs_closed s then s
      else s\<lparr>rs_closed := True, rs_streams := [],
        rs_conns := (\<lambda>i. if i \<in> snd ` set (rs_streams s) then conn_close (rs_conns s i) else rs_conns s i)\<rparr>)"

definition zero_event :: result_event where
  "zero_event = \<lparr>re_task_id = 0, re_attempt = 0, re_outcome = 0, re_result = NoContent, re_error = '''',
     re_source = '''', re_trace = [], re_finished_ms = 0, re_operator = '''', re_type = ''''\<rparr>"

text \<open>The event of an envelope; an unset identifier or attempt is taken from the envelope.\<close>

definition stream_event :: "rpc_codec \<Rightarrow> byte list envelope \<Rightarrow> rpc_error + result_event" where
  "stream_event C env =
     (case (if env_payload env = [] then Inr zero_event else rx_dec_event C (env_payload env)) of
        Inl e \<Rightarrow> Inl (RpcDecode e)
      | Inr ev \<Rightarrow>
          Inr (ev\<lparr>re_task_id := (if re_task_id ev = 0 then parse_key (env_key env) else re_task_id ev),
                  re_attempt := (if re_attempt ev = 0 then env_attempt env else re_attempt ev)\<rparr>))"

text \<open>\<open>Call\<close> up to the registration of its waiter: the connection, the call on it, and the event.\<close>

definition rpc_call_begin ::
  "rpc_codec \<Rightarrow> byte list envelope \<Rightarrow> dial_error + nat \<Rightarrow> string option \<Rightarrow> rpc_stream
     \<Rightarrow> (rpc_error + nat \<times> nat \<times> result_event) \<times> rpc_stream" where
  "rpc_call_begin C env dial open_err s =
     (if env_target env = '''' then (Inl RpcNoTarget, s)
      else case stream_event C env of
          Inl e \<Rightarrow> (Inl e, s)
        | Inr ev \<Rightarrow>
            (case rpc_conn (env_target env) dial open_err s of
               (Inl e, s1) \<Rightarrow> (Inl e, s1)
             | (Inr i, s1) \<Rightarrow>
                 (Inr (i, sn_next (rs_conns s1 i), ev),
                  s1\<lparr>rs_conns := (rs_conns s1)(i := send_begin ev (rs_conns s1 i))\<rparr>)))"

text \<open>The rest of \<open>Call\<close>, with what \<open>send\<close> on connection \<open>i\<close> returned.\<close>

definition rpc_call_end ::
  "rpc_codec \<Rightarrow> byte list envelope \<Rightarrow> nat \<Rightarrow> result_event \<Rightarrow> string + result_ack option \<Rightarrow> rpc_stream
     \<Rightarrow> (rpc_error + byte list envelope) \<times> rpc_stream" where
  "rpc_call_end C env i ev r s =
     (case r of
        Inl e \<Rightarrow> (Inl (RpcSend e), rpc_drop (env_target env) i s)
      | Inr ack \<Rightarrow>
          (case rx_enc_ack C ack of
             Inl e \<Rightarrow> (Inl (RpcEncode e), s)
           | Inr p \<Rightarrow>
               (Inr \<lparr>env_topic = ''result'', env_key = show_int (re_task_id ev), env_attempt = re_attempt ev,
                  env_correlation = '''', env_target = env_target env, env_headers = [], env_payload = p\<rparr>, s)))"

text \<open>
  The whole \<open>Call\<close>: \<open>meanwhile\<close> are the steps all goroutines take on its connection from its
  registration to its return; \<open>None\<close>: they are not possible, or the call has not returned.
\<close>

definition rpc_stream_call ::
  "rpc_codec \<Rightarrow> dial_error + nat \<Rightarrow> string option \<Rightarrow> conn_event list \<Rightarrow> byte list envelope \<Rightarrow> rpc_stream
     \<Rightarrow> ((rpc_error + byte list envelope) \<times> rpc_stream) option" where
  "rpc_stream_call C dial open_err meanwhile env s =
     (case rpc_call_begin C env dial open_err s of
        (Inl e, s1) \<Rightarrow> Some (Inl e, s1)
      | (Inr (i, k, ev), s1) \<Rightarrow>
          (case conn_run meanwhile (rs_conns s1 i) of
             None \<Rightarrow> None
           | Some c \<Rightarrow>
               (case sn_calls c k of
                  None \<Rightarrow> None
                | Some q \<Rightarrow>
                    (case sd_phase q of
                       Returned r \<Rightarrow> Some (rpc_call_end C env i ev r (s1\<lparr>rs_conns := (rs_conns s1)(i := c)\<rparr>))
                     | _ \<Rightarrow> None))))"

section \<open>The unary channel\<close>

definition zero_message :: task_message where
  "zero_message = \<lparr>tm_task_id = 0, tm_attempt = 0, tm_type = '''', tm_operator = '''', tm_payload = NoContent,
     tm_priority = 0, tm_deadline_ms = 0, tm_timeout_ms = 0, tm_trace = [], tm_channel = '''', tm_vpc = '''',
     tm_node = '''', tm_label = '''', tm_hash_bucket = 0, tm_idempotency_key = '''', tm_origin_node = '''',
     tm_visited = [], tm_created_ms = 0\<rparr>"

definition unary_message :: "rpc_codec \<Rightarrow> byte list envelope \<Rightarrow> rpc_error + task_message" where
  "unary_message C env =
     (case (if env_payload env = [] then Inr zero_message else rx_dec_message C (env_payload env)) of
        Inl e \<Rightarrow> Inl (RpcDecode e)
      | Inr m \<Rightarrow>
          Inr (m\<lparr>tm_task_id := (if tm_task_id m = 0 then parse_key (env_key env) else tm_task_id m),
                 tm_attempt := (if tm_attempt m = 0 then env_attempt env else tm_attempt m)\<rparr>))"

definition result_of_event :: "rpc_codec \<Rightarrow> result_event option \<Rightarrow> rpc_error + byte list envelope" where
  "result_of_event C ev =
     (case ev of
        None \<Rightarrow> Inr \<lparr>env_topic = ''result'', env_key = '''', env_attempt = 0, env_correlation = '''',
                  env_target = '''', env_headers = [], env_payload = []\<rparr>
      | Some e \<Rightarrow>
          (case rx_enc_event C e of
             Inl m \<Rightarrow> Inl (RpcEncode m)
           | Inr p \<Rightarrow>
               Inr \<lparr>env_topic = ''result'', env_key = show_int (re_task_id e), env_attempt = re_attempt e,
                 env_correlation = '''', env_target = re_source e, env_headers = [], env_payload = p\<rparr>))"

text \<open>\<open>exec c m\<close>: the \<open>Execute\<close> procedure of the peer of connection \<open>c\<close>.\<close>

definition unary_call ::
  "rpc_codec \<Rightarrow> (nat \<Rightarrow> task_message \<Rightarrow> 'w \<Rightarrow> (string + result_event option) \<times> 'w) \<Rightarrow> byte list envelope
     \<Rightarrow> string + nat \<Rightarrow> dialer \<Rightarrow> 'w \<Rightarrow> (rpc_error + byte list envelope) \<times> dialer \<times> 'w" where
  "unary_call C exec env fresh d w =
     (if env_target env = '''' then (Inl RpcNoTarget, d, w)
      else case unary_message C env of
          Inl e \<Rightarrow> (Inl e, d, w)
        | Inr m \<Rightarrow>
            (case dialer_conn (env_target env) fresh d of
               (Inl e, d1) \<Rightarrow> (Inl (RpcDial e), d1, w)
             | (Inr c, d1) \<Rightarrow>
                 (case exec c m w of
                    (Inl e, w1) \<Rightarrow> (Inl (RpcRemote e), d1, w1)
                  | (Inr r, w1) \<Rightarrow> (result_of_event C r, d1, w1))))"

section \<open>Answers and releases\<close>

lemma conn_run_append: "conn_run (es @ fs) c = Option.bind (conn_run es c) (conn_run fs)"
  by (induction es arbitrary: c) (auto simp: bind_eq_Some_conv split: bind_splits)

lemma conn_ok_weaken:
  assumes "conn_ok P c" and "\<And>i a. i < sn_next c \<Longrightarrow> P i a \<Longrightarrow> Q i a"
  shows "conn_ok Q c"
proof -
  have "i < sn_next c \<and> call_ok Q (sn_closed c) i q" if q: "sn_calls c i = Some q" for i q
  proof -
    have "i < sn_next c" "call_ok P (sn_closed c) i q"
      using assms(1) q by (simp_all add: conn_ok_def calls_ok_def)
    then show ?thesis using assms(2) [of i] unfolding call_ok_def by blast
  qed
  then show ?thesis using assms(1) by (simp add: conn_ok_def calls_ok_def)
qed

lemma waiting_slot:
  assumes "conn_ok P c" and "sn_calls c i = Some q" and "sd_phase q = Waiting"
    and "\<forall>j r. j \<noteq> i \<longrightarrow> sn_calls c j = Some r \<longrightarrow> \<not> (re_task_id (sd_event r) = re_task_id (sd_event q) \<and> re_attempt (sd_event r) = re_attempt (sd_event q))"
  shows "sd_slot q \<noteq> SlotEmpty \<or> map_of (sn_waiters c) (event_key (sd_event q)) = Some i"
proof (rule ccontr)
  assume "\<not> ?thesis"
  then obtain j r where j: "j \<noteq> i" "sn_calls c j = Some r" "event_key (sd_event r) = event_key (sd_event q)"
    using forgotten [of c i q] assms by (auto simp: conn_ok_def)
  have "ack_matches \<lparr>ra_accepted = True, ra_message = '''', ra_task_id = re_task_id (sd_event r),
      ra_attempt = re_attempt (sd_event r)\<rparr> (sd_event q)"
    using j(3) ack_key_event [of "\<lparr>ra_accepted = True, ra_message = '''', ra_task_id = re_task_id (sd_event r),
      ra_attempt = re_attempt (sd_event r)\<rparr>" "sd_event q"] by (simp add: event_key_def)
  then show False using assms(4) j(1,2) by auto
qed

text \<open>
  C30. Acknowledgements on a result stream are not mixed up. Whatever the interleaving of callers,
  the receiving loop, failures and closing, a call that returns an acknowledgement returns one
  that the stream received after the call began, for the task and attempt of its own event; and a
  call returns without an acknowledgement and without an error only when the stream was closed.
\<close>

theorem stream_ack_is_own:
  assumes "conn_run es new_conn = Some c1" and "conn_run fs c1 = Some c2"
    and "sn_next c1 \<le> i" and "sn_calls c2 i = Some q" and "sd_phase q = Returned (Inr answer)"
  shows "case answer of
      Some a \<Rightarrow> RecvAck a \<in> set fs \<and> ra_task_id a = re_task_id (sd_event q) \<and> ra_attempt a = re_attempt (sd_event q)
    | None \<Rightarrow> sn_closed c2"
proof -
  let ?P = "\<lambda>j a. sn_next c1 \<le> j \<longrightarrow> RecvAck a \<in> set fs"
  have first: "conn_ok (\<lambda>_ _. True) c1" using conn_run_ok [OF conn_ok_new assms(1)] by simp
  then have "conn_ok ?P c1" by (rule conn_ok_weaken) simp
  then have "conn_ok ?P c2" using conn_run_ok [OF _ assms(2)] by blast
  then have "call_ok ?P (sn_closed c2) i q" using call_phase assms(4) by blast
  then show ?thesis
    using assms(3,5) unfolding call_ok_def by (cases answer) simp_all
qed


definition sample_event :: "int \<Rightarrow> int \<Rightarrow> result_event" where
  "sample_event i a = zero_event\<lparr>re_task_id := i, re_attempt := a, re_outcome := wire_succeeded\<rparr>"

definition sample_ack :: "int \<Rightarrow> int \<Rightarrow> result_ack" where
  "sample_ack i a = \<lparr>ra_accepted = True, ra_message = '''', ra_task_id = i, ra_attempt = a\<rparr>"

theorem stream_ack_is_own_witness:
  "RecvAck (sample_ack 12 3) \<in> set [SendBegin (sample_event 12 3), SendWire 0 None, RecvAck (sample_ack 12 3), SendWake 0]"
proof -
  let ?es = "[SendBegin (sample_event 12 3), SendWire 0 None, RecvAck (sample_ack 12 3), SendWake 0]"
  obtain c2 where c2: "conn_run ?es new_conn = Some c2"
    "sn_calls c2 0 = Some \<lparr>sd_event = sample_event 12 3, sd_slot = SlotAck (sample_ack 12 3),
       sd_phase = Returned (Inr (Some (sample_ack 12 3)))\<rparr>"
    by (simp add: send_begin_def new_conn_def set_call_def recv_ack_def remove_waiter_def event_key_def
        sample_event_def sample_ack_def zero_event_def Let_def)
  show ?thesis
    using stream_ack_is_own [of "[]" new_conn ?es c2 0, OF _ c2(1) _ c2(2)] by (simp add: new_conn_def)
qed

text \<open>
  C31. Nobody waits forever on a stream. Unless another call was made for the same task and
  attempt, a caller that waits can always be released: it already has its answer, or it is a
  waiter, and then the acknowledgement for its event gives it that answer, and a failure or a
  close of the stream makes it return at once.
\<close>

theorem waiting_sender_released:
  assumes "conn_run es new_conn = Some c" and "sn_calls c i = Some q" and "sd_phase q = Waiting"
    and "\<forall>j r. j \<noteq> i \<longrightarrow> sn_calls c j = Some r \<longrightarrow>
      \<not> (re_task_id (sd_event r) = re_task_id (sd_event q) \<and> re_attempt (sd_event r) = re_attempt (sd_event q))"
    and "ra_task_id a = re_task_id (sd_event q)" and "ra_attempt a = re_attempt (sd_event q)"
  shows "if sd_slot q = SlotEmpty
    then (sn_receiving c \<longrightarrow> map_option (\<lambda>d. map_option sd_phase (sn_calls d i)) (conn_run [RecvAck a, SendWake i] c)
            = Some (Some (Returned (Inr (Some a)))))
       \<and> (sn_receiving c \<longrightarrow> map_option (\<lambda>d. map_option sd_phase (sn_calls d i)) (conn_run [RecvError e, SendWake i] c)
            = Some (Some (Returned (Inr None))))
       \<and> map_option (\<lambda>d. map_option sd_phase (sn_calls d i)) (conn_run [ConnClose, SendWake i] c)
            = Some (Some (Returned (Inr None)))
    else \<exists>d. conn_step (SendWake i) c = Some d"
proof (cases "sd_slot q = SlotEmpty")
  case True
  have ok: "conn_ok (\<lambda>_ _. True) c" using conn_run_ok [OF conn_ok_new assms(1)] by simp
  then have w: "map_of (sn_waiters c) (event_key (sd_event q)) = Some i"
    using waiting_slot [OF ok assms(2,3,4)] True by simp
  have k: "ack_key (ra_task_id a) (ra_attempt a) = event_key (sd_event q)"
    unfolding ack_key_event using assms(5,6) by simp
  have open_conn: "\<not> sn_closed c" using w waiters_distinct [OF ok] by auto
  have i: "i \<in> snd ` set (sn_waiters c)" using w by (force dest: map_of_SomeD)
  show ?thesis
    using True assms(2,3) w k open_conn i
    by (simp add: recv_ack_def set_call_def remove_waiter_def recv_error_def conn_close_def close_waiters_def)
next
  case False
  then show ?thesis using assms(2,3) by (cases "sd_slot q") auto
qed

theorem waiting_sender_released_witness:
  "map_option (\<lambda>d. map_option sd_phase (sn_calls d 0))
      (conn_run [SendBegin (sample_event 12 3), SendWire 0 None, ConnClose, SendWake 0] new_conn)
    = Some (Some (Returned (Inr None)))"
proof -
  let ?es = "[SendBegin (sample_event 12 3), SendWire 0 None]"
  let ?q = "\<lparr>sd_event = sample_event 12 3, sd_slot = SlotEmpty, sd_phase = Waiting\<rparr>"
  obtain c where c: "conn_run ?es new_conn = Some c" "sn_calls c 0 = Some ?q" "\<forall>j. j \<noteq> 0 \<longrightarrow> sn_calls c j = None"
    by (simp add: send_begin_def new_conn_def set_call_def)
  have "conn_run (?es @ [ConnClose, SendWake 0]) new_conn = conn_run [ConnClose, SendWake 0] c"
    unfolding conn_run_append c(1) by simp
  then show ?thesis
    using waiting_sender_released [OF c(1,2), of "sample_ack 12 3" "''eof''"] c(3)
    by (simp add: sample_ack_def sample_event_def)
qed

end
