(* ===== verification/ResultPath.thy ===== *)
theory ResultPath
  imports RpcChannel Service
begin

text \<open>
  The path of a result from the worker's log over the result stream: the worker's runtime
  (\<open>internal/worker/runtime.go\<close>), the publisher (\<open>internal/biz/task/result_publisher.go\<close>) and the
  stream channel (\<open>internal/eventbus/channel/rpc/stream.go\<close>), as the assembly composes them.
\<close>

section \<open>The composition\<close>

definition rpc_text :: "rpc_error \<Rightarrow> string" where
  "rpc_text e =
     (case e of RpcSend m \<Rightarrow> m | RpcDecode m \<Rightarrow> m | RpcEncode m \<Rightarrow> m | RpcOpen m \<Rightarrow> m | RpcRemote m \<Rightarrow> m
      | RpcNoTarget \<Rightarrow> ''eventbus/channel/rpc: envelope target is empty''
      | RpcStreamClosed \<Rightarrow> ''eventbus/channel/rpc: stream closed''
      | RpcDial _ \<Rightarrow> ''dial'')"

text \<open>The stream channel as the bus calls it, for given steps of the goroutines meanwhile.\<close>

definition stream_caller ::
  "rpc_codec \<Rightarrow> dial_error + nat \<Rightarrow> string option \<Rightarrow> conn_event list \<Rightarrow> string \<Rightarrow> byte list envelope \<Rightarrow> rpc_stream
     \<Rightarrow> (string + byte list envelope) \<times> rpc_stream" where
  "stream_caller C dial open_err es name env s =
     (case rpc_stream_call C dial open_err es env s of
        None \<Rightarrow> (Inl ''pending'', s)
      | Some (Inl e, s1) \<Rightarrow> (Inl (rpc_text e), s1)
      | Some (Inr reply, s1) \<Rightarrow> (Inr reply, s1))"

text \<open>The publisher as the runtime's sink.\<close>

definition result_sink :: "('p, 'v, 'w) publisher \<Rightarrow> ('v \<times> 'w) sink" where
  "result_sink b ev st = (let (err, st1) = publish b ev st in (err = None, st1))"

section \<open>What confirms a result\<close>

text \<open>A publisher with an open connection to the scheduler, and the event it is about to send.\<close>

definition connected :: "(byte list, 'v, rpc_stream) publisher \<Rightarrow> rpc_codec \<Rightarrow> result_event \<Rightarrow> nat \<Rightarrow> rpc_stream \<Rightarrow> bool" where
  "connected b C ev i s \<longleftrightarrow>
     (case pb_marshal b ev of
        Inl _ \<Rightarrow> False
      | Inr p \<Rightarrow>
          p \<noteq> [] \<and> rx_dec_event C p = Inr ev \<and> re_task_id ev \<noteq> 0 \<and> re_attempt ev \<noteq> 0 \<and>
          (let addr = env_target (result_envelope b ev p) in
           addr \<noteq> '''' \<and> \<not> rs_closed s \<and> map_of (rs_streams s) addr = Some i \<and> \<not> sn_closed (rs_conns s i)))"

lemma connected_sink:
  assumes "connected b C ev i s" and "pb_call b = Some (stream_caller C dial open_err es)"
    and "conn_run es (send_begin ev (rs_conns s i)) = Some c"
    and "sn_calls c (sn_next (rs_conns s i)) = Some q" and "sd_phase q = Returned r"
    and "\<And>a. r = Inr a \<Longrightarrow> \<exists>bs. rx_enc_ack C a = Inr bs"
  shows "fst (result_sink b ev (v, s)) = (case r of Inl _ \<Rightarrow> False | Inr _ \<Rightarrow> True)"
proof -
  obtain p where p: "pb_marshal b ev = Inr p" "p \<noteq> []" "rx_dec_event C p = Inr ev" "re_task_id ev \<noteq> 0" "re_attempt ev \<noteq> 0"
    and a: "env_target (result_envelope b ev p) \<noteq> ''''" "\<not> rs_closed s"
      "map_of (rs_streams s) (env_target (result_envelope b ev p)) = Some i" "\<not> sn_closed (rs_conns s i)"
    using assms(1) by (auto simp: connected_def Let_def split: sum.splits)
  let ?env = "result_envelope b ev p"
  have "stream_event C ?env = Inr ev"
    using p by (simp add: stream_event_def result_envelope_def)
  then have "rpc_call_begin C ?env dial open_err s =
      (Inr (i, sn_next (rs_conns s i), ev), s\<lparr>rs_conns := (rs_conns s)(i := send_begin ev (rs_conns s i))\<rparr>)"
    using a by (simp add: rpc_call_begin_def rpc_conn_def)
  then have call: "rpc_stream_call C dial open_err es ?env s =
      Some (rpc_call_end C ?env i ev r (s\<lparr>rs_conns := (rs_conns s)(i := c)\<rparr>))"
    using assms(3-5) by (simp add: rpc_stream_call_def)
  show ?thesis
  proof (cases r)
    case (Inl e)
    then show ?thesis
      using call assms(2) p(1) by (auto simp: result_sink_def publish_def stream_caller_def rpc_call_end_def Let_def)
  next
    case (Inr a)
    then obtain bs where "rx_enc_ack C a = Inr bs" using assms(6) by blast
    then show ?thesis
      using Inr call assms(2) p(1) by (auto simp: result_sink_def publish_def stream_caller_def rpc_call_end_def Let_def)
  qed
qed

text \<open>
  The interleavings in which the call \<open>k\<close> returns without an accepted answer: another caller \<open>j\<close>
  gives up waiting, and its \<open>Call\<close> drops the stream; the stream breaks; the collector refuses.
\<close>

definition unaccepted :: "stream_conn \<Rightarrow> result_event \<Rightarrow> conn_event list \<Rightarrow> bool" where
  "unaccepted c ev es \<longleftrightarrow>
     (let k = sn_next c in
      (\<exists>j q m. es = [SendWire k None, SendCancel j m, ConnClose, SendWake k] \<and> sn_calls c j = Some q \<and>
         sd_phase q = Waiting \<and> event_key (sd_event q) \<noteq> event_key ev) \<or>
      (\<exists>m. es = [SendWire k None, RecvError m, SendWake k] \<and> sn_receiving c) \<or>
      (\<exists>m. es = [SendWire k None, RecvAck (ack_of ev (Some m)), SendWake k] \<and> sn_receiving c))"

lemma unaccepted_returns:
  assumes "conn_ok P c" and "\<not> sn_closed c" and "unaccepted c ev es"
  shows "\<exists>d q a. conn_run es (send_begin ev c) = Some d \<and> sn_calls d (sn_next c) = Some q \<and>
    sd_phase q = Returned (Inr a) \<and> (\<forall>x. a = Some x \<longrightarrow> \<not> ra_accepted x)"
proof -
  have fresh: "sn_calls c (sn_next c) = None"
    using assms(1) by (cases "sn_calls c (sn_next c)") (auto simp: conn_ok_def calls_ok_def)
  let ?c1 = "set_call (sn_next c) \<lparr>sd_event = ev, sd_slot = SlotEmpty, sd_phase = Waiting\<rparr> (send_begin ev c)"
  have c1: "conn_step (SendWire (sn_next c) None) (send_begin ev c) = Some ?c1"
    using assms(2) by (simp add: send_begin_def set_call_def Let_def)
  have w: "map_of (sn_waiters ?c1) (event_key ev) = Some (sn_next c)" "\<not> sn_closed ?c1"
    "sn_calls ?c1 (sn_next c) = Some \<lparr>sd_event = ev, sd_slot = SlotEmpty, sd_phase = Waiting\<rparr>"
    "sn_receiving ?c1 = sn_receiving c"
    using assms(2) by (simp_all add: send_begin_def set_call_def Let_def AList.update_conv')
  have i: "sn_next c \<in> snd ` set (sn_waiters ?c1)" using w(1) by (force dest: map_of_SomeD)
  consider (cancel) j q m where "es = [SendWire (sn_next c) None, SendCancel j m, ConnClose, SendWake (sn_next c)]"
      "sn_calls c j = Some q" "sd_phase q = Waiting" "event_key (sd_event q) \<noteq> event_key ev"
    | (broken) m where "es = [SendWire (sn_next c) None, RecvError m, SendWake (sn_next c)]" "sn_receiving c"
    | (refused) m where "es = [SendWire (sn_next c) None, RecvAck (ack_of ev (Some m)), SendWake (sn_next c)]" "sn_receiving c"
    using assms(3) unfolding unaccepted_def Let_def by blast
  then show ?thesis
  proof cases
    case cancel
    have j: "j \<noteq> sn_next c" using cancel(2) fresh by auto
    then have q: "sn_calls ?c1 j = Some q" using cancel(2) by (simp add: send_begin_def set_call_def Let_def)
    let ?c2 = "set_call j (q\<lparr>sd_phase := Returned (Inl m)\<rparr>) (remove_waiter (event_key (sd_event q)) ?c1)"
    have c2: "conn_step (SendCancel j m) ?c1 = Some ?c2" using q cancel(3) by simp
    have "map_of (sn_waiters ?c2) (event_key ev) = Some (sn_next c)"
      using w(1) cancel(4) by (simp add: set_call_def remove_waiter_def AList.delete_conv')
    then have i2: "sn_next c \<in> snd ` set (sn_waiters ?c2)" by (force dest: map_of_SomeD)
    have "\<not> sn_closed ?c2" "sn_calls ?c2 (sn_next c) = Some \<lparr>sd_event = ev, sd_slot = SlotEmpty, sd_phase = Waiting\<rparr>"
      using w j by (simp_all add: set_call_def remove_waiter_def)
    then have "sn_calls (conn_close ?c2) (sn_next c) = Some \<lparr>sd_event = ev, sd_slot = SlotClosed, sd_phase = Waiting\<rparr>"
      using i2 by (simp add: conn_close_def close_waiters_def)
    then show ?thesis using cancel(1) c1 c2 by (simp add: set_call_def)
  next
    case broken
    have "sn_calls (recv_error m ?c1) (sn_next c) = Some \<lparr>sd_event = ev, sd_slot = SlotClosed, sd_phase = Waiting\<rparr>"
      using i w by (simp add: recv_error_def close_waiters_def)
    then show ?thesis using broken c1 w(4) by (simp add: set_call_def)
  next
    case refused
    have "ack_key (ra_task_id (ack_of ev (Some m))) (ra_attempt (ack_of ev (Some m))) = event_key ev"
      by (simp add: ack_of_def event_key_def)
    then have "sn_calls (recv_ack (ack_of ev (Some m)) ?c1) (sn_next c) =
        Some \<lparr>sd_event = ev, sd_slot = SlotAck (ack_of ev (Some m)), sd_phase = Waiting\<rparr>"
      using w by (simp add: recv_ack_def set_call_def remove_waiter_def)
    then show ?thesis using refused c1 w(4) by (simp add: set_call_def ack_of_def)
  qed
qed


text \<open>
  C13. A result that nobody accepted can be forgotten. Take a worker with a disk log whose results
  go over a stream that other goroutines use. If, while it waits for the acknowledgement of the
  result of a task, another caller on the same stream gives up waiting, or the stream breaks, or
  the collector refuses the event, then the publisher reports success all the same and the event
  is confirmed in the log: neither the worker nor one started after a crash will send it again.
\<close>

theorem unaccepted_result_forgotten:
  assumes "disk_ok D d" and "wc_marshal D ev \<noteq> None" and "path \<noteq> ''''"
    and "wk_sink k = Some (result_sink b)" and "pb_call b = Some (stream_caller C dial open_err es)"
    and "handled_world k m (v, s) = (v, s)"
    and "execute k (disk_wal_ops D) start finish m (d, (v, s)) = (ev, (d', st))"
    and "conn_run history new_conn = Some (rs_conns s i)" and "connected b C ev i s"
    and "unaccepted (rs_conns s i) ev es" and "\<forall>a. \<exists>bs. rx_enc_ack C a = Inr bs"
  shows "re_key ev \<notin> re_key ` set (disk_pending d') \<and>
    (\<exists>r. open_disk_wal D path (wal_max (dw_mem d)) mxb True (Inr (Some (dw_file d'))) True = Inr r \<and>
      re_key ev \<notin> re_key ` set (disk_pending r))"
proof -
  have ok: "conn_ok (\<lambda>_ _. True) (rs_conns s i)" using conn_run_ok [OF conn_ok_new assms(8)] by simp
  have "\<not> sn_closed (rs_conns s i)" using assms(9) by (auto simp: connected_def Let_def split: sum.splits)
  then obtain c q a where r: "conn_run es (send_begin ev (rs_conns s i)) = Some c"
    "sn_calls c (sn_next (rs_conns s i)) = Some q" "sd_phase q = Returned (Inr a)"
    using unaccepted_returns [OF ok _ assms(10)] by blast
  have taken: "fst (result_sink b ev (v, s))"
    using connected_sink [OF assms(9,5) r] assms(11) by simp
  note p = disk_log.publish_log [OF assms(1,2), of "\<lambda>d. wal_high_water (dw_mem d)" "wk_sink k" "handled_world k m (v, s)",
      folded disk_wal_ops_def execute_eq(1) [OF assms(7)]]
  have gone: "re_key ev \<notin> re_key ` set (disk_pending d')"
    using p taken assms(4,6) by (auto simp: log_ack_def)
  have "disk_ok D d'" "wal_max (dw_mem d') = wal_max (dw_mem d)"
    using p assms(1) by (auto simp: disk_ok_def wal_ok_def)
  then show ?thesis
    using gone disk_reopen [of D d' path "[]" mxb] assms(3) by auto
qed

definition deaf_codec :: rpc_codec where
  "deaf_codec = \<lparr>rx_dec_event = (\<lambda>_. Inr (wal_event 2)), rx_enc_event = (\<lambda>_. Inr []),
     rx_enc_ack = (\<lambda>_. Inr []), rx_dec_message = (\<lambda>_. Inl ''none'')\<rparr>"

definition deaf_publisher :: "conn_event list \<Rightarrow> (byte list, unit, rpc_stream) publisher" where
  "deaf_publisher es = \<lparr>pb_call = Some (stream_caller deaf_codec (Inr 0) None es), pb_channel = '''',
     pb_nodes = Some (''n'', \<lambda>_. Some (zero_node\<lparr>nd_address := ''sched''\<rparr>)), pb_view = None,
     pb_marshal = (\<lambda>_. Inr [7])\<rparr>"

definition deaf_worker :: "conn_event list \<Rightarrow> (unit \<times> rpc_stream) worker" where
  "deaf_worker es =
     new_worker '''' (Some [(signature_of ''t'' '''',
       handler_func ''t'' '''' (Some (\<lambda>_ _ w. (Inr \<lparr>hr_outcome = wire_succeeded, hr_payload = NoContent, hr_error = ''''\<rparr>, w))))])
       0 (Some (result_sink (deaf_publisher es)))"

theorem unaccepted_result_forgotten_witness:
  "\<exists>d' st. execute (deaf_worker [SendWire 0 None, RecvError ''eof'', SendWake 0]) (disk_wal_ops pair_codec) 0 0
        (wal_task 2) (pair_disk, ((), new_rpc_stream\<lparr>rs_streams := [(''sched'', 0)], rs_next := 1\<rparr>)) = (wal_event 2, (d', st)) \<and>
      re_key (wal_event 2) \<notin> re_key ` set (disk_pending d')"
proof -
  let ?es = "[SendWire 0 None, RecvError ''eof'', SendWake 0]"
  let ?s = "new_rpc_stream\<lparr>rs_streams := [(''sched'', 0)], rs_next := 1\<rparr>"
  obtain ev d' st where e: "execute (deaf_worker ?es) (disk_wal_ops pair_codec) 0 0 (wal_task 2) (pair_disk, ((), ?s)) = (ev, (d', st))"
    by (metis prod_cases3)
  have ev: "ev = wal_event 2"
    using e by (auto simp: execute_def deaf_worker_def new_worker_def worker_resolve_def resolve_handler_def
        wal_task_def handler_func_def fill_event_def event_of_def outcome_unset_def wire_succeeded_def wal_event_def Let_def
        split: prod.splits)
  have h: "handled_world (deaf_worker ?es) (wal_task 2) ((), ?s) = ((), ?s)"
    by (simp add: handled_world_def deaf_worker_def new_worker_def worker_resolve_def resolve_handler_def
        wal_task_def handler_func_def)
  have c: "connected (deaf_publisher ?es) deaf_codec (wal_event 2) 0 ?s"
    by (simp add: connected_def deaf_publisher_def deaf_codec_def result_envelope_def wal_event_def
        new_rpc_stream_def new_conn_def zero_node_def)
  have u: "unaccepted (rs_conns ?s 0) (wal_event 2) ?es"
    by (simp add: unaccepted_def new_rpc_stream_def new_conn_def)
  have m: "wc_marshal pair_codec (wal_event 2) \<noteq> None" by (simp add: pair_codec_def)
  have n: "conn_run [] new_conn = Some (rs_conns ?s 0)" by (simp add: new_rpc_stream_def)
  have sink: "wk_sink (deaf_worker ?es) = Some (result_sink (deaf_publisher ?es))"
    by (simp add: deaf_worker_def new_worker_def)
  have call: "pb_call (deaf_publisher ?es) = Some (stream_caller deaf_codec (Inr 0) None ?es)"
    by (simp add: deaf_publisher_def)
  have a: "\<forall>a. \<exists>bs. rx_enc_ack deaf_codec a = Inr bs" by (simp add: deaf_codec_def)
  have "re_key (wal_event 2) \<notin> re_key ` set (disk_pending d')"
    using unaccepted_result_forgotten [OF pair_disk_ok m _ sink call h e [unfolded ev] n c u a, of "''w''"] by simp
  then show ?thesis using e unfolding ev by blast
qed

end
