(* ===== verification/RedisChannel.thy ===== *)
theory RedisChannel
  imports Codec "HOL-Library.Sublist"
begin

text \<open>
  The Redis channels (\<open>internal/eventbus/channel/redis\<close>): list, sorted set, stream and pub/sub.
  A call encodes the envelope and issues one command; a subscription is a loop of turns, each of
  which reads, decodes and hands the envelope to its handler. Redis is an argument: its commands
  with an observer of the lists and the documented laws of \<open>LPUSH\<close>, \<open>BRPOP\<close> and \<open>ZADD\<close>.
\<close>

section \<open>Options\<close>

record channel_options =
  co_prefix :: string
  co_block_timeout :: int
  co_max_len :: int
  co_group :: string
  co_consumer :: string

definition default_block_timeout :: int where
  "default_block_timeout = 2 * 10 ^ 9"

definition default_channel_prefix :: string where
  "default_channel_prefix = ''stateflux:ch:''"

definition channel_defaults :: "channel_options \<Rightarrow> channel_options" where
  "channel_defaults o' =
     o'\<lparr>co_prefix := (if co_prefix o' = '''' then default_channel_prefix else co_prefix o'),
        co_block_timeout := (if co_block_timeout o' \<le> 0 then default_block_timeout else co_block_timeout o'),
        co_group := (if co_group o' = '''' then ''stateflux'' else co_group o'),
        co_consumer := (if co_consumer o' = '''' then ''worker'' else co_consumer o')\<rparr>"

definition channel_key :: "channel_options \<Rightarrow> string \<Rightarrow> string" where
  "channel_key o' topic = co_prefix o' @ ''{ch}:'' @ topic"

definition redis_caps :: capabilities where
  "redis_caps = \<lparr>cap_subscribe = True, cap_request_reply = False, cap_full_duplex = False, cap_local_ack = False\<rparr>"

text \<open>\<open>simplex\<close>: the empty envelope.\<close>

definition simplex :: "byte list envelope" where
  "simplex = \<lparr>env_topic = '''', env_key = '''', env_attempt = 0, env_correlation = '''', env_target = '''',
     env_headers = [], env_payload = []\<rparr>"

section \<open>Sending\<close>

text \<open>
  The commands. A reply to \<open>BRPOP\<close> is a list of strings, \<open>None\<close> when it timed out; to \<open>ZPOPMIN\<close>
  the members, \<open>None\<close> for one that is not a string; to \<open>XREADGROUP\<close> the messages with their
  identifier and the field \<open>e\<close>. Scores are a type of their own.
\<close>

record ('s, 'r) channel_redis =
  cr_lpush :: "string \<Rightarrow> byte list \<Rightarrow> 'r \<Rightarrow> string option \<times> 'r"
  cr_brpop :: "string \<Rightarrow> int \<Rightarrow> 'r \<Rightarrow> (string + byte list list option) \<times> 'r"
  cr_zadd :: "string \<Rightarrow> 's \<Rightarrow> byte list \<Rightarrow> 'r \<Rightarrow> string option \<times> 'r"
  cr_zpopmin :: "string \<Rightarrow> 'r \<Rightarrow> (string + byte list option list) \<times> 'r"
  cr_xadd :: "string \<Rightarrow> int option \<Rightarrow> byte list \<Rightarrow> 'r \<Rightarrow> string option \<times> 'r"
  cr_xgroup :: "string \<Rightarrow> string \<Rightarrow> 'r \<Rightarrow> string option \<times> 'r"
  cr_xread :: "string \<Rightarrow> string \<Rightarrow> string \<Rightarrow> 'r \<Rightarrow> (string + (string \<times> byte list option) list) \<times> 'r"
  cr_xack :: "string \<Rightarrow> string \<Rightarrow> string \<Rightarrow> 'r \<Rightarrow> 'r"
  cr_publish :: "string \<Rightarrow> byte list \<Rightarrow> 'r \<Rightarrow> string option \<times> 'r"

datatype redis_send_error = RedisFrame frame_error | RedisCommand string

definition redis_send ::
  "header_lib \<Rightarrow> (byte list \<Rightarrow> 'r \<Rightarrow> string option \<times> 'r) \<Rightarrow> byte list envelope \<Rightarrow> 'r
     \<Rightarrow> (redis_send_error + byte list envelope) \<times> 'r" where
  "redis_send hl command env r =
     (case encode_envelope hl env of
        Inl e \<Rightarrow> (Inl (RedisFrame e), r)
      | Inr frame \<Rightarrow>
          (case command frame r of
             (Some e, r1) \<Rightarrow> (Inl (RedisCommand e), r1)
           | (None, r1) \<Rightarrow> (Inr simplex, r1)))"

definition list_call ::
  "('s, 'r) channel_redis \<Rightarrow> channel_options \<Rightarrow> header_lib \<Rightarrow> byte list envelope \<Rightarrow> 'r
     \<Rightarrow> (redis_send_error + byte list envelope) \<times> 'r" where
  "list_call R o' hl env r = redis_send hl (cr_lpush R (channel_key o' (env_topic env))) env r"

text \<open>The score: the clock, or the header \<open>score\<close> where it parses.\<close>

definition zset_score :: "(string \<Rightarrow> 's option) \<Rightarrow> 's \<Rightarrow> byte list envelope \<Rightarrow> 's" where
  "zset_score parse now env =
     (case map_of (env_headers env) ''score'' of
        None \<Rightarrow> now
      | Some raw \<Rightarrow> if raw = '''' then now else (case parse raw of None \<Rightarrow> now | Some v \<Rightarrow> v))"

definition zset_call ::
  "('s, 'r) channel_redis \<Rightarrow> channel_options \<Rightarrow> header_lib \<Rightarrow> (string \<Rightarrow> 's option) \<Rightarrow> 's
     \<Rightarrow> byte list envelope \<Rightarrow> 'r \<Rightarrow> (redis_send_error + byte list envelope) \<times> 'r" where
  "zset_call R o' hl parse now env r =
     redis_send hl (cr_zadd R (channel_key o' (env_topic env)) (zset_score parse now env)) env r"

definition stream_call ::
  "('s, 'r) channel_redis \<Rightarrow> channel_options \<Rightarrow> header_lib \<Rightarrow> byte list envelope \<Rightarrow> 'r
     \<Rightarrow> (redis_send_error + byte list envelope) \<times> 'r" where
  "stream_call R o' hl env r =
     redis_send hl (cr_xadd R (channel_key o' (env_topic env)) (if co_max_len o' > 0 then Some (co_max_len o') else None)) env r"

definition pubsub_call ::
  "('s, 'r) channel_redis \<Rightarrow> channel_options \<Rightarrow> header_lib \<Rightarrow> byte list envelope \<Rightarrow> 'r
     \<Rightarrow> (redis_send_error + byte list envelope) \<times> 'r" where
  "pubsub_call R o' hl env r = redis_send hl (cr_publish R (channel_key o' (env_topic env))) env r"

section \<open>Subscriptions\<close>

text \<open>One turn reads, and returns the envelopes for the handler.\<close>

definition decoded :: "header_lib \<Rightarrow> string \<Rightarrow> byte list \<Rightarrow> byte list envelope list" where
  "decoded hl topic raw = (case decode_envelope hl raw topic of Inl _ \<Rightarrow> [] | Inr env \<Rightarrow> [env])"

definition list_turn ::
  "('s, 'r) channel_redis \<Rightarrow> channel_options \<Rightarrow> header_lib \<Rightarrow> string \<Rightarrow> 'r
     \<Rightarrow> byte list envelope list \<times> 'r" where
  "list_turn R o' hl topic r =
     (case cr_brpop R (channel_key o' topic) (co_block_timeout o') r of
        (Inl e, r1) \<Rightarrow> ([], r1)
      | (Inr None, r1) \<Rightarrow> ([], r1)
      | (Inr (Some res), r1) \<Rightarrow> (if length res < 2 then [] else decoded hl topic (res ! 1), r1))"

definition zset_turn ::
  "('s, 'r) channel_redis \<Rightarrow> channel_options \<Rightarrow> header_lib \<Rightarrow> string \<Rightarrow> 'r
     \<Rightarrow> byte list envelope list \<times> 'r" where
  "zset_turn R o' hl topic r =
     (case cr_zpopmin R (channel_key o' topic) r of
        (Inl e, r1) \<Rightarrow> ([], r1)
      | (Inr [], r1) \<Rightarrow> ([], r1)
      | (Inr (None # _), r1) \<Rightarrow> ([], r1)
      | (Inr (Some raw # _), r1) \<Rightarrow> (decoded hl topic raw, r1))"

fun stream_messages ::
  "('s, 'r) channel_redis \<Rightarrow> channel_options \<Rightarrow> header_lib \<Rightarrow> string \<Rightarrow> (string \<times> byte list option) list \<Rightarrow> 'r
     \<Rightarrow> byte list envelope list \<times> 'r" where
  "stream_messages R o' hl topic [] r = ([], r)"
| "stream_messages R o' hl topic ((mid, e) # ms) r =
     (let envs = (case e of None \<Rightarrow> [] | Some raw \<Rightarrow> decoded hl topic raw);
          (more_envs, r1) = stream_messages R o' hl topic ms (cr_xack R (channel_key o' topic) (co_group o') mid r)
      in (envs @ more_envs, r1))"

definition stream_turn ::
  "('s, 'r) channel_redis \<Rightarrow> channel_options \<Rightarrow> header_lib \<Rightarrow> string \<Rightarrow> 'r
     \<Rightarrow> byte list envelope list \<times> 'r" where
  "stream_turn R o' hl topic r =
     (case cr_xread R (channel_key o' topic) (co_group o') (co_consumer o') r of
        (Inl e, r1) \<Rightarrow> ([], r1)
      | (Inr ms, r1) \<Rightarrow> stream_messages R o' hl topic ms r1)"

text \<open>\<open>contains\<close>, \<open>isBusyGroup\<close>, and the group a stream subscription needs.\<close>

fun has_prefix :: "string \<Rightarrow> string \<Rightarrow> bool" where
  "has_prefix [] s = True"
| "has_prefix (c # cs) [] = False"
| "has_prefix (c # cs) (d # ds) = (c = d \<and> has_prefix cs ds)"

fun contains_str :: "string \<Rightarrow> string \<Rightarrow> bool" where
  "contains_str [] sub = (sub = [])"
| "contains_str (c # cs) sub = (has_prefix sub (c # cs) \<or> contains_str cs sub)"

definition is_busy_group :: "string \<Rightarrow> bool" where
  "is_busy_group e \<longleftrightarrow> length e \<ge> 9 \<and> contains_str e ''BUSYGROUP''"

definition stream_subscribe ::
  "('s, 'r) channel_redis \<Rightarrow> channel_options \<Rightarrow> string \<Rightarrow> 'r \<Rightarrow> string option \<times> 'r" where
  "stream_subscribe R o' topic r =
     (case cr_xgroup R (channel_key o' topic) (co_group o') r of
        (None, r1) \<Rightarrow> (None, r1)
      | (Some e, r1) \<Rightarrow> (if is_busy_group e then None else Some e, r1))"

text \<open>The messages a pub/sub subscription receives until it is closed.\<close>

definition pubsub_messages :: "header_lib \<Rightarrow> string \<Rightarrow> byte list list \<Rightarrow> byte list envelope list" where
  "pubsub_messages hl topic raws = concat (map (decoded hl topic) raws)"

text \<open>The loop of a subscription: \<open>cancelled i\<close> before turn \<open>i\<close> ends it; \<open>h\<close> is the handler.\<close>

fun subscription_loop ::
  "('r \<Rightarrow> byte list envelope list \<times> 'r) \<Rightarrow> (byte list envelope \<Rightarrow> 'w \<Rightarrow> 'w) \<Rightarrow> (nat \<Rightarrow> bool) \<Rightarrow> nat \<Rightarrow> nat
     \<Rightarrow> 'r \<times> 'w \<Rightarrow> 'r \<times> 'w" where
  "subscription_loop turn h cancelled i 0 st = st"
| "subscription_loop turn h cancelled i (Suc n) st =
     (if cancelled i then st
      else let (envs, r1) = turn (fst st) in
           subscription_loop turn h cancelled (Suc i) n (r1, fold h envs (snd st)))"


section \<open>The list is a queue\<close>

text \<open>
  What Redis documents of lists, by an observer that says what a key holds, oldest first: \<open>LPUSH\<close>
  adds the newest, \<open>BRPOP\<close> removes and returns the oldest. When a command ends with an error
  it may have been executed all the same; a popped element is then lost.
\<close>

type_synonym 'r list_observer = "string \<Rightarrow> 'r \<Rightarrow> byte list list"

definition obs_pushed :: "'r list_observer \<Rightarrow> string \<Rightarrow> byte list \<Rightarrow> 'r \<Rightarrow> 'r \<Rightarrow> bool" where
  "obs_pushed obs k x r r' \<longleftrightarrow> (\<forall>k'. obs k' r' = (if k' = k then obs k r @ [x] else obs k' r))"

definition push_law :: "'r list_observer \<Rightarrow> ('s, 'r) channel_redis \<Rightarrow> bool" where
  "push_law obs R \<longleftrightarrow>
     (\<forall>k x r. case cr_lpush R k x r of
        (None, r') \<Rightarrow> obs_pushed obs k x r r'
      | (Some e, r') \<Rightarrow> (\<forall>k'. obs k' r' = obs k' r) \<or> obs_pushed obs k x r r')"

definition pop_law :: "'r list_observer \<Rightarrow> ('s, 'r) channel_redis \<Rightarrow> bool" where
  "pop_law obs R \<longleftrightarrow>
     (\<forall>k t r. let (res, r') = cr_brpop R k t r in
        (\<forall>k'. k' \<noteq> k \<longrightarrow> obs k' r' = obs k' r) \<and>
        (case res of
           Inr (Some es) \<Rightarrow> (\<exists>key x. es = [key, x] \<and> obs k r = x # obs k r')
         | Inr None \<Rightarrow> obs k r' = obs k r
         | Inl e \<Rightarrow> obs k r' = obs k r \<or> obs k r' = tl (obs k r)))"

datatype list_op = ListSend "byte list envelope" | ListPoll

text \<open>Senders and subscribers of one topic in any order: what is delivered, and were all calls acknowledged.\<close>

fun list_run ::
  "('s, 'r) channel_redis \<Rightarrow> channel_options \<Rightarrow> header_lib \<Rightarrow> string \<Rightarrow> list_op list \<Rightarrow> 'r
     \<Rightarrow> (byte list envelope list \<times> bool) \<times> 'r" where
  "list_run R o' hl topic [] r = (([], True), r)"
| "list_run R o' hl topic (ListSend env # ops) r =
     (let (res, r1) = list_call R o' hl env r; ((ds, ok), r2) = list_run R o' hl topic ops r1
      in ((ds, is_ok res \<and> ok), r2))"
| "list_run R o' hl topic (ListPoll # ops) r =
     (let (envs, r1) = list_turn R o' hl topic r; ((ds, ok), r2) = list_run R o' hl topic ops r1
      in ((envs @ ds, ok), r2))"

definition sent_on :: "string \<Rightarrow> list_op list \<Rightarrow> byte list envelope list" where
  "sent_on topic ops = List.map_filter (\<lambda>x. case x of ListSend e \<Rightarrow> if env_topic e = topic then Some e else None | ListPoll \<Rightarrow> None) ops"

lemma sent_on_simps [simp]:
  "sent_on topic [] = []"
  "sent_on topic (ListPoll # ops) = sent_on topic ops"
  "sent_on topic (ListSend e # ops) = (if env_topic e = topic then e # sent_on topic ops else sent_on topic ops)"
  by (simp_all add: sent_on_def List.map_filter_simps)

definition sound_envelope :: "header_lib \<Rightarrow> byte list envelope \<Rightarrow> bool" where
  "sound_envelope hl e \<longleftrightarrow>
     (case hl_marshal hl (env_headers e) of
        None \<Rightarrow> True
      | Some h \<Rightarrow> decode_headers hl h = Inr (env_headers e) \<and> envelope_fits h e)"

lemma decoded_frame:
  assumes "sound_envelope hl e" and "encode_envelope hl e = Inr frame"
  shows "decoded hl (env_topic e) frame = [e]"
proof -
  obtain h where h: "hl_marshal hl (env_headers e) = Some h"
    using assms(2) by (cases "hl_marshal hl (env_headers e)") (auto simp: encode_envelope_def)
  have f: "frame = envelope_magic @ envelope_version # envelope_fields h e"
    using encode_envelope_eq [OF h] assms(2) by simp
  have "envelope_fits h e" "decode_headers hl h = Inr (env_headers e)"
    using assms(1) h by (simp_all add: sound_envelope_def)
  then show ?thesis
    using decode_fields_whole [of h e hl "[]" "env_topic e"] by (simp add: f decoded_def decode_envelope_def)
qed

abbreviation queued :: "'r list_observer \<Rightarrow> header_lib \<Rightarrow> channel_options \<Rightarrow> string \<Rightarrow> 'r \<Rightarrow> byte list envelope list" where
  "queued obs hl o' topic r \<equiv> concat (map (decoded hl topic) (obs (channel_key o' topic) r))"

lemma list_call_queued:
  assumes "push_law obs R" and "sound_envelope hl e" and "list_call R o' hl e r = (res, r')"
  shows "queued obs hl o' topic r' = queued obs hl o' topic r \<and> (is_ok res \<longrightarrow> env_topic e \<noteq> topic) \<or>
    env_topic e = topic \<and> queued obs hl o' topic r' = queued obs hl o' topic r @ [e]"
proof (cases "encode_envelope hl e")
  case (Inl x)
  then show ?thesis using assms(3) by (auto simp: list_call_def redis_send_def)
next
  case (Inr frame)
  obtain err where c: "cr_lpush R (channel_key o' (env_topic e)) frame r = (err, r')" "is_ok res = (err = None)"
    using assms(3) Inr by (auto simp: list_call_def redis_send_def split: prod.splits option.splits)
  then have law: "obs_pushed obs (channel_key o' (env_topic e)) frame r r' \<or> err \<noteq> None \<and> (\<forall>k. obs k r' = obs k r)"
    using spec [OF spec [OF spec [OF assms(1) [unfolded push_law_def]]],
        of "channel_key o' (env_topic e)" frame r] by (cases err) auto
  have "channel_key o' (env_topic e) = channel_key o' topic \<longleftrightarrow> env_topic e = topic"
    by (simp add: channel_key_def)
  then show ?thesis
    using law c(2) decoded_frame [OF assms(2) Inr] by (auto simp: obs_pushed_def)
qed

lemma list_turn_queued:
  assumes "pop_law obs R" and "list_turn R o' hl topic r = (envs, r')"
  shows "queued obs hl o' topic r = envs @ queued obs hl o' topic r' \<or>
    envs = [] \<and> obs (channel_key o' topic) r' = tl (obs (channel_key o' topic) r) \<and>
    (\<exists>e. cr_brpop R (channel_key o' topic) (co_block_timeout o') r = (Inl e, r'))"
proof -
  obtain res where res: "cr_brpop R (channel_key o' topic) (co_block_timeout o') r = (res, r')"
    using assms(2) by (auto simp: list_turn_def split: prod.splits sum.splits option.splits)
  have law: "case res of
           Inr (Some es) \<Rightarrow> (\<exists>key x. es = [key, x] \<and> obs (channel_key o' topic) r = x # obs (channel_key o' topic) r')
         | Inr None \<Rightarrow> obs (channel_key o' topic) r' = obs (channel_key o' topic) r
         | Inl e \<Rightarrow> obs (channel_key o' topic) r' = obs (channel_key o' topic) r \<or>
             obs (channel_key o' topic) r' = tl (obs (channel_key o' topic) r)"
    using spec [OF spec [OF spec [OF assms(1) [unfolded pop_law_def]]],
        of "channel_key o' topic" "co_block_timeout o'" r] res by simp
  then show ?thesis
    using assms(2) res by (auto simp: list_turn_def split: sum.splits option.splits)
qed


lemma list_run_subseq:
  assumes "push_law obs R" and "pop_law obs R" and "\<And>e. ListSend e \<in> set ops \<Longrightarrow> sound_envelope hl e"
    and "list_run R o' hl topic ops r = ((ds, ok), r')"
  shows "subseq (ds @ queued obs hl o' topic r') (queued obs hl o' topic r @ sent_on topic ops)"
  using assms(3,4)
proof (induction ops arbitrary: r ds ok)
  case (Cons x ops)
  show ?case
  proof (cases x)
    case (ListSend e)
    then obtain res r1 ok1 where c: "list_call R o' hl e r = (res, r1)" "list_run R o' hl topic ops r1 = ((ds, ok1), r')"
      using Cons.prems(2) by (auto split: prod.splits)
    have "subseq (ds @ queued obs hl o' topic r') (queued obs hl o' topic r1 @ sent_on topic ops)"
      using Cons.IH [OF Cons.prems(1) c(2)] by simp
    moreover have "subseq (queued obs hl o' topic r1 @ sent_on topic ops) (queued obs hl o' topic r @ sent_on topic (x # ops))"
      using list_call_queued [OF assms(1) Cons.prems(1) c(1), of topic] ListSend
      by (auto intro: list_emb_append_mono)
    ultimately show ?thesis by (rule subseq_order.trans)
  next
    case ListPoll
    then obtain envs r1 ds1 ok1 where c: "list_turn R o' hl topic r = (envs, r1)"
      "list_run R o' hl topic ops r1 = ((ds1, ok1), r')" "ds = envs @ ds1"
      using Cons.prems(2) by (auto split: prod.splits)
    have i: "subseq (ds1 @ queued obs hl o' topic r') (queued obs hl o' topic r1 @ sent_on topic ops)"
      using Cons.IH [OF Cons.prems(1) c(2)] by simp
    have "subseq (envs @ queued obs hl o' topic r1) (queued obs hl o' topic r)"
    proof -
      have "subseq (concat (map (decoded hl topic) (tl l))) (concat (map (decoded hl topic) l))" for l
        by (cases l) auto
      then show ?thesis using list_turn_queued [OF assms(2) c(1)] by auto
    qed
    from list_emb_append_mono [OF this subseq_order.order_refl [of "sent_on topic ops"]]
    have "subseq (envs @ queued obs hl o' topic r1 @ sent_on topic ops) (queued obs hl o' topic r @ sent_on topic ops)"
      by simp
    with list_emb_append_mono [OF subseq_order.order_refl [of envs] i]
    have "subseq (envs @ ds1 @ queued obs hl o' topic r') (queued obs hl o' topic r @ sent_on topic ops)"
      by (rule subseq_order.trans)
    then show ?thesis using c(3) ListPoll by simp
  qed
qed simp

lemma list_run_exact:
  assumes "push_law obs R" and "pop_law obs R" and "\<And>e. ListSend e \<in> set ops \<Longrightarrow> sound_envelope hl e"
    and "list_run R o' hl topic ops r = ((ds, True), r')"
    and "\<And>t q q' e. cr_brpop R (channel_key o' topic) t q = (Inl e, q') \<Longrightarrow>
      obs (channel_key o' topic) q' = obs (channel_key o' topic) q"
  shows "ds @ queued obs hl o' topic r' = queued obs hl o' topic r @ sent_on topic ops"
  using assms(3,4)
proof (induction ops arbitrary: r ds)
  case (Cons x ops)
  show ?case
  proof (cases x)
    case (ListSend e)
    then obtain res r1 where c: "list_call R o' hl e r = (res, r1)" "is_ok res" "list_run R o' hl topic ops r1 = ((ds, True), r')"
      using Cons.prems(2) by (auto split: prod.splits)
    then show ?thesis
      using list_call_queued [OF assms(1) Cons.prems(1) c(1), of topic] Cons.IH [OF Cons.prems(1) c(3)] ListSend by auto
  next
    case ListPoll
    then obtain envs r1 ds1 where c: "list_turn R o' hl topic r = (envs, r1)"
      "list_run R o' hl topic ops r1 = ((ds1, True), r')" "ds = envs @ ds1"
      using Cons.prems(2) by (auto split: prod.splits)
    have "queued obs hl o' topic r = envs @ queued obs hl o' topic r1"
      using list_turn_queued [OF assms(2) c(1)]
    proof
      assume "envs = [] \<and> obs (channel_key o' topic) r1 = tl (obs (channel_key o' topic) r) \<and>
        (\<exists>e. cr_brpop R (channel_key o' topic) (co_block_timeout o') r = (Inl e, r1))"
      then show ?thesis using assms(5) by auto
    qed
    then show ?thesis using Cons.IH [OF Cons.prems(1) c(2)] c(3) ListPoll by simp
  qed
qed simp

text \<open>
  The list channel is a queue that may lose messages, and never invents, repeats or reorders
  one. Whatever senders and subscribers of a topic do in whatever order, and whichever commands
  fail, the envelopes delivered so far followed by those still queued are a subsequence of those
  sent on that topic, in the order they were sent. If every call was acknowledged and no failed
  \<open>BRPOP\<close> removed an element, they are exactly those: delivery is first in, first out.
\<close>

theorem list_channel_fifo:
  assumes "push_law obs R" and "pop_law obs R" and "obs (channel_key o' topic) r = []"
    and "\<forall>e. ListSend e \<in> set ops \<longrightarrow> sound_envelope hl e"
    and "list_run R o' hl topic ops r = ((ds, ok), r')"
  shows "subseq (ds @ concat (map (decoded hl topic) (obs (channel_key o' topic) r'))) (sent_on topic ops) \<and>
    (ok \<and> (\<forall>t q q' e. cr_brpop R (channel_key o' topic) t q = (Inl e, q') \<longrightarrow>
            obs (channel_key o' topic) q' = obs (channel_key o' topic) q) \<longrightarrow>
      ds @ concat (map (decoded hl topic) (obs (channel_key o' topic) r')) = sent_on topic ops)"
proof
  show "subseq (ds @ queued obs hl o' topic r') (sent_on topic ops)"
    using list_run_subseq [OF assms(1,2) _ assms(5)] assms(3,4) by simp
  show "ok \<and> (\<forall>t q q' e. cr_brpop R (channel_key o' topic) t q = (Inl e, q') \<longrightarrow>
            obs (channel_key o' topic) q' = obs (channel_key o' topic) q) \<longrightarrow>
      ds @ queued obs hl o' topic r' = sent_on topic ops"
  proof (intro impI, elim conjE)
    assume "ok" and kept: "\<forall>t q q' e. cr_brpop R (channel_key o' topic) t q = (Inl e, q') \<longrightarrow>
            obs (channel_key o' topic) q' = obs (channel_key o' topic) q"
    then have "list_run R o' hl topic ops r = ((ds, True), r')" using assms(5) by simp
    from list_run_exact [OF assms(1,2) _ this] kept
    show "ds @ queued obs hl o' topic r' = sent_on topic ops" using assms(3,4) by simp
  qed
qed

text \<open>A Redis that keeps its lists as functions of the key, and where every third \<open>LPUSH\<close> is lost.\<close>

definition list_redis :: "(nat, (string \<Rightarrow> byte list list) \<times> nat) channel_redis" where
  "list_redis =
     \<lparr>cr_lpush = (\<lambda>k x (f, n). if n mod 3 = 2 then (Some ''io'', (f, Suc n)) else (None, (f(k := f k @ [x]), Suc n))),
      cr_brpop = (\<lambda>k t (f, n). case f k of [] \<Rightarrow> (Inr None, (f, n)) | x # xs \<Rightarrow> (Inr (Some [[], x]), (f(k := xs), n))),
      cr_zadd = (\<lambda>_ _ _ r. (Some ''no'', r)), cr_zpopmin = (\<lambda>_ r. (Inl ''no'', r)),
      cr_xadd = (\<lambda>_ _ _ r. (Some ''no'', r)), cr_xgroup = (\<lambda>_ _ r. (Some ''no'', r)),
      cr_xread = (\<lambda>_ _ _ r. (Inl ''no'', r)), cr_xack = (\<lambda>_ _ _ r. r), cr_publish = (\<lambda>_ _ r. (Some ''no'', r))\<rparr>"

lemma list_redis_laws: "push_law (\<lambda>k r. fst r k) list_redis \<and> pop_law (\<lambda>k r. fst r k) list_redis"
  by (auto simp: push_law_def pop_law_def list_redis_def obs_pushed_def Let_def split: list.splits)

definition job :: "byte \<Rightarrow> byte list envelope" where
  "job b = sample_envelope\<lparr>env_topic := ''q'', env_payload := [b]\<rparr>"

definition plain_options :: channel_options where
  "plain_options = channel_defaults \<lparr>co_prefix = '''', co_block_timeout = 0, co_max_len = 0, co_group = '''', co_consumer = ''''\<rparr>"

definition job_history :: "list_op list" where
  "job_history = [ListSend (job 1), ListSend (job 2), ListPoll, ListSend (job 3), ListPoll, ListSend (job 4)]"

theorem list_channel_fifo_witness:
  "\<exists>ds ok r'. list_run list_redis plain_options plain_headers ''q'' job_history (\<lambda>_. [], 0) = ((ds, ok), r') \<and>
    subseq (ds @ concat (map (decoded plain_headers ''q'') (fst r' (channel_key plain_options ''q''))))
      [job 1, job 2, job 3, job 4]"
proof -
  obtain p r' where p: "list_run list_redis plain_options plain_headers ''q'' job_history (\<lambda>_. [], 0) = (p, r')"
    by (rule prod.exhaust)
  obtain ds ok where "p = (ds, ok)" by (rule prod.exhaust)
  note r = p [unfolded this]
  have j: "sound_envelope plain_headers (job b)" for b
  proof -
    have "envelope_fits ''null'' (job b)"
      by (simp add: job_def sample_envelope_def envelope_fits_def in_int64_def)
    moreover have "env_headers (job b) = []" by (simp add: job_def sample_envelope_def)
    ultimately show ?thesis by (simp add: sound_envelope_def plain_headers_def decode_headers_def)
  qed
  have s: "\<forall>e. ListSend e \<in> set job_history \<longrightarrow> sound_envelope plain_headers e"
  proof (intro allI impI)
    fix e
    assume "ListSend e \<in> set job_history"
    then have "e \<in> {job 1, job 2, job 3, job 4}" by (auto simp: job_history_def)
    then show "sound_envelope plain_headers e" using j by blast
  qed
  have t: "sent_on ''q'' job_history = [job 1, job 2, job 3, job 4]"
    by (simp add: job_history_def job_def)
  have "fst (\<lambda>_. [], 0 :: nat) (channel_key plain_options ''q'') = []" by simp
  from conjunct1 [OF list_channel_fifo [OF conjunct1 [OF list_redis_laws] conjunct2 [OF list_redis_laws] this s r]]
  have q: "subseq (ds @ concat (map (decoded plain_headers ''q'') (fst r' (channel_key plain_options ''q''))))
      [job 1, job 2, job 3, job 4]"
    unfolding t .
  show ?thesis
    by (intro exI [of _ ds] exI [of _ ok] exI [of _ r'] conjI) (rule r, rule q)
qed

end
