(* ===== verification/MemChannel.thy ===== *)
theory MemChannel
  imports EventBus "HOL-Library.Sublist"
begin

text \<open>
  The in-memory channel (\<open>internal/eventbus/channel/mem/memory.go\<close>): a subscription is a bounded
  buffer with a loop that hands envelopes to its handler; a call without a request handler puts
  the envelope into the buffer of every subscription of the topic. The steps of the loops, the
  callers and \<open>Close\<close> interleave freely.
\<close>

section \<open>State\<close>

definition memory_buffer :: nat where
  "memory_buffer = 64"

definition memory_caps :: capabilities where
  "memory_caps = \<lparr>cap_subscribe = True, cap_request_reply = True, cap_full_duplex = True, cap_local_ack = False\<rparr>"

text \<open>\<open>su_closed\<close>: its \<open>done\<close> channel is closed; \<open>su_running\<close>: its loop runs; \<open>su_handled\<close>: what
  the handler was called with.\<close>

record 'p mem_sub =
  su_topic :: string
  su_buffer :: "'p envelope list"
  su_closed :: bool
  su_running :: bool
  su_handled :: "'p envelope list"

record ('p, 'w) memory =
  me_subs :: "nat \<Rightarrow> 'p mem_sub option"
  me_next :: nat
  me_topics :: "(string \<times> nat list) list"
  me_reqs :: "(string \<times> ('p envelope \<Rightarrow> 'w \<Rightarrow> (string + 'p envelope) \<times> 'w)) list"

definition new_memory :: "('p, 'w) memory" where
  "new_memory = \<lparr>me_subs = (\<lambda>_. None), me_next = 0, me_topics = [], me_reqs = []\<rparr>"

section \<open>Operations\<close>

definition mem_handle ::
  "string \<Rightarrow> ('p envelope \<Rightarrow> 'w \<Rightarrow> (string + 'p envelope) \<times> 'w) \<Rightarrow> ('p, 'w) memory \<Rightarrow> ('p, 'w) memory" where
  "mem_handle topic fn m = m\<lparr>me_reqs := AList.update topic fn (me_reqs m)\<rparr>"

definition subs_of :: "('p, 'w) memory \<Rightarrow> string \<Rightarrow> nat list" where
  "subs_of m topic = (case map_of (me_topics m) topic of None \<Rightarrow> [] | Some ids \<Rightarrow> ids)"


text \<open>\<open>Subscribe\<close> with a handler; without one it is refused.\<close>

definition mem_subscribe :: "string \<Rightarrow> bool \<Rightarrow> ('p, 'w) memory \<Rightarrow> (string + nat) \<times> ('p, 'w) memory" where
  "mem_subscribe topic has_handler m =
     (if \<not> has_handler then (Inl ''eventbus/channel: Subscribe requires a non-nil channel.Handler'', m)
      else let i = me_next m in
        (Inr i, m\<lparr>me_next := Suc i,
           me_subs := (me_subs m)(i \<mapsto> \<lparr>su_topic = topic, su_buffer = [], su_closed = False, su_running = True,
             su_handled = []\<rparr>),
           me_topics := AList.update topic (i # subs_of m topic) (me_topics m)\<rparr>))"

text \<open>\<open>remove\<close>: the last subscription of a topic removes the topic.\<close>

definition mem_remove :: "nat \<Rightarrow> string \<Rightarrow> ('p, 'w) memory \<Rightarrow> ('p, 'w) memory" where
  "mem_remove i topic m =
     (case map_of (me_topics m) topic of
        None \<Rightarrow> m
      | Some ids \<Rightarrow>
          (let rest = filter (\<lambda>j. j \<noteq> i) ids in
           m\<lparr>me_topics := (if rest = [] then AList.delete topic (me_topics m)
                           else AList.update topic rest (me_topics m))\<rparr>))"

definition mem_close :: "nat \<Rightarrow> ('p, 'w) memory \<Rightarrow> ('p, 'w) memory" where
  "mem_close i m =
     (case me_subs m i of
        None \<Rightarrow> m
      | Some q \<Rightarrow> mem_remove i (su_topic q) (m\<lparr>me_subs := (me_subs m)(i \<mapsto> q\<lparr>su_closed := True\<rparr>)\<rparr>))"

text \<open>The loop takes the oldest envelope; \<open>None\<close>: not possible.\<close>

definition mem_turn :: "nat \<Rightarrow> ('p, 'w) memory \<Rightarrow> ('p, 'w) memory option" where
  "mem_turn i m =
     (case me_subs m i of
        None \<Rightarrow> None
      | Some q \<Rightarrow>
          (case su_buffer q of
             [] \<Rightarrow> None
           | e # es \<Rightarrow>
               if \<not> su_running q then None
               else Some (m\<lparr>me_subs := (me_subs m)(i \<mapsto> q\<lparr>su_buffer := es, su_handled := su_handled q @ [e]\<rparr>)\<rparr>)))"

text \<open>The loop ends: its context is done (\<open>ctx\<close>), or it sees the closed subscription.\<close>

definition mem_stop :: "nat \<Rightarrow> bool \<Rightarrow> ('p, 'w) memory \<Rightarrow> ('p, 'w) memory option" where
  "mem_stop i ctx m =
     (case me_subs m i of
        None \<Rightarrow> None
      | Some q \<Rightarrow>
          if su_running q \<and> (ctx \<or> su_closed q)
          then Some (mem_remove i (su_topic q) (m\<lparr>me_subs := (me_subs m)(i \<mapsto> q\<lparr>su_running := False\<rparr>)\<rparr>))
          else None)"

text \<open>A caller puts its envelope into one buffer that has room.\<close>

definition mem_put :: "nat \<Rightarrow> 'p envelope \<Rightarrow> ('p, 'w) memory \<Rightarrow> ('p, 'w) memory option" where
  "mem_put i e m =
     (case me_subs m i of
        None \<Rightarrow> None
      | Some q \<Rightarrow>
          if length (su_buffer q) < memory_buffer
          then Some (m\<lparr>me_subs := (me_subs m)(i \<mapsto> q\<lparr>su_buffer := su_buffer q @ [e]\<rparr>)\<rparr>) else None)"

text \<open>
  A one-way call: the subscriptions it saw that remain to be served. What ends a turn of its loop:
  the send, a closed subscription, or the end of its context.
\<close>

record 'p mem_call =
  mb_env :: "'p envelope"
  mb_left :: "nat list"
  mb_result :: "(string + 'p envelope) option"

datatype mem_wait = MemSent | MemClosed | MemContext

definition zero_envelope :: "'p \<Rightarrow> 'p envelope" where
  "zero_envelope p = \<lparr>env_topic = '''', env_key = '''', env_attempt = 0, env_correlation = '''', env_target = '''',
     env_headers = [], env_payload = p\<rparr>"

text \<open>A call starts: the handler of the topic, or the subscriptions in some order \<open>ids\<close>.\<close>

definition call_starts :: "'p envelope \<Rightarrow> nat list \<Rightarrow> ('p, 'w) memory \<Rightarrow> 'p mem_call option" where
  "call_starts e ids m =
     (if map_of (me_reqs m) (env_topic e) = None \<and> distinct ids \<and> set ids = set (subs_of m (env_topic e))
      then Some \<lparr>mb_env = e, mb_left = ids, mb_result = None\<rparr> else None)"

definition call_turn :: "mem_wait \<Rightarrow> 'p \<Rightarrow> 'p mem_call \<Rightarrow> ('p, 'w) memory \<Rightarrow> ('p mem_call \<times> ('p, 'w) memory) option" where
  "call_turn wait nil b m =
     (if mb_result b \<noteq> None then None
      else case mb_left b of
          [] \<Rightarrow> Some (b\<lparr>mb_result := Some (Inr (zero_envelope nil))\<rparr>, m)
        | i # ids \<Rightarrow>
            (case wait of
               MemSent \<Rightarrow> map_option (\<lambda>m1. (b\<lparr>mb_left := ids\<rparr>, m1)) (mem_put i (mb_env b) m)
             | MemClosed \<Rightarrow>
                 (case me_subs m i of
                    None \<Rightarrow> None
                  | Some q \<Rightarrow> if su_closed q then Some (b\<lparr>mb_left := ids\<rparr>, m) else None)
             | MemContext \<Rightarrow> Some (b\<lparr>mb_result := Some (Inl ''context'')\<rparr>, m)))"

text \<open>A call to a topic with a request handler; \<open>in_time\<close>: it answers before the context ends.\<close>

definition mem_request :: "'p envelope \<Rightarrow> bool \<Rightarrow> ('p, 'w) memory \<Rightarrow> 'w \<Rightarrow> ((string + 'p envelope) \<times> 'w) option" where
  "mem_request e in_time m w =
     (case map_of (me_reqs m) (env_topic e) of
        None \<Rightarrow> None
      | Some fn \<Rightarrow> (let (r, w1) = fn e w in Some (if in_time then r else Inl ''context'', w1)))"

section \<open>Interleavings\<close>

datatype 'p mem_event =
    MemSubscribe string | MemClose nat | MemTurn nat | MemStop nat bool
  | MemCall "'p envelope" "nat list" | MemWait nat mem_wait

text \<open>The channel with the calls under way.\<close>

fun mem_event_step ::
  "'p \<Rightarrow> 'p mem_event \<Rightarrow> ('p, 'w) memory \<times> 'p mem_call list \<Rightarrow> (('p, 'w) memory \<times> 'p mem_call list) option" where
  "mem_event_step nil (MemSubscribe t) (m, bs) = Some (snd (mem_subscribe t True m), bs)"
| "mem_event_step nil (MemClose i) (m, bs) = Some (mem_close i m, bs)"
| "mem_event_step nil (MemTurn i) (m, bs) = map_option (\<lambda>m1. (m1, bs)) (mem_turn i m)"
| "mem_event_step nil (MemStop i ctx) (m, bs) = map_option (\<lambda>m1. (m1, bs)) (mem_stop i ctx m)"
| "mem_event_step nil (MemCall e ids) (m, bs) = map_option (\<lambda>b. (m, bs @ [b])) (call_starts e ids m)"
| "mem_event_step nil (MemWait n wait) (m, bs) =
     (if n < length bs then map_option (\<lambda>(b, m1). (m1, bs[n := b])) (call_turn wait nil (bs ! n) m) else None)"

fun mem_events_run ::
  "'p \<Rightarrow> 'p mem_event list \<Rightarrow> ('p, 'w) memory \<times> 'p mem_call list \<Rightarrow> (('p, 'w) memory \<times> 'p mem_call list) option" where
  "mem_events_run nil [] st = Some st"
| "mem_events_run nil (x # xs) st = Option.bind (mem_event_step nil x st) (mem_events_run nil xs)"


section \<open>Delivery\<close>

definition mem_ok :: "('p, 'w) memory \<Rightarrow> bool" where
  "mem_ok m \<longleftrightarrow>
     (\<forall>i. me_next m \<le> i \<longrightarrow> me_subs m i = None) \<and>
     (\<forall>t. \<forall>i\<in>set (subs_of m t). \<exists>q. me_subs m i = Some q \<and> su_topic q = t)"

definition call_fits :: "('p, 'w) memory \<Rightarrow> 'p mem_call \<Rightarrow> bool" where
  "call_fits m b \<longleftrightarrow> distinct (mb_left b) \<and>
     (\<forall>i\<in>set (mb_left b). \<exists>q. me_subs m i = Some q \<and> su_topic q = env_topic (mb_env b))"

text \<open>The envelopes of the calls that are past subscription \<open>i\<close>.\<close>

definition served :: "nat \<Rightarrow> 'p mem_call list \<Rightarrow> 'p envelope list" where
  "served i bs = map mb_env (filter (\<lambda>b. i \<notin> set (mb_left b)) bs)"

definition sub_fits :: "nat \<Rightarrow> 'p mem_sub \<Rightarrow> 'p mem_call list \<Rightarrow> bool" where
  "sub_fits i q bs \<longleftrightarrow> length (su_buffer q) \<le> memory_buffer \<and>
     mset (su_handled q @ su_buffer q) \<subseteq># mset (served i bs) \<and>
     (\<forall>e\<in>set (su_handled q @ su_buffer q). env_topic e = su_topic q)"

definition mem_inv :: "('p, 'w) memory \<times> 'p mem_call list \<Rightarrow> bool" where
  "mem_inv st \<longleftrightarrow> mem_ok (fst st) \<and> (\<forall>b\<in>set (snd st). call_fits (fst st) b) \<and>
     (\<forall>i q. me_subs (fst st) i = Some q \<longrightarrow> sub_fits i q (snd st))"

text \<open>Subscriptions keep their topic, and none is forgotten.\<close>

abbreviation subs_grow :: "('p, 'w) memory \<Rightarrow> ('p, 'w) memory \<Rightarrow> bool" where
  "subs_grow m m' \<equiv> \<forall>i q. me_subs m i = Some q \<longrightarrow> (\<exists>q'. me_subs m' i = Some q' \<and> su_topic q' = su_topic q)"

lemma call_fits_grow: "call_fits m b \<Longrightarrow> subs_grow m m' \<Longrightarrow> call_fits m' b"
  unfolding call_fits_def by metis

lemma mem_ok_remove:
  assumes "mem_ok m"
  shows "mem_ok (mem_remove i t m) \<and> me_subs (mem_remove i t m) = me_subs m"
proof -
  have "set (subs_of (mem_remove i t m) t') \<subseteq> set (subs_of m t')" for t'
    by (auto simp: mem_remove_def subs_of_def Let_def AList.delete_conv' AList.update_conv' split: option.splits if_splits)
  moreover have "me_subs (mem_remove i t m) = me_subs m" "me_next (mem_remove i t m) = me_next m"
    by (auto simp: mem_remove_def Let_def split: option.splits)
  ultimately show ?thesis using assms by (simp add: mem_ok_def) blast
qed

lemma mem_ok_sub:
  assumes "mem_ok m" and "me_subs m i = Some q" and "su_topic q' = su_topic q"
  shows "mem_ok (m\<lparr>me_subs := (me_subs m)(i \<mapsto> q')\<rparr>)"
proof -
  have "subs_of (m\<lparr>me_subs := (me_subs m)(i \<mapsto> q')\<rparr>) t = subs_of m t" for t by (simp add: subs_of_def)
  then show ?thesis using assms unfolding mem_ok_def by (auto simp: fun_upd_def) (metis option.inject)
qed

lemma mem_ok_subscribe:
  assumes "mem_ok m"
  shows "mem_ok (snd (mem_subscribe t True m))" and "subs_grow m (snd (mem_subscribe t True m))"
proof -
  have fresh: "me_subs m (me_next m) = None" using assms by (simp add: mem_ok_def)
  then show "subs_grow m (snd (mem_subscribe t True m))" by (auto simp: mem_subscribe_def Let_def)
  have s: "subs_of (snd (mem_subscribe t True m)) t' = (if t' = t then me_next m # subs_of m t else subs_of m t')" for t'
    by (simp add: mem_subscribe_def Let_def subs_of_def AList.update_conv')
  have old: "\<exists>q. me_subs m i = Some q \<and> su_topic q = t'" if "i \<in> set (subs_of m t')" for i t'
    using assms that by (simp add: mem_ok_def)
  have "\<exists>q. me_subs (snd (mem_subscribe t True m)) i = Some q \<and> su_topic q = t'"
    if "i \<in> set (subs_of (snd (mem_subscribe t True m)) t')" for i t'
  proof (cases "i = me_next m")
    case True
    then have "t' = t" using that old [of i t'] fresh s by (auto split: if_splits)
    then show ?thesis using True by (simp add: mem_subscribe_def Let_def)
  next
    case False
    then show ?thesis using that s old [of i t'] by (auto simp: mem_subscribe_def Let_def split: if_splits)
  qed
  moreover have "me_subs (snd (mem_subscribe t True m)) i = None" if "Suc (me_next m) \<le> i" for i
    using assms that by (simp add: mem_subscribe_def Let_def mem_ok_def)
  moreover have "me_next (snd (mem_subscribe t True m)) = Suc (me_next m)" by (simp add: mem_subscribe_def Let_def)
  ultimately show "mem_ok (snd (mem_subscribe t True m))" by (simp add: mem_ok_def)
qed

text \<open>One subscription changes to \<open>q'\<close>, the calls stay.\<close>

lemma mem_inv_sub:
  assumes inv: "mem_inv (m, bs)" and q: "me_subs m i = Some q" and q': "su_topic q' = su_topic q" "sub_fits i q' bs"
  shows "mem_inv (m\<lparr>me_subs := (me_subs m)(i \<mapsto> q')\<rparr>, bs)"
proof -
  let ?m = "m\<lparr>me_subs := (me_subs m)(i \<mapsto> q')\<rparr>"
  have "subs_grow m ?m" using q q'(1) by auto
  then have "\<forall>b\<in>set bs. call_fits ?m b" using inv call_fits_grow by (force simp: mem_inv_def)
  then show ?thesis
    using inv mem_ok_sub [of m i q q'] q q' by (auto simp: mem_inv_def)
qed

lemma mem_inv_remove: "mem_inv (m, bs) \<Longrightarrow> mem_inv (mem_remove i t m, bs)"
  using mem_ok_remove [of m i t] by (simp add: mem_inv_def call_fits_def)


lemma served_mono:
  assumes "n < length bs" and "mb_env b = mb_env (bs ! n)" and "set (mb_left b) \<subseteq> set (mb_left (bs ! n))"
  shows "mset (served i bs) \<subseteq># mset (served i (bs[n := b]))"
proof -
  have split: "bs = take n bs @ bs ! n # drop (Suc n) bs" using assms(1) by (rule id_take_nth_drop)
  have "bs[n := b] = take n bs @ b # drop (Suc n) bs" using assms(1) by (rule upd_conv_take_nth_drop)
  then have "mset (served i (bs[n := b])) = mset (served i (take n bs)) + mset (served i [b]) + mset (served i (drop (Suc n) bs))"
    by (simp add: served_def)
  moreover have "mset (served i bs) = mset (served i (take n bs)) + mset (served i [bs ! n]) + mset (served i (drop (Suc n) bs))"
    using arg_cong [OF split, of "\<lambda>l. mset (served i l)"] by (simp add: served_def)
  moreover have "mset (served i [bs ! n]) \<subseteq># mset (served i [b])"
    using assms(2,3) by (auto simp: served_def)
  ultimately show ?thesis by simp
qed

lemma served_gain:
  assumes "n < length bs" and "mb_env b = mb_env (bs ! n)" and "mb_left (bs ! n) = i # mb_left b" and "distinct (mb_left (bs ! n))"
  shows "mset (served i bs) + {#mb_env b#} \<subseteq># mset (served i (bs[n := b]))"
proof -
  have split: "bs = take n bs @ bs ! n # drop (Suc n) bs" using assms(1) by (rule id_take_nth_drop)
  have "bs[n := b] = take n bs @ b # drop (Suc n) bs" using assms(1) by (rule upd_conv_take_nth_drop)
  then have "mset (served i (bs[n := b])) = mset (served i (take n bs)) + mset (served i [b]) + mset (served i (drop (Suc n) bs))"
    by (simp add: served_def)
  moreover have "mset (served i bs) = mset (served i (take n bs)) + mset (served i [bs ! n]) + mset (served i (drop (Suc n) bs))"
    using arg_cong [OF split, of "\<lambda>l. mset (served i l)"] by (simp add: served_def)
  ultimately show ?thesis using assms(3,4) by (simp add: served_def)
qed

text \<open>A call goes on; the subscriptions stay as they are, or the one it serves gets its envelope.\<close>

lemma mem_inv_call:
  assumes inv: "mem_inv (m, bs)" and n: "n < length bs"
    and b: "mb_env b = mb_env (bs ! n)" "set (mb_left b) \<subseteq> set (mb_left (bs ! n))" "distinct (mb_left b)"
  shows "mem_inv (m, bs[n := b])"
proof -
  have "call_fits m (bs ! n)" using inv n by (simp add: mem_inv_def)
  then have "call_fits m b" using b by (auto simp: call_fits_def)
  then have "\<forall>c\<in>set (bs[n := b]). call_fits m c"
    using inv n set_update_subset_insert [of bs n b] by (auto simp: mem_inv_def)
  moreover have "sub_fits i q (bs[n := b])" if "me_subs m i = Some q" for i q
    using inv that served_mono [OF n b(1,2), of i] unfolding mem_inv_def sub_fits_def
    by (auto intro: subset_mset.order_trans)
  ultimately show ?thesis using inv by (simp add: mem_inv_def)
qed

lemma mem_inv_turn:
  assumes inv: "mem_inv (m, bs)" and n: "n < length bs" and turn: "call_turn wait nil (bs ! n) m = Some (b, m')"
  shows "mem_inv (m', bs[n := b])"
proof (cases "mb_left (bs ! n)")
  case Nil
  then show ?thesis
    using turn mem_inv_call [OF inv n, of b] by (auto simp: call_turn_def split: if_splits)
next
  case (Cons i ids)
  have fits: "call_fits m (bs ! n)" using inv n by (simp add: mem_inv_def)
  then have d: "distinct (i # ids)" using Cons by (simp add: call_fits_def)
  show ?thesis
  proof (cases wait)
    case MemSent
    then obtain q where q: "me_subs m i = Some q" "length (su_buffer q) < memory_buffer"
      and b: "b = (bs ! n)\<lparr>mb_left := ids\<rparr>"
      and m': "m' = m\<lparr>me_subs := (me_subs m)(i \<mapsto> q\<lparr>su_buffer := su_buffer q @ [mb_env (bs ! n)]\<rparr>)\<rparr>"
      using turn Cons by (auto simp: call_turn_def mem_put_def split: if_splits option.splits)
    have topic: "env_topic (mb_env (bs ! n)) = su_topic q"
      using fits Cons q(1) by (auto simp: call_fits_def)
    have inv1: "mem_inv (m, bs[n := b])" using mem_inv_call [OF inv n, of b] b Cons d by auto
    have "mset (served i bs) + {#mb_env b#} \<subseteq># mset (served i (bs[n := b]))"
      using served_gain [OF n, of b i] b Cons d by simp
    moreover have "sub_fits i q bs" using inv q(1) by (simp add: mem_inv_def)
    moreover have "mset (su_handled q @ su_buffer q) + {#mb_env b#} \<subseteq># mset (served i bs) + {#mb_env b#}"
      using \<open>sub_fits i q bs\<close> unfolding sub_fits_def by (intro subset_mset.add_mono) auto
    ultimately have "mset (su_handled q @ su_buffer q) + {#mb_env b#} \<subseteq># mset (served i (bs[n := b]))"
      using subset_mset.order_trans by blast
    then have "sub_fits i (q\<lparr>su_buffer := su_buffer q @ [mb_env (bs ! n)]\<rparr>) (bs[n := b])"
      using \<open>sub_fits i q bs\<close> q(2) topic b by (auto simp: sub_fits_def)
    then show ?thesis using mem_inv_sub [OF inv1 q(1)] m' by simp
  next
    case MemClosed
    then have "b = (bs ! n)\<lparr>mb_left := ids\<rparr>" "m' = m"
      using turn Cons by (auto simp: call_turn_def split: if_splits option.splits)
    then show ?thesis using mem_inv_call [OF inv n, of b] Cons d by (simp add: subset_insertI)
  next
    case MemContext
    then show ?thesis
      using turn Cons d mem_inv_call [OF inv n, of b] by (auto simp: call_turn_def split: if_splits)
  qed
qed


lemma mem_inv_step:
  assumes inv: "mem_inv (m, bs)" and step: "mem_event_step nil x (m, bs) = Some (m', bs')"
  shows "mem_inv (m', bs')"
proof (cases x)
  case (MemSubscribe t)
  have m': "m' = snd (mem_subscribe t True m)" "bs' = bs" using step MemSubscribe by auto
  have ok: "mem_ok m" using inv by (simp add: mem_inv_def)
  have "\<forall>b\<in>set bs. call_fits m' b"
    using inv mem_ok_subscribe(2) [OF ok, of t] call_fits_grow m'(1) by (force simp: mem_inv_def)
  moreover have "sub_fits i q bs" if "me_subs m' i = Some q" for i q
    using inv that m'(1)
    by (cases "i = me_next m") (auto simp: mem_inv_def mem_subscribe_def Let_def sub_fits_def memory_buffer_def)
  ultimately show ?thesis using mem_ok_subscribe(1) [OF ok, of t] m' by (simp add: mem_inv_def)
next
  case (MemClose i)
  show ?thesis
  proof (cases "me_subs m i")
    case None
    then show ?thesis using inv step MemClose by (auto simp: mem_close_def)
  next
    case (Some q)
    have "sub_fits i (q\<lparr>su_closed := True\<rparr>) bs" using inv Some by (simp add: mem_inv_def sub_fits_def)
    then have "mem_inv (m\<lparr>me_subs := (me_subs m)(i \<mapsto> q\<lparr>su_closed := True\<rparr>)\<rparr>, bs)"
      using mem_inv_sub [OF inv Some] by simp
    then show ?thesis using mem_inv_remove step MemClose Some by (auto simp: mem_close_def)
  qed
next
  case (MemTurn i)
  then obtain q e es where q: "me_subs m i = Some q" "su_buffer q = e # es"
    "m' = m\<lparr>me_subs := (me_subs m)(i \<mapsto> q\<lparr>su_buffer := es, su_handled := su_handled q @ [e]\<rparr>)\<rparr>" "bs' = bs"
    using step by (auto simp: mem_turn_def split: option.splits list.splits if_splits)
  have "sub_fits i q bs" using inv q(1) by (simp add: mem_inv_def)
  then have "sub_fits i (q\<lparr>su_buffer := es, su_handled := su_handled q @ [e]\<rparr>) bs"
    unfolding sub_fits_def using q(2) by simp
  then show ?thesis
    using mem_inv_sub [OF inv q(1), of "q\<lparr>su_buffer := es, su_handled := su_handled q @ [e]\<rparr>"] q(3,4) by simp
next
  case (MemStop i ctx)
  then obtain q where q: "me_subs m i = Some q" "bs' = bs"
    "m' = mem_remove i (su_topic q) (m\<lparr>me_subs := (me_subs m)(i \<mapsto> q\<lparr>su_running := False\<rparr>)\<rparr>)"
    using step by (auto simp: mem_stop_def split: option.splits if_splits)
  have "sub_fits i (q\<lparr>su_running := False\<rparr>) bs" using inv q(1) by (simp add: mem_inv_def sub_fits_def)
  then have "mem_inv (m\<lparr>me_subs := (me_subs m)(i \<mapsto> q\<lparr>su_running := False\<rparr>)\<rparr>, bs)"
    using mem_inv_sub [OF inv q(1)] by simp
  then show ?thesis using mem_inv_remove q(2,3) by simp
next
  case (MemCall e ids)
  then obtain b where b: "call_starts e ids m = Some b" "m' = m" "bs' = bs @ [b]" using step by auto
  then have "mb_left b = ids" "mb_env b = e" "distinct ids" "set ids = set (subs_of m (env_topic e))"
    by (auto simp: call_starts_def split: if_splits)
  then have "call_fits m b" using inv by (auto simp: call_fits_def mem_inv_def mem_ok_def)
  moreover have call_sub: "sub_fits i q (bs @ [b])" if "sub_fits i q bs" for i q
  proof -
    have "mset (served i bs) \<subseteq># mset (served i (bs @ [b]))" by (simp add: served_def)
    then show ?thesis using that unfolding sub_fits_def by (meson subset_mset.order_trans)
  qed
  ultimately show ?thesis
    using inv b(2,3) call_sub by (auto simp: mem_inv_def)
next
  case (MemWait n wait)
  then obtain b where "n < length bs" "call_turn wait nil (bs ! n) m = Some (b, m')" "bs' = bs[n := b]"
    using step by (auto split: if_splits)
  then show ?thesis using mem_inv_turn [OF inv] by blast
qed

lemma mem_inv_run: "mem_inv st \<Longrightarrow> mem_events_run nil xs st = Some st' \<Longrightarrow> mem_inv st'"
proof (induction xs arbitrary: st)
  case (Cons x xs)
  obtain m bs where st: "st = (m, bs)" by (rule prod.exhaust)
  obtain st1 where s1: "mem_event_step nil x (m, bs) = Some st1" "mem_events_run nil xs st1 = Some st'"
    using Cons.prems(2) unfolding st mem_events_run.simps bind_eq_Some_conv by blast
  obtain m' bs' where st1: "st1 = (m', bs')" by (rule prod.exhaust)
  have "mem_inv st1"
    using mem_inv_step [OF Cons.prems(1) [unfolded st] s1(1) [unfolded st1]] st1 by simp
  then show ?case using Cons.IH s1(2) by blast
qed simp

text \<open>
  The in-memory channel delivers each call at most once per subscription. Whatever the
  interleaving of subscriptions, closings, loops and callers, the envelopes a subscription has
  handled or holds are envelopes of its topic, as a multiset at most those of the calls that have
  passed it, and its buffer never exceeds its bound. Closing a subscription does not stop its
  handler: a loop with a non-empty buffer may still hand over the next envelope afterwards.
\<close>

theorem memory_at_most_once:
  assumes "mem_events_run nil xs (new_memory\<lparr>me_reqs := reqs\<rparr>, []) = Some (m, bs)" and "me_subs m i = Some q"
  shows "length (su_buffer q) \<le> memory_buffer \<and>
    mset (su_handled q @ su_buffer q) \<subseteq># mset (map mb_env (filter (\<lambda>b. i \<notin> set (mb_left b)) bs)) \<and>
    (\<forall>e\<in>set (su_handled q @ su_buffer q). env_topic e = su_topic q) \<and>
    (su_running q \<and> su_buffer q \<noteq> [] \<longrightarrow> mem_turn i (mem_close i m) \<noteq> None)"
proof -
  have "mem_inv (new_memory\<lparr>me_reqs := reqs\<rparr>, [])"
    by (simp add: mem_inv_def new_memory_def mem_ok_def subs_of_def)
  then have "sub_fits i q bs" using mem_inv_run [OF _ assms(1)] assms(2) by (simp add: mem_inv_def)
  moreover have "mem_turn i (mem_close i m) \<noteq> None" if "su_running q" "su_buffer q \<noteq> []"
    using assms(2) that by (auto simp: mem_turn_def mem_close_def mem_remove_def Let_def split: option.splits list.splits)
  ultimately show ?thesis by (simp add: sub_fits_def served_def)
qed

definition mem_note :: "nat \<Rightarrow> nat envelope" where
  "mem_note n = (zero_envelope n)\<lparr>env_topic := ''t''\<rparr>"

theorem memory_at_most_once_witness:
  "\<exists>m bs. mem_events_run 0 [MemSubscribe ''t'', MemCall (mem_note 7) [0], MemWait 0 MemSent]
      ((new_memory :: (nat, unit) memory)\<lparr>me_reqs := []\<rparr>, []) = Some (m, bs) \<and> mem_turn 0 (mem_close 0 m) \<noteq> None"
proof -
  let ?xs = "[MemSubscribe ''t'', MemCall (mem_note 7) [0], MemWait 0 MemSent]"
  obtain m bs where r: "mem_events_run 0 ?xs ((new_memory :: (nat, unit) memory)\<lparr>me_reqs := []\<rparr>, []) = Some (m, bs)"
    and q: "me_subs m 0 = Some \<lparr>su_topic = ''t'', su_buffer = [mem_note 7], su_closed = False, su_running = True, su_handled = []\<rparr>"
    by (simp add: new_memory_def mem_subscribe_def subs_of_def call_starts_def call_turn_def mem_put_def mem_note_def
        zero_envelope_def memory_buffer_def Let_def)
  show ?thesis using memory_at_most_once [OF r q] r by auto
qed

end
