(* ===== verification/ClusterClient.thy ===== *)
theory ClusterClient
  imports Assembly
begin

text \<open>
  The clients of the external cluster service (\<open>internal/cluster/cluster.go\<close>, \<open>http.go\<close>, \<open>grpc.go\<close>,
  \<open>static.go\<close>): the view a DSN asks for, one fetch of each kind, and the cache whose loop fetches
  again and again. The HTTP round trip, gRPC and the JSON decoder are arguments.
\<close>

section \<open>Views\<close>

datatype view_client =
    StaticClient cluster_info
  | GrpcClient string int int
  | HttpClient string int int

datatype cluster_error =
    ClusterDsn dsn_error | NoEndpoint cluster_scheme | GrpcDial string | HttpRequest string | HttpRoundTrip string
  | HttpBody string | HttpStatus int string | HttpDecode string | GrpcCall string

text \<open>\<open>NewHTTPView\<close>: a path in the host, or the canonical one.\<close>

definition cluster_http_path :: string where
  "cluster_http_path = ''/cluster.v1.ClusterService/GetClusterInfo''"

definition host_path :: "string \<Rightarrow> string \<times> string" where
  "host_path h =
     (let base = takeWhile (\<lambda>c. c \<noteq> CHR ''/'') h; path = dropWhile (\<lambda>c. c \<noteq> CHR ''/'') h in
      (base, if path = '''' \<or> path = ''/'' then cluster_http_path else path))"

definition new_http_view :: "cluster_options \<Rightarrow> cluster_error + view_client" where
  "new_http_view p =
     (if co_host p = '''' then Inl (NoEndpoint (co_scheme p))
      else let (base, path) = host_path (co_host p) in
        Inr (HttpClient ((if co_scheme p = SchemeHttps then ''https://'' else ''http://'') @ base @ path)
               (co_timeout p) (co_connect_timeout p)))"

definition new_static_view :: "cluster_options \<Rightarrow> view_client" where
  "new_static_view p = StaticClient (static_view (dsn_param p))"

text \<open>\<open>dial_err\<close>: the error of \<open>grpc.NewClient\<close>, if any.\<close>

definition new_grpc_view :: "(string \<Rightarrow> string option) \<Rightarrow> cluster_options \<Rightarrow> cluster_error + view_client" where
  "new_grpc_view dial_err p =
     (if co_host p = '''' then Inl (NoEndpoint SchemeGrpc)
      else case dial_err (co_host p) of
          Some e \<Rightarrow> Inl (GrpcDial e)
        | None \<Rightarrow> Inr (GrpcClient (co_host p) (co_timeout p) (co_connect_timeout p)))"

definition new_view :: "dsn_parsers \<Rightarrow> (string \<Rightarrow> string option) \<Rightarrow> cluster_config \<Rightarrow> cluster_error + view_client" where
  "new_view P dial_err c =
     (case parse_cluster_dsn P (cu_dsn c) of
        Inl e \<Rightarrow> Inl (ClusterDsn e)
      | Inr p \<Rightarrow>
          (case co_scheme p of
             SchemeHttp \<Rightarrow> new_http_view p
           | SchemeHttps \<Rightarrow> new_http_view p
           | SchemeLocal \<Rightarrow> Inr (new_static_view p)
           | SchemeGrpc \<Rightarrow> new_grpc_view dial_err p))"

section \<open>Fetching\<close>

type_synonym wire_info = "(string \<times> wire_node option list) option"

text \<open>
  The network: the error of building a request, the response (status, and the body read or the
  error of reading it), the decoder, and the procedure \<open>GetClusterInfo\<close>.
\<close>

record cluster_net =
  ct_request :: "string \<Rightarrow> string option"
  ct_do :: "string \<Rightarrow> string + int \<times> (string + string)"
  ct_decode :: "string \<Rightarrow> string + wire_info"
  ct_trim :: "string \<Rightarrow> string"
  ct_call :: "string \<Rightarrow> string + wire_info"

definition http_get :: "cluster_net \<Rightarrow> string \<Rightarrow> cluster_error + cluster_info" where
  "http_get N url =
     (case ct_request N url of
        Some e \<Rightarrow> Inl (HttpRequest e)
      | None \<Rightarrow>
          (case ct_do N url of
             Inl e \<Rightarrow> Inl (HttpRoundTrip e)
           | Inr (status, body) \<Rightarrow>
               (case body of
                  Inl e \<Rightarrow> Inl (HttpBody e)
                | Inr raw \<Rightarrow>
                    if status < 200 \<or> status \<ge> 300 then Inl (HttpStatus status (ct_trim N raw))
                    else (case ct_decode N raw of
                        Inl e \<Rightarrow> Inl (HttpDecode e)
                      | Inr w \<Rightarrow> Inr (info_from_proto w)))))"

definition grpc_get :: "cluster_net \<Rightarrow> string \<Rightarrow> cluster_error + cluster_info" where
  "grpc_get N host = (case ct_call N host of Inl e \<Rightarrow> Inl (GrpcCall e) | Inr w \<Rightarrow> Inr (info_from_proto w))"

definition view_get :: "cluster_net \<Rightarrow> view_client \<Rightarrow> cluster_error + cluster_info" where
  "view_get N v =
     (case v of
        StaticClient i \<Rightarrow> Inr i
      | GrpcClient host _ _ \<Rightarrow> grpc_get N host
      | HttpClient url _ _ \<Rightarrow> http_get N url)"

section \<open>The cache and its loop\<close>

text \<open>The networks the successive fetches meet: the first when the cache is built, one per tick.\<close>

definition cache_of :: "view_client \<Rightarrow> cluster_net \<Rightarrow> cluster_net list \<Rightarrow> cluster_error view_cache" where
  "cache_of v N0 ticks = fold (\<lambda>N c. cache_refresh (view_get N v) c) ticks (new_cache (view_get N0 v))"

section \<open>What a DSN selects\<close>

lemma host_path_no_slash: "CHR ''/'' \<notin> set h \<Longrightarrow> host_path h = (h, cluster_http_path)"
proof -
  assume "CHR ''/'' \<notin> set h"
  then have "takeWhile (\<lambda>c. c \<noteq> CHR ''/'') h = h" "dropWhile (\<lambda>c. c \<noteq> CHR ''/'') h = ''''"
    by (auto simp: takeWhile_eq_all_conv dropWhile_eq_Nil_conv)
  then show ?thesis by (simp add: host_path_def)
qed

text \<open>The path of an HTTP DSN is never used: the host of a parsed URL has no slash.\<close>

lemma http_path_ignored:
  assumes "new_view P dial_err c = Inr (HttpClient url t ct)" and "\<And>s u. dp_url P s = Some u \<Longrightarrow> CHR ''/'' \<notin> set (pu_host u)"
  shows "\<exists>host. url = ''http://'' @ host @ cluster_http_path \<or> url = ''https://'' @ host @ cluster_http_path"
proof -
  obtain p where p: "parse_cluster_dsn P (cu_dsn c) = Inr p" "new_http_view p = Inr (HttpClient url t ct)"
    using assms(1) by (auto simp: new_view_def new_static_view_def new_grpc_view_def
        split: sum.splits cluster_scheme.splits if_splits option.splits)
  then obtain s u where "dp_url P s = Some u" "co_host p = pu_host u"
    by (auto simp: parse_cluster_dsn_def Let_def rbind_eq_Inr split: option.splits if_splits)
  then have "host_path (co_host p) = (co_host p, cluster_http_path)"
    using assms(2) host_path_no_slash by metis
  then show ?thesis using p(2) by (auto simp: new_http_view_def split: if_splits)
qed

lemma failed_refreshes:
  assumes "\<forall>N\<in>set ticks. \<not> is_ok (view_get N v)"
  shows "vc_info (fold (\<lambda>N c. cache_refresh (view_get N v) c) ticks c) = vc_info c"
  using assms
proof (induction ticks arbitrary: c)
  case (Cons N ticks)
  then show ?case by (cases "view_get N v") (simp_all add: cache_refresh_def)
qed simp


text \<open>
  C29. An outage of the cluster service leaves two control planes. A node that was the scheduler
  in its last answer goes on running its guarded components as long as every further fetch fails,
  however many there are; if meanwhile the cluster has elected another node, that one runs them
  too. Only the ledger's fencing by attempts keeps the two apart.
\<close>

theorem outage_splits_control_plane:
  assumes "(p, Some perm) \<in> set (serve_components here)" and "(q, Some perm') \<in> set (serve_components there)"
    and "distinct (map wn_id ws)" and "leads ws a" and "distinct (map wn_id ws')" and "leads ws' b"
    and "view_get N v = Inr (info_from_proto (Some (rep, map Some ws)))" and "\<forall>M\<in>set outage. \<not> is_ok (view_get M v)"
    and "view_get N' v' = Inr (info_from_proto (Some (rep', map Some ws')))"
    and "0 < gt_loops g" and "0 < gt_loops h"
  shows "gt_running (snd (gate_step a (Some perm) (GateTick (Some (vc_info (cache_of v N outage))) True) g)) \<and>
    gt_running (snd (gate_step b (Some perm') (GateTick (Some (vc_info (cache_of v' N' []))) True) h))"
proof -
  have one: "vc_info (cache_of v N outage) = info_from_proto (Some (rep, map Some ws))"
    using failed_refreshes [OF assms(8)] assms(7) by (simp add: cache_of_def new_cache_def cache_refresh_def)
  have two: "vc_info (cache_of v' N' []) = info_from_proto (Some (rep', map Some ws'))"
    using assms(9) by (simp add: cache_of_def new_cache_def cache_refresh_def)
  have runs: "gt_running (snd (gate_step self (Some pm) (GateTick (Some (info_from_proto (Some (r, map Some us)))) True) k))"
    if "pm = PermSchedule \<or> pm = PermCollect" "distinct (map wn_id us)" "leads us self" "0 < gt_loops k" for self pm r us k
    using elected_by_wire [OF that(2) refl that(1), of self r] that(3,4)
    by (auto simp: leads_def gate_sync_def split: option.splits)
  show ?thesis
    using runs [OF guarded_permission [OF assms(1)] assms(3,4,10)] runs [OF guarded_permission [OF assms(2)] assms(5,6,11)]
    unfolding one two by simp
qed

definition answering_net :: "wire_info \<Rightarrow> cluster_net" where
  "answering_net w = \<lparr>ct_request = (\<lambda>_. None), ct_do = (\<lambda>_. Inl ''down''), ct_decode = (\<lambda>_. Inl ''json''), ct_trim = id,
     ct_call = (\<lambda>host. Inr w)\<rparr>"

definition broken_net :: cluster_net where
  "broken_net = (answering_net None)\<lparr>ct_call := (\<lambda>host. Inl ''down'')\<rparr>"

theorem outage_splits_control_plane_witness:
  "gt_running (snd (gate_step ''a'' (Some PermSchedule) (GateTick (Some (vc_info (cache_of (GrpcClient ''c:1'' 1 1)
      (answering_net (Some (''a'', map Some [flagged_wire ''a'' True, flagged_wire ''b'' False]))) [broken_net, broken_net]))) True)
      \<lparr>gt_running = False, gt_cancel = True, gt_loops = 1\<rparr>))"
proof -
  let ?g = "\<lparr>gt_running = False, gt_cancel = True, gt_loops = 1\<rparr>"
  let ?ws = "[flagged_wire ''a'' True, flagged_wire ''b'' False]"
  let ?ws' = "[flagged_wire ''a'' False, flagged_wire ''b'' True]"
  have c: "(SchedulerPart, Some PermSchedule) \<in> set (serve_components (\<lambda>_. True))"
    by (simp add: serve_components_def part_permission_def)
  have d: "distinct (map wn_id ?ws)" "leads ?ws ''a''" "distinct (map wn_id ?ws')" "leads ?ws' ''b''"
    by (simp_all add: flagged_wire_def leads_def)
  have n: "view_get (answering_net w) (GrpcClient ''c:1'' 1 1) = Inr (info_from_proto w)" for w
    by (simp add: view_get_def grpc_get_def answering_net_def)
  have o1: "\<forall>M\<in>set [broken_net, broken_net]. \<not> is_ok (view_get M (GrpcClient ''c:1'' 1 1))"
    by (simp add: view_get_def grpc_get_def broken_net_def)
  have l: "0 < gt_loops ?g" by simp
  show ?thesis
    using outage_splits_control_plane [OF c c d n o1 n l l] by simp
qed

end
