(* ===== verification/Serve.thy ===== *)
theory Serve
  imports ClusterClient Service Scheduler Tasks RedisChannel MemChannel
begin

text \<open>
  The providers of a server (\<open>cmd/stateflux/providers.go\<close>, \<open>eventbus_wiring.go\<close>, \<open>cleanup.go\<close>):
  which channels its event bus starts with and how it opens others, which log its worker gets,
  and how the configuration reaches the scheduler, the worker, the reconciler and the result path.
\<close>

section \<open>Channels\<close>

text \<open>The capabilities the implementations declare.\<close>

definition rpc_unary_caps :: capabilities where
  "rpc_unary_caps = \<lparr>cap_subscribe = False, cap_request_reply = True, cap_full_duplex = False, cap_local_ack = False\<rparr>"

definition rpc_stream_caps :: capabilities where
  "rpc_stream_caps = \<lparr>cap_subscribe = False, cap_request_reply = True, cap_full_duplex = False, cap_local_ack = False\<rparr>"

definition caps_of_kind :: "channel_kind \<Rightarrow> capabilities" where
  "caps_of_kind k =
     (case k of
        KindRPCUnary \<Rightarrow> rpc_unary_caps
      | KindRPCStream \<Rightarrow> rpc_stream_caps
      | KindMemory \<Rightarrow> memory_caps
      | KindRedisList \<Rightarrow> redis_caps
      | KindRedisZSet \<Rightarrow> redis_caps
      | KindRedisStream \<Rightarrow> redis_caps
      | KindRedisPubSub \<Rightarrow> redis_caps)"

text \<open>
  \<open>channelFactory.Open\<close>: the Redis kinds need a client. \<open>fresh\<close> names the channel that is built for
  a specification.
\<close>

definition is_redis_kind :: "channel_kind \<Rightarrow> bool" where
  "is_redis_kind k \<longleftrightarrow> k \<in> {KindRedisList, KindRedisZSet, KindRedisStream, KindRedisPubSub}"

definition factory_open :: "bool \<Rightarrow> (channel_spec \<Rightarrow> nat) \<Rightarrow> channel_spec \<Rightarrow> string + chan" where
  "factory_open has_redis fresh spec =
     (if is_redis_kind (sp_kind spec) \<and> \<not> has_redis then Inl ''eventbus/channel/redis: nil redis client''
      else Inr \<lparr>ch_ref = fresh spec, ch_kind = sp_kind spec, ch_caps = caps_of_kind (sp_kind spec)\<rparr>)"

text \<open>The channels registered at the start; \<open>redis-list\<close> is the same channel as \<open>default\<close>.\<close>

definition static_channel :: "nat \<Rightarrow> channel_kind \<Rightarrow> chan option" where
  "static_channel n k = Some \<lparr>ch_ref = n, ch_kind = k, ch_caps = caps_of_kind k\<rparr>"

definition static_channels :: "(string \<times> chan option) list" where
  "static_channels =
     [(''default'', static_channel 0 KindRedisList), (''sync'', static_channel 1 KindRPCUnary),
      (''stream'', static_channel 2 KindRPCStream), (''redis-list'', static_channel 0 KindRedisList),
      (''redis-zset'', static_channel 3 KindRedisZSet), (''redis-stream'', static_channel 4 KindRedisStream),
      (''redis-pubsub'', static_channel 5 KindRedisPubSub), (''rpc-unary'', static_channel 6 KindRPCUnary),
      (''rpc-stream'', static_channel 7 KindRPCStream), (''memory'', static_channel 8 KindMemory)]"

datatype serve_bus_error = NoRedisClient | BusFailed bus_error

definition serve_bus ::
  "bool \<Rightarrow> (string \<Rightarrow> cluster_node option) \<Rightarrow> (string \<times> string) list option \<Rightarrow> (channel_spec \<Rightarrow> nat) \<Rightarrow> serve_bus_error + bus" where
  "serve_bus has_redis view routes fresh =
     (if \<not> has_redis then Inl NoRedisClient
      else map_sum BusFailed id
        (new_bus (Some view) (Some (wired_registry routes)) (Some (factory_open has_redis fresh)) static_channels ''default''))"

text \<open>\<open>describeChannel\<close>.\<close>

definition kind_name :: "channel_kind \<Rightarrow> string" where
  "kind_name k =
     (case k of
        KindRPCUnary \<Rightarrow> ''rpc-unary'' | KindRPCStream \<Rightarrow> ''rpc-stream'' | KindMemory \<Rightarrow> ''memory''
      | KindRedisList \<Rightarrow> ''redis-list'' | KindRedisZSet \<Rightarrow> ''redis-zset'' | KindRedisStream \<Rightarrow> ''redis-stream''
      | KindRedisPubSub \<Rightarrow> ''redis-pubsub'')"

definition describe_channel :: "bus \<Rightarrow> string \<Rightarrow> string" where
  "describe_channel b name =
     (case resolve_existing name b of Inl _ \<Rightarrow> name @ ''=unregistered'' | Inr c \<Rightarrow> name @ ''='' @ kind_name (ch_kind c))"

section \<open>Components from the configuration\<close>

definition serve_view_options :: "config \<Rightarrow> view_options" where
  "serve_view_options c =
     \<lparr>vo_prefix = '''', vo_task_ttl = dg_dedupe_window (cf_dispatch c), vo_dedupe_ttl = dg_dedupe_window (cf_dispatch c),
      vo_route_ttl = ch_revision_ttl (cf_coherence c)\<rparr>"

text \<open>\<open>provideWAL\<close>: on disk when a directory is configured and the file can be opened.\<close>

datatype serve_wal = MemoryLog wal | DiskLog disk_wal

definition serve_wal ::
  "config \<Rightarrow> wal_codec \<Rightarrow> (string \<Rightarrow> string \<Rightarrow> string) \<Rightarrow> bool \<Rightarrow> unit + byte list option \<Rightarrow> bool \<Rightarrow> serve_wal" where
  "serve_wal c C join mkdir_ok file append_ok =
     (let rt = cf_runtime c in
      if rc_wal_dir rt = '''' then MemoryLog (new_wal (rc_wal_max_entries rt))
      else case open_disk_wal C (join (rc_wal_dir rt) ''results.wal'') (rc_wal_max_entries rt) (rc_wal_max_bytes rt)
              mkdir_ok file append_ok of
          Inl _ \<Rightarrow> MemoryLog (new_wal (rc_wal_max_entries rt))
        | Inr d \<Rightarrow> DiskLog d)"

definition serve_worker :: "config \<Rightarrow> string \<Rightarrow> 'w handlers \<Rightarrow> 'w sink \<Rightarrow> 'w worker" where
  "serve_worker c node_id hs sink = new_worker node_id (Some hs) (rc_dispatch_grace (cf_runtime c)) (Some sink)"

definition serve_reconciler :: "config \<Rightarrow> reconciler" where
  "serve_reconciler c =
     (let rt = cf_runtime c in
      new_reconciler (rc_reconcile_interval rt) (rc_dispatch_grace rt) 0 (rc_claim_batch rt) '''' 0 0 0)"

definition serve_cycle :: "config \<Rightarrow> string \<Rightarrow> (string \<Rightarrow> capabilities option) \<Rightarrow> cycle" where
  "serve_cycle c node_id caps =
     (let batch = rc_claim_batch (cf_runtime c); d = cf_dispatch c in
      new_cycle node_id batch batch (dg_default_delivery d) (dg_default_semantics d) caps)"

definition serve_forwarder :: "config \<Rightarrow> string \<Rightarrow> (string \<Rightarrow> cluster_node option) \<Rightarrow> forwarder" where
  "serve_forwarder c node_id nodes = new_forwarder (Some nodes) node_id (dg_max_hops (cf_dispatch c))"

text \<open>The channel of the publisher, and the one the collector's runner subscribes; empty: none.\<close>

definition serve_result_channel :: "config \<Rightarrow> string" where
  "serve_result_channel c =
     (let ch = dg_result_channel (cf_dispatch c) in if ch = '''' then ''stream'' else ch)"

definition serve_runner_channel :: "config \<Rightarrow> string" where
  "serve_runner_channel c =
     (let ch = dg_result_channel (cf_dispatch c) in if ch = ''stream'' then '''' else ch)"

definition serve_factories :: "config \<Rightarrow> factory_error + 'w factories" where
  "serve_factories c = register_factories (rc_factory_interval (cf_runtime c)) ''default'' (Some [])"

text \<open>\<open>boundedCleanup\<close>: the budget of one step; \<open>None\<close>: there is nothing to release.\<close>

definition cleanup_budget :: "bool \<Rightarrow> int \<Rightarrow> int option" where
  "cleanup_budget has_fn timeout =
     (if \<not> has_fn then None else Some (if timeout \<le> 0 \<or> timeout > seconds 5 then seconds 5 else timeout))"

section \<open>The bus of a server\<close>

lemma serve_bus_start:
  "serve_bus True view routes fresh =
     Inr \<lparr>eb_view = Some view, eb_queues = Some (wired_registry routes), eb_factory = Some (factory_open True fresh),
       eb_default = ''default'', eb_channels = map (map_prod id the) static_channels, eb_closed = False\<rparr>"
  by (simp add: serve_bus_def new_bus_def static_channels_def static_channel_def register_def rbind_def)


section \<open>The lease of an execution\<close>

lemma serve_reconciler_grace:
  "0 < rc_dispatch_grace (cf_runtime c) \<Longrightarrow> reset_deadline (serve_reconciler c) now = now - rc_dispatch_grace (cf_runtime c)"
  by (simp add: serve_reconciler_def new_reconciler_def reset_deadline_def Let_def)

lemma serve_reconciler_limit:
  "0 < rc_claim_batch (cf_runtime c) \<Longrightarrow> rc_limit (serve_reconciler c) = rc_claim_batch (cf_runtime c)"
  by (simp add: serve_reconciler_def new_reconciler_def Let_def)

lemma serve_worker_budget:
  assumes "0 < rc_dispatch_grace (cf_runtime c)" and "tm_timeout_ms m \<le> 0"
  shows "exec_budget (serve_worker c wid hs snk) m = rc_dispatch_grace (cf_runtime c)"
  using assms by (simp add: serve_worker_def new_worker_def exec_budget_def)

lemma reset_takes_expired:
  assumes "ledger_ok s" and "0 < limit" and "p \<in> set (processings s)" and "expired lk deadline p"
    and "int (length (filter (expired lk deadline) (processings s))) \<le> limit"
    and "s' = snd (reset_expired tx_fine lk deadline limit s)"
  shows "p \<in> set (schedulables s')" and "table_find task_id (task_id p) (processings s') = None"
    and "\<exists>n. fst (reset_expired tx_fine lk deadline limit s) = Inr n"
proof -
  have p: "p \<in> set (reset_pick lk deadline limit s)"
    using assms(3,4,5) by (simp add: reset_pick_expired)
  then have i: "task_id p \<in> set (map task_id (reset_pick lk deadline limit s))" by simp
  note f = reset_expired_fine [OF assms(1,2), of lk deadline]
  show "p \<in> set (schedulables s')" using p by (simp add: assms(6) f)
  show "table_find task_id (task_id p) (processings s') = None"
    using i by (simp add: assms(6) f table_find_delete)
  show "\<exists>n. fst (reset_expired tx_fine lk deadline limit s) = Inr n" by (simp add: f)
qed


definition leased_message :: task_message where
  "leased_message = sample_message\<lparr>tm_timeout_ms := 0\<rparr>"

definition late_completion :: complete_request where
  "late_completion = \<lparr>cr_task_id = 1, cr_attempt = 1, cr_outcome = OutcomeSucceeded, cr_result = None, cr_error = '''',
     cr_completed_at = 0\<rparr>"


end
