(* ===== verification/Loops.thy ===== *)
theory Loops
  imports Scheduler Coherence Tasks Service EventBus
begin

text \<open>
  The loops in the background of a server: the reconciler with its probe
  (\<open>internal/runtime/reconcile/reconcile.go\<close>), the pushing and the pulling side of the queue
  ownership (\<open>internal/biz/coherence/coherence_sync.go\<close>), the schedulers and their group
  (\<open>internal/runtime/scheduler/scheduler.go\<close>), the driver of the factories
  (\<open>internal/task/factory/factory.go\<close>) and the subscription of the collector
  (\<open>internal/runtime/collector/runner.go\<close>). Each appears as the events its goroutines react to; a
  round is the round of the component's own theory.
\<close>

section \<open>Components with a ticker\<close>

text \<open>
  What the three ticking components keep: is \<open>cancel\<close> set, and how many goroutines of the main
  loop and of the probe run. \<open>periodic_stop\<close> is \<open>Stop\<close>: cancel, and wait for the goroutines;
  \<open>None\<close>: it waits forever, because goroutines run that nothing cancels. \<open>periodic_ended\<close>: the
  context given to \<open>Start\<close> ends.
\<close>

datatype start_error = MissingPart | AlreadyStarted

record periodic =
  pe_cancel :: bool
  pe_main :: nat
  pe_probe :: nat

definition new_periodic :: periodic where
  "new_periodic = \<lparr>pe_cancel = False, pe_main = 0, pe_probe = 0\<rparr>"

definition periodic_stop :: "periodic \<Rightarrow> periodic option" where
  "periodic_stop l =
     (if pe_cancel l then Some \<lparr>pe_cancel = False, pe_main = 0, pe_probe = 0\<rparr>
      else if pe_main l = 0 \<and> pe_probe l = 0 then Some l else None)"

definition periodic_ended :: "periodic \<Rightarrow> periodic" where
  "periodic_ended l = l\<lparr>pe_main := 0, pe_probe := 0\<rparr>"

section \<open>The reconciler\<close>

definition reconciler_start :: "bool \<Rightarrow> bool \<Rightarrow> periodic \<Rightarrow> (start_error + unit) \<times> periodic" where
  "reconciler_start has_ledger has_probe l =
     (if \<not> has_ledger then (Inl MissingPart, l)
      else if pe_cancel l then (Inl AlreadyStarted, l)
      else (Inr (), l\<lparr>pe_cancel := True, pe_main := Suc (pe_main l),
              pe_probe := (if has_probe then Suc (pe_probe l) else pe_probe l)\<rparr>))"

text \<open>
  Events: \<open>Start\<close>, \<open>Stop\<close>, the end of the context, a tick of the main loop, and a tick of the
  probe with the answer of \<open>ChannelsAvailable\<close>, which drives a round at once unless it is
  \<open>true\<close> without an error. \<open>round_time\<close>: when the event drives a round, and at what time.
\<close>

datatype loop_event = LoopStart | LoopStop | LoopEnded | LoopTick gotime | ProbeTick gotime "string + bool"

definition round_time :: "loop_event \<Rightarrow> periodic \<Rightarrow> gotime option" where
  "round_time ev l =
     (case ev of
        LoopTick t \<Rightarrow> if pe_main l = 0 then None else Some t
      | ProbeTick t res \<Rightarrow>
          if pe_probe l = 0 then None
          else (case res of Inl _ \<Rightarrow> Some t | Inr available \<Rightarrow> if available then None else Some t)
      | _ \<Rightarrow> None)"

definition reconciler_event ::
  "reconciler \<Rightarrow> bool \<Rightarrow> bool \<Rightarrow> (gotime \<Rightarrow> int \<Rightarrow> 's \<Rightarrow> (db_error + int) \<times> 's) \<Rightarrow> (string \<Rightarrow> 'v \<Rightarrow> 'v) option
     \<Rightarrow> ('s \<Rightarrow> gotime \<Rightarrow> int \<Rightarrow> db_error + string list) option \<Rightarrow> loop_event
     \<Rightarrow> periodic \<times> (int \<times> 's \<times> 'v) \<Rightarrow> (periodic \<times> (int \<times> 's \<times> 'v)) option" where
  "reconciler_event r has_ledger has_probe reset vp orphans ev st =
     (let (l, x) = st in
      case ev of
        LoopStart \<Rightarrow> Some (snd (reconciler_start has_ledger has_probe l), x)
      | LoopStop \<Rightarrow> map_option (\<lambda>l1. (l1, x)) (periodic_stop l)
      | LoopEnded \<Rightarrow> Some (periodic_ended l, x)
      | _ \<Rightarrow> (case round_time ev l of
               None \<Rightarrow> Some (l, x)
             | Some t \<Rightarrow> Some (l, snd (reconcile_once r reset vp orphans t x))))"

section \<open>Queue ownership: the syncer and the puller\<close>

text \<open>Both run a round in \<open>Start\<close> itself, before the first tick.\<close>

datatype sync_event = SyncStart "cluster_node list" int | SyncStop | SyncEnded | SyncTick "cluster_node list" int

definition syncer_event ::
  "'w syncer \<Rightarrow> bool \<Rightarrow> sync_event \<Rightarrow> periodic \<times> (int \<times> coherence_store \<times> 'w)
     \<Rightarrow> (periodic \<times> (int \<times> coherence_store \<times> 'w)) option" where
  "syncer_event y has_store ev st =
     (let (l, x) = st in
      case ev of
        SyncStart nodes now \<Rightarrow>
          if \<not> has_store \<or> pe_cancel l then Some (l, x)
          else Some (l\<lparr>pe_cancel := True, pe_main := Suc (pe_main l)\<rparr>, snd (sync_once y nodes now x))
      | SyncStop \<Rightarrow> map_option (\<lambda>l1. (l1, x)) (periodic_stop l)
      | SyncEnded \<Rightarrow> Some (periodic_ended l, x)
      | SyncTick nodes now \<Rightarrow> Some (l, if pe_main l = 0 then x else snd (sync_once y nodes now x)))"

text \<open>The world a pull meets: the scheduling node's answers, and the cluster snapshot.\<close>

type_synonym pull_world =
  "(string \<Rightarrow> string \<Rightarrow> int \<Rightarrow> string + bool \<times> coherence_state option) option \<times> (string \<times> (string \<Rightarrow> cluster_node option)) option"

datatype pull_event = PullStart pull_world | PullStop | PullEnded | PullTick pull_world

definition puller_event ::
  "string \<Rightarrow> (string \<Rightarrow> string \<Rightarrow> 'v \<Rightarrow> 'v) option \<Rightarrow> pull_event \<Rightarrow> periodic \<times> (coherence_store \<times> 'v)
     \<Rightarrow> (periodic \<times> (coherence_store \<times> 'v)) option" where
  "puller_event self view ev st =
     (let (l, x) = st in
      case ev of
        PullStart w \<Rightarrow>
          if pe_cancel l then Some (l, x)
          else Some (l\<lparr>pe_cancel := True, pe_main := Suc (pe_main l)\<rparr>, snd (pull_once (fst w) (snd w) self view x))
      | PullStop \<Rightarrow> map_option (\<lambda>l1. (l1, x)) (periodic_stop l)
      | PullEnded \<Rightarrow> Some (periodic_ended l, x)
      | PullTick w \<Rightarrow> Some (l, if pe_main l = 0 then x else snd (pull_once (fst w) (snd w) self view x)))"

section \<open>Schedulers and their group\<close>

datatype scheduler_error = NilTrigger | NilCycle | AlreadyRunning

record scheduler_instance =
  si_name :: string
  si_trigger :: bool
  si_cycle :: bool
  si_running :: bool

text \<open>\<open>New\<close>: without a name, the instance has that of its trigger.\<close>

definition new_scheduler :: "string \<Rightarrow> string option \<Rightarrow> bool \<Rightarrow> scheduler_instance" where
  "new_scheduler name trigger has_cycle =
     \<lparr>si_name = (if name = '''' then case_option name (\<lambda>t. t) trigger else name),
      si_trigger = (trigger \<noteq> None), si_cycle = has_cycle, si_running = False\<rparr>"

text \<open>\<open>Run\<close> up to the trigger's \<open>Run\<close>, and its end; \<open>scheduler_ticks\<close>: the rounds the trigger drives.\<close>

definition scheduler_begin :: "scheduler_instance \<Rightarrow> scheduler_error option \<times> scheduler_instance" where
  "scheduler_begin s =
     (if \<not> si_trigger s then (Some NilTrigger, s)
      else if \<not> si_cycle s then (Some NilCycle, s)
      else if si_running s then (Some AlreadyRunning, s)
      else (None, s\<lparr>si_running := True\<rparr>))"

definition scheduler_end :: "scheduler_instance \<Rightarrow> scheduler_instance" where
  "scheduler_end s = s\<lparr>si_running := False\<rparr>"

definition scheduler_ticks :: "('w \<Rightarrow> (cycle_error option \<times> cycle_result) \<times> 'w) \<Rightarrow> nat \<Rightarrow> 'w \<Rightarrow> 'w" where
  "scheduler_ticks cycle n w = ((\<lambda>w. snd (cycle w)) ^^ n) w"

text \<open>
  \<open>Group.Run\<close>: every instance whose \<open>Run\<close> was not refused runs until the context ends; the
  errors of the others are joined.
\<close>

definition group_begin :: "scheduler_instance list \<Rightarrow> scheduler_error list \<times> scheduler_instance list" where
  "group_begin ss = (List.map_filter (\<lambda>s. fst (scheduler_begin s)) ss, map (\<lambda>s. snd (scheduler_begin s)) ss)"

definition group_end :: "scheduler_instance list \<Rightarrow> scheduler_instance list \<Rightarrow> scheduler_instance list" where
  "group_end before after =
     map (\<lambda>(b, a). if fst (scheduler_begin b) = None then scheduler_end a else a) (zip before after)"

section \<open>Factories\<close>

text \<open>
  \<open>Manager.Run\<close>: a ticker for each factory with a positive interval. An event is a tick of one
  of them; the failures of a round are reported with the factory's name. \<open>None\<close>: a factory
  panicked.
\<close>

definition driven_factories :: "'w factories \<Rightarrow> 'w factory list" where
  "driven_factories fs = filter (\<lambda>f. fa_interval f > 0) (all_factories fs)"

fun manager_run ::
  "(func_task \<Rightarrow> 'w \<Rightarrow> 'e option \<times> 'w) \<Rightarrow> 'w factory list \<Rightarrow> (nat \<times> gotime) list \<Rightarrow> 'w
     \<Rightarrow> ((string \<times> 'e round_error list) list \<times> 'w) option" where
  "manager_run sink fs [] w = Some ([], w)"
| "manager_run sink fs ((i, now) # es) w =
     (if i < length fs then
        (case run_one_factory sink (fs ! i) now w of
           None \<Rightarrow> None
         | Some ((n, errs), w1) \<Rightarrow>
             map_option (map_prod (\<lambda>l. (if errs = [] then l else (fa_name (fs ! i), errs) # l)) id)
               (manager_run sink fs es w1))
      else manager_run sink fs es w)"

section \<open>The collector's subscription\<close>

text \<open>
  \<open>Runner.Start\<close> and \<open>Stop\<close>; the state is the subscription held. \<open>Stop\<close> closes it (\<open>shut\<close>
  with its error).
\<close>

datatype runner_error = RunnerIncomplete | RunnerBus bus_error

definition runner_topic :: "string \<Rightarrow> string" where
  "runner_topic topic = (if topic = '''' then result_topic else topic)"

definition collector_subscribe ::
  "bool \<Rightarrow> bool \<Rightarrow> string \<Rightarrow> string \<Rightarrow> (chan \<Rightarrow> bool) \<Rightarrow> (chan \<Rightarrow> string \<Rightarrow> 'w \<Rightarrow> (string + 'h) \<times> 'w)
     \<Rightarrow> 'h option \<times> bus \<times> 'w \<Rightarrow> (runner_error + unit) \<times> ('h option \<times> bus \<times> 'w)" where
  "collector_subscribe has_bus has_collector name topic can sub st =
     (let (cur, b, w) = st in
      if \<not> has_bus \<or> \<not> has_collector then (Inl RunnerIncomplete, st)
      else if name = '''' then (Inr (), st)
      else (case subscribe_topic can sub name (runner_topic topic) b w of
              (Inl e, b1, w1) \<Rightarrow> (Inl (RunnerBus e), (cur, b1, w1))
            | (Inr h, b1, w1) \<Rightarrow> (Inr (), (Some h, b1, w1))))"

definition collector_unsubscribe ::
  "('h \<Rightarrow> 'w \<Rightarrow> string option \<times> 'w) \<Rightarrow> 'h option \<times> bus \<times> 'w \<Rightarrow> string option \<times> ('h option \<times> bus \<times> 'w)" where
  "collector_unsubscribe shut st =
     (let (cur, b, w) = st in
      case cur of None \<Rightarrow> (None, st) | Some h \<Rightarrow> (let (e, w1) = shut h w in (e, (None, b, w1))))"


section \<open>One goroutine, and a stop that returns\<close>

definition periodic_ok :: "periodic \<Rightarrow> bool" where
  "periodic_ok l \<longleftrightarrow> pe_main l \<le> 1 \<and> pe_probe l \<le> 1 \<and> (\<not> pe_cancel l \<longrightarrow> pe_main l = 0 \<and> pe_probe l = 0)"

fun loop_run :: "('e \<Rightarrow> 's \<Rightarrow> 's option) \<Rightarrow> 'e list \<Rightarrow> 's \<Rightarrow> 's option" where
  "loop_run step [] st = Some st"
| "loop_run step (e # es) st = (case step e st of None \<Rightarrow> None | Some st1 \<Rightarrow> loop_run step es st1)"

locale ticking =
  fixes step :: "'e \<Rightarrow> periodic \<times> 'x \<Rightarrow> (periodic \<times> 'x) option" and stop :: 'e
  assumes keeps: "periodic_ok l \<Longrightarrow> case step e (l, x) of None \<Rightarrow> False | Some st \<Rightarrow> periodic_ok (fst st)"
    and halts: "periodic_ok l \<Longrightarrow> step stop (l, x) = Some (new_periodic, x)"
begin

lemma history: "periodic_ok l \<Longrightarrow> \<exists>l' x'. loop_run step es (l, x) = Some (l', x') \<and> periodic_ok l'"
proof (induction es arbitrary: l x)
  case (Cons e es)
  obtain l1 x1 where "step e (l, x) = Some (l1, x1)" "periodic_ok l1"
    using keeps [OF Cons.prems, of e x] by (auto split: option.splits)
  then show ?case using Cons.IH by simp
qed simp

lemma from_new:
  "\<exists>l x'. loop_run step es (new_periodic, x) = Some (l, x') \<and> pe_main l \<le> 1 \<and> pe_probe l \<le> 1 \<and>
     step stop (l, x') = Some (new_periodic, x')"
proof -
  have "periodic_ok new_periodic" by (simp add: periodic_ok_def new_periodic_def)
  then obtain l x' where l: "loop_run step es (new_periodic, x) = Some (l, x')" "periodic_ok l" using history by blast
  show ?thesis
    using l(1) halts [OF l(2)] l(2) by (simp add: periodic_ok_def)
qed

end

lemmas periodic_defs = periodic_ok_def periodic_stop_def periodic_ended_def new_periodic_def

interpretation reconciling: ticking "reconciler_event r has_ledger has_probe reset vp orphans" LoopStop
proof
  fix l e and x :: "int \<times> 'a \<times> 'b"
  assume ok: "periodic_ok l"
  show "case reconciler_event r has_ledger has_probe reset vp orphans e (l, x) of None \<Rightarrow> False | Some st \<Rightarrow> periodic_ok (fst st)"
    using ok by (cases e; cases "round_time e l") (simp_all add: reconciler_event_def reconciler_start_def periodic_defs)
  show "reconciler_event r has_ledger has_probe reset vp orphans LoopStop (l, x) = Some (new_periodic, x)"
    using ok by (simp add: reconciler_event_def reconciler_start_def periodic_defs)
qed

interpretation syncing: ticking "syncer_event y has_store" SyncStop
proof
  fix l e and x :: "int \<times> coherence_store \<times> 'a"
  assume ok: "periodic_ok l"
  show "case syncer_event y has_store e (l, x) of None \<Rightarrow> False | Some st \<Rightarrow> periodic_ok (fst st)"
    using ok by (cases e) (simp_all add: syncer_event_def periodic_defs split: option.split)
  show "syncer_event y has_store SyncStop (l, x) = Some (new_periodic, x)"
    using ok by (simp add: syncer_event_def periodic_defs)
qed

interpretation pulling: ticking "puller_event self view" PullStop
proof
  fix l e and x :: "coherence_store \<times> 'a"
  assume ok: "periodic_ok l"
  show "case puller_event self view e (l, x) of None \<Rightarrow> False | Some st \<Rightarrow> periodic_ok (fst st)"
    using ok by (cases e) (simp_all add: puller_event_def periodic_defs split: option.split)
  show "puller_event self view PullStop (l, x) = Some (new_periodic, x)"
    using ok by (simp add: puller_event_def periodic_defs)
qed

text \<open>
  Whatever starts, stops, ticks and ends of contexts a reconciler, a syncer and a puller see,
  in whatever order, each has at most one goroutine for its main loop and one for its probe, no
  \<open>Stop\<close> waits forever, and a \<open>Stop\<close> leaves it as new: no goroutine runs, and it can be started
  again.
\<close>

theorem background_loops_single:
  "(\<exists>l x'. loop_run (reconciler_event r has_ledger has_probe reset vp orphans) es (new_periodic, x) = Some (l, x') \<and>
      pe_main l \<le> 1 \<and> pe_probe l \<le> 1 \<and>
      reconciler_event r has_ledger has_probe reset vp orphans LoopStop (l, x') = Some (new_periodic, x')) \<and>
   (\<exists>l y'. loop_run (syncer_event s has_store) fs (new_periodic, y) = Some (l, y') \<and> pe_main l \<le> 1 \<and>
      syncer_event s has_store SyncStop (l, y') = Some (new_periodic, y')) \<and>
   (\<exists>l z'. loop_run (puller_event self view) gs (new_periodic, z) = Some (l, z') \<and> pe_main l \<le> 1 \<and>
      puller_event self view PullStop (l, z') = Some (new_periodic, z'))"
  using reconciling.from_new [of r has_ledger has_probe reset vp orphans es x]
    syncing.from_new [of s has_store fs y] pulling.from_new [of self view gs z] by blast

text \<open>A group started twice runs each instance once, and reports every refused start.\<close>

lemma group_started_twice:
  assumes "\<forall>s\<in>set ss. si_trigger s \<and> si_cycle s \<and> \<not> si_running s"
  shows "fst (group_begin ss) = []"
    and "group_begin (snd (group_begin ss)) = (replicate (length ss) AlreadyRunning, snd (group_begin ss))"
    and "group_end ss (snd (group_begin ss)) = ss"
  using assms
  by (induction ss) (auto simp: group_begin_def group_end_def scheduler_begin_def scheduler_end_def List.map_filter_simps)


section \<open>A stale row is recovered\<close>

text \<open>
  The other operations of the ledger between the rounds: rows that enter processing are claimed
  at or after \<open>since\<close>. The number counts the rounds whose deadline is not before \<open>since\<close>.
\<close>

definition claims_since :: "gotime \<Rightarrow> ledger \<Rightarrow> ledger \<Rightarrow> bool" where
  "claims_since since s s' \<longleftrightarrow> (\<forall>q\<in>set (processings s'). q \<in> set (processings s) \<or> since \<le> updated_at q)"

definition counts_round :: "reconciler \<Rightarrow> gotime \<Rightarrow> loop_event \<Rightarrow> periodic \<Rightarrow> nat" where
  "counts_round r since ev l =
     (case round_time ev l of None \<Rightarrow> 0 | Some t \<Rightarrow> if since \<le> reset_deadline r t then 1 else 0)"

inductive recovering ::
  "reconciler \<Rightarrow> bool \<Rightarrow> (int \<Rightarrow> bool) \<Rightarrow> (string \<Rightarrow> 'v \<Rightarrow> 'v) option
     \<Rightarrow> (ledger \<Rightarrow> gotime \<Rightarrow> int \<Rightarrow> db_error + string list) option \<Rightarrow> gotime \<Rightarrow> nat
     \<Rightarrow> periodic \<times> (int \<times> ledger \<times> 'v) \<Rightarrow> periodic \<times> (int \<times> ledger \<times> 'v) \<Rightarrow> bool"
  for r probe lk vp orphans since where
  recovering_none: "recovering r probe lk vp orphans since 0 st st"
| recovering_event:
    "recovering r probe lk vp orphans since n st (l, x) \<Longrightarrow>
     reconciler_event r True probe (reset_expired tx_fine lk) vp orphans ev (l, x) = Some st' \<Longrightarrow>
     recovering r probe lk vp orphans since (n + counts_round r since ev l) st st'"
| recovering_ledger:
    "recovering r probe lk vp orphans since n st (l, (k, s, v)) \<Longrightarrow> ledger_step s s' \<Longrightarrow>
     claims_since since s s' \<Longrightarrow> recovering r probe lk vp orphans since n st (l, (k, s', v))"

lemma claim_since: "since \<le> now \<Longrightarrow> claims_since since s (snd (claim tx now lk limit s))"
proof (cases "limit \<le> 0")
  case True
  then show ?thesis by (simp add: claim_def claims_since_def)
next
  case False
  assume "since \<le> now"
  then show ?thesis
    by (rule_tac with_tx_sndE [OF refl, of tx "claim_body now lk limit" s])
      (auto simp: claim_def False claims_since_def claimed_row_def ledger_simps Let_def)
qed

definition stale_rows :: "(int \<Rightarrow> bool) \<Rightarrow> gotime \<Rightarrow> ledger \<Rightarrow> claimable set" where
  "stale_rows lk since s = {p \<in> set (processings s). expired lk since p}"

text \<open>A round takes the oldest rows first, so it removes as many stale rows as its limit allows.\<close>

lemma stale_picked:
  assumes "ledger_ok s" and "since \<le> deadline"
  shows "min (nat limit) (card (stale_rows lk since s)) \<le> card (stale_rows lk since s \<inter> set (reset_pick lk deadline limit s))"
proof -
  let ?S = "stale_rows lk since s" and ?P = "set (reset_pick lk deadline limit s)"
  have fin: "finite ?S" by (simp add: stale_rows_def)
  have cand: "?S \<subseteq> set (filter (expired lk deadline) (processings s))"
    using assms(2) by (auto simp: stale_rows_def expired_def)
  show ?thesis
  proof (cases "?S \<subseteq> ?P")
    case True
    then have "?S \<inter> ?P = ?S" by blast
    then show ?thesis by simp
  next
    case False
    then obtain q where q: "q \<in> ?S" "q \<notin> ?P" by blast
    have early: "p \<in> ?S" if "p \<in> ?P" for p
    proof -
      have "updated_at p \<le> updated_at q"
        using take_sort_key_least [of p "nat limit" updated_at "filter (expired lk deadline) (processings s)" q] that q cand
        by (auto simp: reset_pick_expired)
      then show ?thesis
        using that q(1) reset_pick_set [of lk deadline limit s] by (auto simp: stale_rows_def expired_def)
    qed
    have d: "distinct (reset_pick lk deadline limit s)"
      using pick_distinct(3) [OF assms(1)] by (simp add: distinct_map)
    have "length (reset_pick lk deadline limit s) = nat limit"
    proof (rule ccontr)
      assume "length (reset_pick lk deadline limit s) \<noteq> nat limit"
      then have "length (filter (expired lk deadline) (processings s)) \<le> nat limit"
        by (auto simp: reset_pick_expired)
      then have "?P = set (filter (expired lk deadline) (processings s))" by (simp add: reset_pick_expired)
      then show False using q cand by blast
    qed
    then have "card ?P = nat limit" using distinct_card [OF d] by simp
    moreover have "?S \<inter> ?P = ?P" using early by blast
    ultimately show ?thesis by simp
  qed
qed

lemma stale_after_round:
  assumes "ledger_ok s" and "0 < limit" and "since \<le> deadline"
    and s': "s' = snd (reset_expired tx_fine lk deadline limit s)"
  shows "stale_rows lk since s' \<subseteq> stale_rows lk since s"
    and "card (stale_rows lk since s') + min (nat limit) (card (stale_rows lk since s)) \<le> card (stale_rows lk since s)"
proof -
  let ?S = "stale_rows lk since s" and ?P = "set (reset_pick lk deadline limit s)"
  have gone: "stale_rows lk since s' \<subseteq> ?S - ?P"
    by (auto simp: s' reset_expired_fine [OF assms(1,2)] stale_rows_def set_delete_iff)
  then show "stale_rows lk since s' \<subseteq> ?S" by blast
  have fin: "finite ?S" by (simp add: stale_rows_def)
  have "card (stale_rows lk since s') \<le> card (?S - ?P)" using gone fin by (simp add: card_mono)
  moreover have "card (?S - ?P) + card (?S \<inter> ?P) = card ?S"
    using card_Diff_subset_Int [of ?S ?P] card_mono [OF fin, of "?S \<inter> ?P"] fin by simp
  ultimately show "card (stale_rows lk since s') + min (nat limit) (card ?S) \<le> card ?S"
    using stale_picked [OF assms(1,3), of limit lk] by linarith
qed

lemma stale_shrinks: "claims_since since s s' \<Longrightarrow> stale_rows lk since s' \<subseteq> stale_rows lk since s"
  by (auto simp: claims_since_def stale_rows_def expired_def)

lemma reset_claims_nothing:
  assumes "ledger_ok s" and "0 < limit"
  shows "claims_since since s (snd (reset_expired tx_fine lk deadline limit s))"
  by (auto simp: claims_since_def reset_expired_fine [OF assms] set_delete_iff)

text \<open>An event either drives no round and leaves the ledger alone, or its round resets it.\<close>

lemma reconciler_event_ledger:
  assumes "reconciler_event r True probe reset vp orphans ev (l, (k, s, v)) = Some (l', (k', s', v'))"
  shows "case round_time ev l of None \<Rightarrow> s' = s | Some t \<Rightarrow> s' = snd (reset (reset_deadline r t) (rc_limit r) s)"
  using assms
  by (cases ev; cases "round_time ev l")
    (auto simp: reconciler_event_def round_time_def reconcile_once_def Let_def split: prod.splits sum.splits)

lemma recovering_progress:
  assumes "recovering r probe lk vp orphans since n (l, (k, s, v)) (l', (k', s', v'))"
    and "ledger_ok s" and "0 < rc_limit r"
  shows "ledger_run s s' \<and> stale_rows lk since s' \<subseteq> stale_rows lk since s \<and>
    card (stale_rows lk since s') \<le> card (stale_rows lk since s) - n * nat (rc_limit r)"
  using assms(1)
proof (induction n st\<equiv>"(l, (k, s, v))" st'\<equiv>"(l', (k', s', v'))" arbitrary: l' k' s' v' rule: recovering.induct)
  case recovering_none
  then show ?case by (simp add: run_refl)
next
  case (recovering_event n l1 x ev l2)
  obtain k1 s1 v1 where x: "x = (k1, s1, v1)" by (rule prod_cases3)
  note IH = recovering_event.hyps(2) [OF x]
  have ok: "ledger_ok s1" using IH assms(2) ledger_ok_run by blast
  have fin: "finite (stale_rows lk since s1)" by (simp add: stale_rows_def)
  show ?case
  proof (cases "round_time ev l1")
    case None
    then show ?thesis
      using IH reconciler_event_ledger [OF recovering_event.hyps(3) [unfolded x]]
      by (simp add: counts_round_def)
  next
    case (Some t)
    then have s': "s' = snd (reset_expired tx_fine lk (reset_deadline r t) (rc_limit r) s1)"
      using reconciler_event_ledger [OF recovering_event.hyps(3) [unfolded x]] by simp
    have run: "ledger_run s s'" using IH run_step step_reset_expired unfolding s' by blast
    have sub: "stale_rows lk since s' \<subseteq> stale_rows lk since s1"
      using stale_shrinks [OF reset_claims_nothing [OF ok assms(3)]] s' by blast
    then have le: "card (stale_rows lk since s') \<le> card (stale_rows lk since s1)" using fin by (rule card_mono [rotated])
    show ?thesis
    proof (cases "since \<le> reset_deadline r t")
      case True
      have "card (stale_rows lk since s') + min (nat (rc_limit r)) (card (stale_rows lk since s1)) \<le> card (stale_rows lk since s1)"
        by (rule stale_after_round(2) [OF ok assms(3) True s'])
      then have "card (stale_rows lk since s') \<le> card (stale_rows lk since s) - (n + 1) * nat (rc_limit r)"
        using IH by (simp add: min_def split: if_splits)
      then show ?thesis using run sub IH Some True by (auto simp: counts_round_def)
    next
      case False
      then show ?thesis using run sub le IH Some by (auto simp: counts_round_def)
    qed
  qed
next
  case (recovering_ledger n l1 k1 s1 v1 s2)
  have sub: "stale_rows lk since s2 \<subseteq> stale_rows lk since s1"
    by (rule stale_shrinks) (rule recovering_ledger.hyps(4))
  have "card (stale_rows lk since s2) \<le> card (stale_rows lk since s1)"
    using sub by (rule card_mono [rotated]) (simp add: stale_rows_def)
  then show ?case
    using recovering_ledger.hyps sub run_step by fastforce
qed


lemma in_flight_or_done:
  assumes "ledger_run s s'" and "ledger_ok s" and "tid \<in> in_flight s"
  shows "tid \<in> in_flight s' \<or> tid \<in> done_ids s'"
proof -
  have "tid \<in> payload_task ` set (payloads s)"
    using assms(2,3) by (simp add: ledger_ok_def payloads_cover_def table_ids_def)
  then obtain pl where "pl \<in> set (payloads s)" "payload_task pl = tid" by auto
  then have "survives tid (payload_json pl) s" using assms(3) by (auto simp: survives_def)
  then show ?thesis using survives_run [OF assms(1,2)] by (auto simp: survives_def)
qed


definition quick_reconciler :: reconciler where
  "quick_reconciler = new_reconciler 0 5 1 10 '''' 0 0 0"



section \<open>The worker's loops\<close>

text \<open>
  A tick of \<open>retryLoop\<close>, which ends early where the context is done, and one of \<open>queueLoop\<close>, which
  runs only with a queue source: what the source answers, and which subscriptions the bus accepts.
\<close>

datatype worker_event = RetryTick "nat \<Rightarrow> bool" | QueueTick "string + string list" "string \<Rightarrow> bool"

definition worker_event_step ::
  "'w worker \<Rightarrow> 's wal_ops \<Rightarrow> string list \<Rightarrow> bool \<Rightarrow> worker_event \<Rightarrow> runtime_state \<times> ('s \<times> 'w) \<Rightarrow> runtime_state \<times> ('s \<times> 'w)" where
  "worker_event_step k L static has_source ev st =
     (let (r, x) = st in
      if \<not> rs_started r then st
      else case ev of
          RetryTick cancelled \<Rightarrow> (r, replay_pending k L cancelled x)
        | QueueTick src can \<Rightarrow>
            if \<not> has_source then st
            else (r\<lparr>rs_subs := reconcile_subs (wo_high_water L (fst x)) can (desired_queues static (Some src)) (rs_subs r)\<rparr>, x))"

lemma empty_log_not_high:
  assumes "wal_ok sz w" and "wal_pending w = []"
  shows "\<not> wal_high_water w"
  using assms wal_numbers [OF assms(1)] by (auto simp: wal_high_water_def wal_ok_def)

text \<open>
  C23. Back-pressure ends. While the log of a running worker is at its high-water mark, no queue
  is subscribed anew; once the sink takes results again, one tick of the retry loop confirms all
  that the log holds, and the next tick of the queue loop then subscribes every wanted queue the
  bus accepts and closes exactly those that are no longer wanted.
\<close>

theorem backpressure_released:
  assumes "disk_ok c d" and "wk_sink k = Some f" and "\<forall>e v. fst (f e v)" and "rs_started r" and "distinct (rs_subs r)"
    and "step = worker_event_step k (disk_wal_ops c) static True"
    and "(r1, (d1, w1)) = step (RetryTick (\<lambda>_. False)) (r, (d, w))"
    and "(r2, (d2, w2)) = step (QueueTick src can) (r1, (d1, w1))"
  shows "disk_pending d2 = [] \<and>
    set (rs_subs r2) = {q \<in> set (desired_queues static (Some src)) - {''''}. q \<in> set (rs_subs r) \<or> can q}"
proof -
  have d1: "d1 = fst (replay_pending k (disk_wal_ops c) (\<lambda>_. False) (d, w))" and r1: "r1 = r"
    using assms(4,7) by (auto simp: assms(6) worker_event_step_def fst_def split: prod.splits)
  have w: "wal_ok (wc_size c) (dw_mem d)" using assms(1) by (simp add: disk_ok_def)
  have dist: "distinct (map re_key (disk_pending d))"
    using wal_pending_ok [OF w] by (simp add: disk_pending_def)
  have e: "d1 = fst (replay_events (disk_wal_ops c) f (\<lambda>_. False) 0 (disk_pending d) (d, w))"
    by (simp add: d1 replay_pending_def assms(2) disk_wal_ops_def)
  note p = disk_log.replay_log [OF assms(1) dist, of "\<lambda>d. wal_high_water (dw_mem d)" f "\<lambda>_. False" 0 w,
      folded disk_wal_ops_def e]
  have none: "disk_pending d1 = []"
    using p taken_all [of f "\<lambda>_. False" 0 "disk_pending d" w] assms(3) by simp
  have "wal_ok (wc_size c) (dw_mem d1)" using p by (simp add: disk_ok_def)
  then have low: "\<not> wal_high_water (dw_mem d1)"
    using none by (intro empty_log_not_high) (simp_all add: disk_pending_def)
  have "d2 = d1" and "rs_subs r2 = reconcile_subs False can (desired_queues static (Some src)) (rs_subs r)"
    using assms(4,8) low by (simp_all add: assms(6) r1 worker_event_step_def disk_wal_ops_def)
  then show ?thesis using none by (auto simp: reconcile_subs_def Let_def)
qed

theorem backpressure_released_witness:
  "let k = taking_worker True; L = disk_wal_ops pair_codec; r = \<lparr>rs_started = True, rs_subs = [''old'', ''b'']\<rparr>;
       st1 = worker_event_step k L [] True (RetryTick (\<lambda>_. False)) (r, (pair_disk, []));
       st2 = worker_event_step k L [] True (QueueTick (Inr [''a'', ''b'']) (\<lambda>_. True)) st1
   in disk_pending (fst (snd st2)) = [] \<and> set (rs_subs (fst st2)) = {''a'', ''b''}"
proof -
  let ?k = "taking_worker True" and ?L = "disk_wal_ops pair_codec"
  let ?r = "\<lparr>rs_started = True, rs_subs = [''old'', ''b'']\<rparr>"
  let ?st1 = "worker_event_step ?k ?L [] True (RetryTick (\<lambda>_. False)) (?r, (pair_disk, []))"
  let ?st2 = "worker_event_step ?k ?L [] True (QueueTick (Inr [''a'', ''b'']) (\<lambda>_. True)) ?st1"
  have k: "wk_sink ?k = Some (\<lambda>ev w. (True, w @ [ev]))" by (simp add: taking_worker_def new_worker_def)
  have s1: "(fst ?st1, (fst (snd ?st1), snd (snd ?st1))) = ?st1" by simp
  have s2: "(fst ?st2, (fst (snd ?st2), snd (snd ?st2))) =
      worker_event_step ?k ?L [] True (QueueTick (Inr [''a'', ''b'']) (\<lambda>_. True)) (fst ?st1, (fst (snd ?st1), snd (snd ?st1)))"
    by simp
  have "disk_pending (fst (snd ?st2)) = [] \<and>
      set (rs_subs (fst ?st2)) = {q \<in> set (desired_queues [] (Some (Inr [''a'', ''b'']))) - {''''}. q \<in> set (rs_subs ?r) \<or> (\<lambda>_. True) q}"
    by (rule backpressure_released [OF pair_disk_ok k _ _ _ refl s1 s2]) simp_all
  then show ?thesis by (auto simp: Let_def desired_queues_def)
qed

end
