(* ===== verification/Process.thy ===== *)
theory Process
  imports Serve MockServer
begin

text \<open>
  A server process from start to exit: the connection string and the clients of
  \<open>internal/domain/data/dsn.go\<close> and \<open>data.go\<close>, the notifications that wake the scheduler
  (\<open>internal/domain/data/notify.go\<close>), the assembly with its clean-up functions
  (\<open>cmd/stateflux/wire_gen.go\<close>, \<open>cleanup.go\<close>), and the life of the \<open>serve\<close> command with its
  signals (\<open>cmd/stateflux/server.go\<close>).
\<close>

section \<open>The search path of the connection string\<close>

definition default_search_path :: "string \<Rightarrow> string" where
  "default_search_path schema = (if schema = '''' then ''public'' else schema)"

definition has_search_path :: "string \<Rightarrow> bool" where
  "has_search_path dsn =
     (let lower = map lower_char dsn in contains_str lower ''search_path='' \<or> contains_str lower ''search_path%3d'')"

definition with_search_path :: "string \<Rightarrow> string \<Rightarrow> string" where
  "with_search_path dsn schema =
     (if schema = '''' \<or> dsn = '''' then dsn
      else if has_search_path dsn then dsn
      else if contains_str dsn ''://'' then
        dsn @ (if contains_str dsn ''?'' then ''&'' else ''?'') @ ''search_path='' @ schema
      else trim_space dsn @ '' search_path='' @ schema)"

section \<open>Opening the clients\<close>

datatype redis_client = RedisSingle string | RedisCluster "string list"

definition open_redis :: "redis_config \<Rightarrow> string + redis_client" where
  "open_redis c =
     (case rd_addrs c of
        [] \<Rightarrow> Inl ''data: redis addrs is empty''
      | [a] \<Rightarrow> Inr (RedisSingle a)
      | as \<Rightarrow> Inr (RedisCluster as))"

text \<open>\<open>Open\<close>: the driver is closed again when the Redis client cannot be built. \<open>pg\<close> opens the driver.\<close>

datatype data_call = PgOpened string | PgClosed | RedisOpened redis_client | RedisClosed

definition data_open :: "(string \<Rightarrow> string option) \<Rightarrow> config \<Rightarrow> (string + data_call list) \<times> data_call list" where
  "data_open pg c =
     (let dsn = with_search_path (pg_dsn (cf_pg c)) (default_search_path (pg_search_path (cf_pg c))) in
      case pg dsn of
        Some e \<Rightarrow> (Inl (''data: open pg: '' @ e), [])
      | None \<Rightarrow>
          (case open_redis (cf_redis c) of
             Inl e \<Rightarrow> (Inl (''data: open redis: '' @ e), [PgOpened dsn, PgClosed])
           | Inr rc \<Rightarrow> (Inr [PgClosed, RedisClosed], [PgOpened dsn, RedisOpened rc])))"

section \<open>Wake-ups\<close>

text \<open>
  \<open>TaskNotifier\<close>: the buffer of its channel holds one signal; \<open>nf_live\<close>: its loop runs. Events: a
  notification of the database (or the one the library sends after reconnecting), a keep-alive,
  the receiver taking a signal, and \<open>Close\<close>, after which the library closes its channel.
\<close>

record notifier =
  nf_waiting :: bool
  nf_live :: bool

datatype notifier_event = PgNotify | KeepAlive | TakeSignal | NotifierClosed

datatype notifier_error = ConnectTimeout | ListenError

text \<open>\<open>NewTaskNotifier\<close>: \<open>None\<close> without a connection string; a listener that fails is closed again.\<close>

definition new_notifier :: "string \<Rightarrow> string \<Rightarrow> bool \<Rightarrow> bool \<Rightarrow> notifier_error + notifier option" where
  "new_notifier dsn search connects listens =
     (if with_search_path dsn (default_search_path search) = '''' then Inr None
      else if \<not> connects then Inl ConnectTimeout
      else if \<not> listens then Inl ListenError
      else Inr (Some \<lparr>nf_waiting = False, nf_live = True\<rparr>))"

text \<open>The result says whether the receiver got a signal.\<close>

fun notifier_step :: "notifier_event \<Rightarrow> notifier \<Rightarrow> bool \<times> notifier" where
  "notifier_step PgNotify n = (False, if nf_live n then n\<lparr>nf_waiting := True\<rparr> else n)"
| "notifier_step KeepAlive n = (False, n)"
| "notifier_step TakeSignal n = (nf_waiting n, n\<lparr>nf_waiting := False\<rparr>)"
| "notifier_step NotifierClosed n = (False, n\<lparr>nf_live := False\<rparr>)"

fun notifier_run :: "notifier_event list \<Rightarrow> notifier \<Rightarrow> bool list \<times> notifier" where
  "notifier_run [] n = ([], n)"
| "notifier_run (e # es) n =
     (let (b, n1) = notifier_step e n; (bs, n2) = notifier_run es n1 in (b # bs, n2))"

section \<open>Assembly\<close>

text \<open>
  \<open>newApplication\<close> as a list of steps: the provider, the clean-up it returns (numbered as in the
  source), and, where the provider can fail, the clean-ups that its error branch runs.
\<close>

record wire_step =
  ws_name :: string
  ws_cleanup :: "nat option"
  ws_on_error :: "nat list option"

definition sure :: "string \<Rightarrow> wire_step" where
  "sure name = \<lparr>ws_name = name, ws_cleanup = None, ws_on_error = None\<rparr>"

definition fallible :: "string \<Rightarrow> nat list \<Rightarrow> wire_step" where
  "fallible name cs = \<lparr>ws_name = name, ws_cleanup = None, ws_on_error = Some cs\<rparr>"

definition with_cleanup :: "nat \<Rightarrow> wire_step \<Rightarrow> wire_step" where
  "with_cleanup i w = w\<lparr>ws_cleanup := Some i\<rparr>"

definition new_application :: "wire_step list" where
  "new_application =
     [fallible ''ClusterView'' [], with_cleanup 1 (sure ''ClusterCache''), sure ''NodeID'',
      with_cleanup 2 (fallible ''Data'' [1]), sure ''Dialer'', fallible ''CacheView'' [2, 1], fallible ''EventBus'' [2, 1],
      fallible ''TaskRegistry'' [2, 1], sure ''Codec'', fallible ''HandlerRegistry'' [2, 1], sure ''ResultPublisher'',
      fallible ''Metrics'' [2, 1], sure ''WorkerRuntime'', sure ''Snowflake'', sure ''Store'', sure ''Collector'',
      sure ''ExecutorServer'', fallible ''CapabilityRegistry'' [2, 1], sure ''CapabilityServer'', sure ''Dispatcher'',
      sure ''Forwarder'', sure ''DispatchServer'', sure ''CoherenceStore'', sure ''CoherenceServer'', sure ''ForwardRegistry'',
      sure ''ForwardServer'', sure ''GRPCServer'', sure ''Health'', sure ''HTTPServer'', sure ''WorkerComponent'',
      sure ''Cycle'', with_cleanup 3 (sure ''TaskNotifier''), sure ''SchedulerGroup'', sure ''SchedulerComponent'',
      sure ''ChannelProbe'', sure ''Reconciler'', sure ''ReconcileComponent'', sure ''CoherenceSyncer'',
      sure ''SyncerComponent'', sure ''CoherencePuller'', sure ''PullerComponent'', fallible ''FactoryRegistry'' [3, 2, 1],
      sure ''Enqueuer'', sure ''FactoryManager'', sure ''FactoryComponent'', sure ''CollectorRunner'',
      sure ''CollectorRunnerComponent'', sure ''Components'', fallible ''App'' [3, 2, 1]]"

definition application_cleanup :: "nat list" where
  "application_cleanup = [3, 2, 1]"

datatype wired = WiredApp "nat list" | WireError string "nat list"

text \<open>The steps done, and the outcome: the clean-up of the application, or the error and what was cleaned up.\<close>

fun run_wire :: "(string \<Rightarrow> bool) \<Rightarrow> wire_step list \<Rightarrow> wire_step list \<times> wired" where
  "run_wire fails [] = ([], WiredApp application_cleanup)"
| "run_wire fails (w # ws) =
     (case ws_on_error w of
        Some cs \<Rightarrow>
          if fails (ws_name w) then ([], WireError (ws_name w) cs)
          else (let (d, r) = run_wire fails ws in (w # d, r))
      | None \<Rightarrow> (let (d, r) = run_wire fails ws in (w # d, r)))"

section \<open>Serving\<close>

text \<open>
  A clean-up function takes a time (\<open>None\<close>: it never returns) and is abandoned at its budget, the
  chain of them at the total budget. Durations are in nanoseconds.
\<close>

definition step_time :: "int \<Rightarrow> int option \<Rightarrow> int" where
  "step_time timeout dur =
     (case cleanup_budget True timeout of
        None \<Rightarrow> 0
      | Some b \<Rightarrow> (case dur of None \<Rightarrow> b | Some d \<Rightarrow> min d b))"

definition chain_time :: "int \<Rightarrow> (nat \<Rightarrow> int option) \<Rightarrow> nat list \<Rightarrow> int" where
  "chain_time timeout dur cs = sum_list (map (\<lambda>i. step_time timeout (dur i)) cs)"

definition total_budget :: "config \<Rightarrow> int" where
  "total_budget c = (let t = sc_shutdown_timeout (cf_server c) in if t \<le> 0 then seconds 10 else t)"

text \<open>
  \<open>run\<close>: what happens, and the error returned. \<open>Cleaned\<close>: the chain of clean-ups that was begun, and
  the time waited for it; \<open>CleanupExceeded\<close>: it was abandoned.
\<close>

datatype serve_event =
    ObsReady | StepDone string | Cleaned "nat list" int | CleanupExceeded | AppRan "app_call list" | ObsFlushed

datatype serve_error = ObsSetup | WireInit string | RunFailed "app_error list"

definition cleanup_resources :: "config \<Rightarrow> (nat \<Rightarrow> int option) \<Rightarrow> nat list \<Rightarrow> serve_event list" where
  "cleanup_resources c dur cs =
     (let t = chain_time (sc_shutdown_timeout (cf_server c)) dur cs in
      if t \<le> total_budget c then [Cleaned cs t] else [Cleaned cs (total_budget c), CleanupExceeded])"

definition serve_run ::
  "config \<Rightarrow> bool \<Rightarrow> (string \<Rightarrow> bool) \<Rightarrow> (nat \<Rightarrow> int option) \<Rightarrow> app_call list \<times> app_error list
     \<Rightarrow> serve_event list \<times> serve_error option" where
  "serve_run c obs_ok fails dur app =
     (if \<not> obs_ok then ([], Some ObsSetup)
      else case run_wire fails new_application of
          (built, WireError n cs) \<Rightarrow>
            (ObsReady # map (StepDone \<circ> ws_name) built @
               [Cleaned cs (chain_time (sc_shutdown_timeout (cf_server c)) dur cs), ObsFlushed], Some (WireInit n))
        | (built, WiredApp cs) \<Rightarrow>
            (let (log, errs) = app in
             (ObsReady # map (StepDone \<circ> ws_name) built @ AppRan log # cleanup_resources c dur cs @ [ObsFlushed],
              if errs = [] then None else Some (RunFailed errs))))"

text \<open>
  \<open>superviseSignals\<close>: the first signal cancels the context, the second forces the exit with code 2;
  if the context ends first, signals are ignored.
\<close>

datatype signal_event = Interrupt | RunEnded

datatype signal_state = SignalsWaiting | SignalsCancelled | SignalsIgnored | ForcedExit int

fun supervise :: "signal_event \<Rightarrow> signal_state \<Rightarrow> signal_state" where
  "supervise Interrupt SignalsWaiting = SignalsCancelled"
| "supervise Interrupt SignalsCancelled = ForcedExit 2"
| "supervise RunEnded SignalsWaiting = SignalsIgnored"
| "supervise e s = s"


section \<open>The search path is set once\<close>

lemma has_prefix_append: "has_prefix sub (sub @ b)"
  by (induction sub) auto

lemma contains_str_append: "contains_str (a @ sub @ b) sub"
proof (induction a)
  case Nil
  then show ?case by (cases "sub @ b") (use has_prefix_append [of sub b] in auto)
qed simp

lemma has_search_path_added: "has_search_path (a @ ''search_path='' @ b)"
proof -
  define k where "k = ''search_path=''"
  have l: "map lower_char k = k" unfolding k_def by code_simp
  have "contains_str (map lower_char (a @ k @ b)) k" by (simp only: map_append l contains_str_append)
  then show ?thesis unfolding has_search_path_def Let_def k_def by blast
qed

text \<open>
  The search path of a connection string is fixed once: after a schema has been set, setting
  one again, the same or another, changes nothing, in both forms of the string.
\<close>

theorem search_path_set_once:
  assumes "schema \<noteq> ''''"
  shows "with_search_path (with_search_path dsn schema) schema' = with_search_path dsn schema"
proof (cases "dsn = '''' \<or> has_search_path dsn")
  case False
  have "with_search_path dsn schema = dsn @ ''?search_path='' @ schema \<or> with_search_path dsn schema = dsn @ ''&search_path='' @ schema
      \<or> with_search_path dsn schema = trim_space dsn @ '' search_path='' @ schema"
    using False assms by (auto simp: with_search_path_def)
  moreover have "has_search_path (dsn @ ''?search_path='' @ schema)" "has_search_path (dsn @ ''&search_path='' @ schema)"
      "has_search_path (trim_space dsn @ '' search_path='' @ schema)"
    using has_search_path_added [of "dsn @ ''?''" schema] has_search_path_added [of "dsn @ ''&''" schema]
      has_search_path_added [of "trim_space dsn @ '' ''" schema] by simp_all
  ultimately have "has_search_path (with_search_path dsn schema)" by metis
  then show ?thesis by (simp add: with_search_path_def [of "with_search_path dsn schema"])
qed (use assms in \<open>auto simp: with_search_path_def\<close>)

theorem search_path_set_once_witness:
  "with_search_path (with_search_path ''postgres://h/d?x=1'' ''public'') ''other'' = ''postgres://h/d?x=1&search_path=public''"
proof -
  have "with_search_path ''postgres://h/d?x=1'' ''public'' = ''postgres://h/d?x=1&search_path=public''" by code_simp
  then show ?thesis using search_path_set_once [of "''public''" "''postgres://h/d?x=1''" "''other''"] by simp
qed

section \<open>No wake-up is lost\<close>

lemma notifier_run_Cons:
  "notifier_run (e # es) n =
     (fst (notifier_step e n) # fst (notifier_run es (snd (notifier_step e n))),
      snd (notifier_run es (snd (notifier_step e n))))"
  by (simp add: split_beta Let_def)

declare notifier_run.simps(2) [simp del] notifier_run_Cons [simp]

lemma notifier_run_append:
  "notifier_run (es @ fs) n =
     (fst (notifier_run es n) @ fst (notifier_run fs (snd (notifier_run es n))),
      snd (notifier_run fs (snd (notifier_run es n))))"
  by (induction es arbitrary: n) simp_all

lemma notifier_live:
  "NotifierClosed \<notin> set es \<Longrightarrow> nf_live (snd (notifier_run es n)) = nf_live n"
proof (induction es arbitrary: n)
  case (Cons e es)
  have "nf_live (snd (notifier_step e n)) = nf_live n" using Cons.prems by (cases e) auto
  then show ?case using Cons by simp
qed simp

lemma notifier_keeps_signal:
  "TakeSignal \<notin> set es \<Longrightarrow> nf_waiting n \<Longrightarrow> nf_waiting (snd (notifier_run es n))"
proof (induction es arbitrary: n)
  case (Cons e es)
  have "nf_waiting (snd (notifier_step e n))" using Cons.prems by (cases e) auto
  then show ?case using Cons by simp
qed simp

lemma notifier_signals_bounded:
  "length (filter id (fst (notifier_run es n))) + (if nf_waiting (snd (notifier_run es n)) then 1 else 0)
     \<le> length (filter (\<lambda>e. e = PgNotify) es) + (if nf_waiting n then 1 else 0)"
proof (induction es arbitrary: n)
  case (Cons e es)
  obtain b n1 where st: "notifier_step e n = (b, n1)" by fastforce
  have "(if b then 1 else 0) + (if nf_waiting n1 then 1 else 0) \<le> (if e = PgNotify then 1 else 0) + (if nf_waiting n then 1 else (0 :: nat))"
    using st by (cases e) (auto split: if_splits)
  then show ?case
    using Cons.IH [of n1] unfolding notifier_run_Cons st fst_conv snd_conv by (simp split: if_splits)
qed simp

text \<open>
  No wake-up is lost while the listener lives. Whatever happened before a notification of the
  database and whatever happens after it, if the listener was not closed before it, the next signal
  the scheduler asks for is there, even if the listener has been closed in the meantime; and the
  scheduler never gets more signals than there were notifications.
\<close>

theorem notification_wakes_scheduler:
  assumes "NotifierClosed \<notin> set es" and "TakeSignal \<notin> set fs"
    and "new_notifier dsn search True True = Inr (Some n)"
    and "notifier_run (es @ PgNotify # fs @ [TakeSignal]) n = (bs, n')"
  shows "last bs \<and> \<not> nf_waiting n' \<and>
    length (filter id bs) \<le> length (filter (\<lambda>e. e = PgNotify) (es @ PgNotify # fs @ [TakeSignal]))"
proof -
  have n: "nf_live n" "\<not> nf_waiting n" using assms(3) by (auto simp: new_notifier_def split: if_splits)
  let ?n1 = "snd (notifier_run es n)"
  have "nf_live ?n1" using notifier_live [OF assms(1), of n] n(1) by simp
  then have "nf_waiting (snd (notifier_step PgNotify ?n1))" by simp
  then have w: "nf_waiting (snd (notifier_run fs (snd (notifier_step PgNotify ?n1))))"
    by (rule notifier_keeps_signal [OF assms(2)])
  have l: "last bs \<and> \<not> nf_waiting n'"
    using assms(4) w by (auto simp: notifier_run_append)
  show ?thesis
    using l notifier_signals_bounded [of "es @ PgNotify # fs @ [TakeSignal]" n] assms(4) n(2) by simp
qed

theorem notification_wakes_scheduler_witness:
  "let n = \<lparr>nf_waiting = False, nf_live = True\<rparr>;
       r = notifier_run ([PgNotify, TakeSignal] @ PgNotify # [PgNotify, NotifierClosed] @ [TakeSignal]) n
   in last (fst r) \<and> length (filter id (fst r)) = 2"
proof -
  let ?n = "\<lparr>nf_waiting = False, nf_live = True\<rparr>"
  let ?r = "notifier_run ([PgNotify, TakeSignal] @ PgNotify # [PgNotify, NotifierClosed] @ [TakeSignal]) ?n"
  have n: "new_notifier ''d'' '''' True True = Inr (Some ?n)" by code_simp
  have r: "?r = (fst ?r, snd ?r)" by simp
  have c: "length (filter id (fst ?r)) = 2" by code_simp
  show ?thesis using notification_wakes_scheduler [OF _ _ n r] c by (simp add: Let_def)
qed


section \<open>Everything acquired is released\<close>

text \<open>A list of steps cleans up, in every branch, what the steps before it acquired, newest first.\<close>

definition acquired :: "wire_step list \<Rightarrow> nat list" where
  "acquired ws = rev (List.map_filter ws_cleanup ws)"

fun well_wired :: "nat list \<Rightarrow> wire_step list \<Rightarrow> bool" where
  "well_wired acq [] = (acq = application_cleanup)"
| "well_wired acq (w # ws) =
     ((case ws_on_error w of None \<Rightarrow> True | Some cs \<Rightarrow> cs = acq) \<and>
      well_wired (case ws_cleanup w of None \<Rightarrow> acq | Some i \<Rightarrow> i # acq) ws)"

definition released :: "wired \<Rightarrow> nat list" where
  "released r = (case r of WiredApp cs \<Rightarrow> cs | WireError _ cs \<Rightarrow> cs)"

lemma run_wire_releases:
  "well_wired acq ws \<Longrightarrow> run_wire fails ws = (built, r) \<Longrightarrow> released r = acquired built @ acq"
proof (induction ws arbitrary: acq built r)
  case (Cons w ws)
  obtain d r' where d: "run_wire fails ws = (d, r')" by fastforce
  have more: "released r' = acquired (w # d) @ acq"
    using Cons.IH [OF _ d] Cons.prems(1)
    by (simp add: acquired_def List.map_filter_simps split: option.splits)
  show ?case
    using Cons.prems more
    by (auto simp: d released_def acquired_def List.map_filter_simps split: option.splits if_splits)
qed (simp add: released_def acquired_def List.map_filter_simps)

lemma new_application_wired: "well_wired [] new_application"
  by code_simp

lemma run_wire_short:
  "(\<And>w cs. w \<in> set ws \<Longrightarrow> ws_on_error w = Some cs \<Longrightarrow> length cs \<le> 3) \<Longrightarrow>
   run_wire fails ws = (built, r) \<Longrightarrow> length (released r) \<le> 3"
proof (induction ws arbitrary: built r)
  case (Cons w ws)
  obtain d r' where d: "run_wire fails ws = (d, r')" by fastforce
  have r': "length (released r') \<le> 3" by (rule Cons.IH [OF Cons.prems(1) d]) auto
  show ?case
  proof (cases "r = r'")
    case False
    then have "\<exists>cs. ws_on_error w = Some cs \<and> released r = cs"
      using Cons.prems(2) by (auto simp: d released_def split: option.splits if_splits)
    then show ?thesis using Cons.prems(1) by auto
  qed (use r' in simp)
qed (simp add: released_def application_cleanup_def)

lemma new_application_short:
  assumes "run_wire fails new_application = (built, r)"
  shows "length (released r) \<le> 3"
proof (rule run_wire_short [OF _ assms])
  have "list_all (\<lambda>w. case ws_on_error w of None \<Rightarrow> True | Some cs \<Rightarrow> length cs \<le> 3) new_application" by code_simp
  then show "length cs \<le> 3" if "w \<in> set new_application" "ws_on_error w = Some cs" for w cs
    using that by (fastforce simp: list_all_iff)
qed

lemma step_time_bound: "step_time timeout dur \<le> seconds 5"
  by (auto simp: step_time_def cleanup_budget_def split: option.splits)

lemma chain_time_bound: "chain_time timeout dur cs \<le> int (length cs) * seconds 5"
proof (induction cs)
  case (Cons i cs)
  then show ?case using step_time_bound [of timeout "dur i"] by (simp add: chain_time_def algebra_simps)
qed (simp add: chain_time_def)

text \<open>The chains of clean-ups a run waited for, with the time.\<close>

definition cleanups_of :: "serve_event list \<Rightarrow> (nat list \<times> int) list" where
  "cleanups_of log = List.map_filter (\<lambda>x. case x of Cleaned cs t \<Rightarrow> Some (cs, t) | _ \<Rightarrow> None) log"

lemma cleanups_of_simps [simp]:
  "cleanups_of [] = []" "cleanups_of (x @ y) = cleanups_of x @ cleanups_of y"
  "cleanups_of (Cleaned cs t # l) = (cs, t) # cleanups_of l" "cleanups_of (ObsReady # l) = cleanups_of l"
  "cleanups_of (ObsFlushed # l) = cleanups_of l" "cleanups_of (CleanupExceeded # l) = cleanups_of l"
  "cleanups_of (AppRan a # l) = cleanups_of l" "cleanups_of (map (StepDone \<circ> f) ws) = []"
  by (simp_all add: cleanups_of_def List.map_filter_def)



end
