(* ===== verification/Scaffold.thy ===== *)
theory Scaffold
  imports Migration MockServer
begin

text \<open>
  Creating the files of a new migration (\<open>internal/domain/migration/migration.go\<close>: \<open>Generate\<close>,
  \<open>goFuncSuffix\<close>), and the history of versions (\<open>pkg/buildinfo/buildinfo.go\<close>). The texts of the two
  templates are arguments; of the Go template only that it registers the base name matters.
\<close>

section \<open>The history of versions\<close>

fun split_lines :: "string \<Rightarrow> string list" where
  "split_lines [] = [[]]"
| "split_lines (c # cs) =
     (if c = CHR 0x0A then [] # split_lines cs
      else (case split_lines cs of x # xs \<Rightarrow> (c # x) # xs | [] \<Rightarrow> [[c]]))"

definition build_versions :: "string \<Rightarrow> string list" where
  "build_versions file = filter (\<lambda>l. l \<noteq> '''' \<and> take 1 l \<noteq> ''#'') (map trim_space (split_lines file))"

definition build_version :: "string \<Rightarrow> string" where
  "build_version file = (case rev (build_versions file) of [] \<Rightarrow> ''dev'' | v # _ \<Rightarrow> v)"

section \<open>Generating\<close>

definition upper_char :: "char \<Rightarrow> char" where
  "upper_char c =
     (let n = (of_char c :: nat) in if 97 \<le> n \<and> n \<le> 122 then char_of (n - 32) else c)"

text \<open>The characters of the alias, the first in upper case; \<open>None\<close>: not a Go identifier.\<close>

definition alias_suffix :: "string \<Rightarrow> string option" where
  "alias_suffix a =
     (case a of [] \<Rightarrow> Some []
      | c # cs \<Rightarrow>
          if \<not> (is_letter c \<or> c = CHR ''_'') then None
          else if list_all (\<lambda>x. is_letter x \<or> is_digit x \<or> x = CHR ''_'') cs then Some (upper_char c # cs)
          else None)"

datatype generate_error = BadVersion string | BadDate string | GenerateMkdir | BadAlias string | FileExists string | StatFailed string | WriteFailed string

text \<open>Major and minor are what stands between and behind the dots.\<close>

definition go_func_suffix :: "string \<Rightarrow> generate_error + string" where
  "go_func_suffix version =
     (if \<not> version_ok version then Inl (BadVersion version)
      else
        let a = takeWhile (\<lambda>c. c \<noteq> CHR ''.'') version; r = drop (Suc (length a)) version;
            major = takeWhile is_digit r; minor = drop (Suc (length major)) r in
        case alias_suffix a of None \<Rightarrow> Inl (BadAlias a) | Some x \<Rightarrow> Inr (x @ major @ ''_'' @ minor))"

type_synonym dir_files = "(string \<times> string option) list"

text \<open>\<open>stat\<close>: does the test for the file work; \<open>write\<close>: does writing it. A write that
  fails is taken to leave no file.\<close>

definition write_if_absent ::
  "(string \<Rightarrow> bool) \<Rightarrow> (string \<Rightarrow> bool) \<Rightarrow> string \<Rightarrow> string \<Rightarrow> dir_files \<Rightarrow> generate_error option \<times> dir_files" where
  "write_if_absent stat write name content files =
     (if \<not> stat name then (Some (StatFailed name), files)
      else if map_of files name \<noteq> None then (Some (FileExists name), files)
      else if \<not> write name then (Some (WriteFailed name), files)
      else (None, files @ [(name, Some content)]))"

definition go_suffix :: string where
  "go_suffix = ''.go''"

definition generate ::
  "string \<Rightarrow> (string \<Rightarrow> string \<Rightarrow> string) \<Rightarrow> (string \<Rightarrow> string \<Rightarrow> string \<Rightarrow> string) \<Rightarrow> bool \<Rightarrow> (string \<Rightarrow> bool) \<Rightarrow> (string \<Rightarrow> bool)
     \<Rightarrow> string \<Rightarrow> string \<Rightarrow> dir_files \<Rightarrow> (generate_error + string list) \<times> dir_files" where
  "generate today sql_text go_text mkdir_ok stat write version date0 files =
     (if \<not> version_ok version then (Inl (BadVersion version), files)
      else
        let date = (if date0 = '''' then today else date0) in
        if \<not> (length date = 8 \<and> list_all is_digit date) then (Inl (BadDate date), files)
        else if \<not> mkdir_ok then (Inl GenerateMkdir, files)
        else case go_func_suffix version of
            Inl e \<Rightarrow> (Inl e, files)
          | Inr suffix \<Rightarrow>
              (let base = version @ ''_'' @ date in
               case write_if_absent stat write (base @ sql_suffix) (sql_text base version) files of
                 (Some e, f1) \<Rightarrow> (Inl e, f1)
               | (None, f1) \<Rightarrow>
                   (case write_if_absent stat write (base @ go_suffix) (go_text base version suffix) f1 of
                      (Some e, f2) \<Rightarrow> (Inl e, f2)
                    | (None, f2) \<Rightarrow> (Inr [base @ sql_suffix, base @ go_suffix], f2))))"

section \<open>What is generated is accepted\<close>

lemma char_then_append: "char_then c s = Some r \<Longrightarrow> char_then c (s @ d) = Some (r @ d)"
  by (auto simp: char_then_def split: list.splits if_splits)

lemma dropWhile_append_cons: "dropWhile P s = x # r \<Longrightarrow> dropWhile P (s @ d) = x # r @ d"
  by (induction s) (auto split: if_splits)

lemma digits_then_append:
  assumes "digits_then s = Some r" and "r \<noteq> [] \<or> d = [] \<or> \<not> is_digit (hd d)"
  shows "digits_then (s @ d) = Some (r @ d)"
proof -
  have s: "takeWhile is_digit s \<noteq> []" "dropWhile is_digit s = r"
    using assms(1) by (auto simp: digits_then_def split: if_splits)
  then have ne: "takeWhile is_digit (s @ d) \<noteq> []"
    by (cases s) (auto split: if_splits)
  have "dropWhile is_digit (s @ d) = r @ d"
  proof (cases r)
    case Nil
    then have "\<forall>x\<in>set s. is_digit x" using s(2) by (simp add: dropWhile_eq_Nil_conv)
    then show ?thesis using Nil assms(2) by (cases d) (auto simp: dropWhile_append2)
  next
    case (Cons x xs)
    then show ?thesis using s(2) dropWhile_append_cons by fastforce
  qed
  then show ?thesis using ne by (simp add: digits_then_def)
qed

lemma after_version_append:
  assumes "after_version v = Some []" and "d \<noteq> []" and "\<not> is_digit (hd d)"
  shows "after_version (v @ d) = Some d"
proof -
  obtain c cs r1 r2 r3 where v: "v = c # cs" "is_letter c"
    "char_then CHR ''.'' (dropWhile alias_char cs) = Some r1" "digits_then r1 = Some r2"
    "char_then CHR ''.'' r2 = Some r3" "digits_then r3 = Some []"
    using assms(1) by (auto simp: after_version_def bind_eq_Some_conv split: list.splits if_splits)
  have "dropWhile alias_char (cs @ d) = dropWhile alias_char cs @ d"
    using v(3) by (cases "dropWhile alias_char cs") (auto simp: char_then_def dropWhile_append_cons)
  moreover have "r2 \<noteq> []" using v(5) by (auto simp: char_then_def)
  ultimately show ?thesis
    using v assms(2,3) digits_then_append [of r1 r2 d] digits_then_append [of r3 "[]" d]
      char_then_append [OF v(3), of d] char_then_append [OF v(5), of d]
    by (simp add: after_version_def)
qed

lemma base_ok_version_date:
  assumes "version_ok v" and "length date = 8" and "list_all is_digit date"
  shows "base_ok (v @ ''_'' @ date)"
  using assms after_version_append [of v "''_'' @ date"]
  by (simp add: base_ok_def version_ok_def char_then_def is_digit_def)

lemma base_version_append:
  "CHR ''_'' \<notin> set v \<Longrightarrow> base_version (v @ ''_'' @ d) = v"
  unfolding base_version_def by (subst takeWhile_append2) auto

lemma generate_files:
  assumes "generate today sql go mk stat wr version date0 files = (Inr names, files')"
  obtains date suffix where "date = (if date0 = '''' then today else date0)" and "version_ok version"
    and "length date = 8" and "list_all is_digit date" and "go_func_suffix version = Inr suffix"
    and "map_of files ((version @ ''_'' @ date) @ sql_suffix) = None"
    and "files' = files @ [((version @ ''_'' @ date) @ sql_suffix, Some (sql (version @ ''_'' @ date) version)),
                           ((version @ ''_'' @ date) @ go_suffix, Some (go (version @ ''_'' @ date) version suffix))]"
    and "names = [(version @ ''_'' @ date) @ sql_suffix, (version @ ''_'' @ date) @ go_suffix]"
  using assms
  by (simp add: generate_def write_if_absent_def Let_def split: if_splits sum.splits)

lemma sql_bases_generated:
  "sql_bases (files @ [(b @ sql_suffix, Some x), (b @ go_suffix, Some y)]) = sql_bases files @ [b]"
  by (simp add: sql_bases_def has_sql_suffix_def trim_sql_def sql_suffix_def go_suffix_def)

lemma unit_of_generated:
  assumes "b' \<noteq> b"
  shows "unit_of (files @ [(b @ sql_suffix, x), (b @ go_suffix, y)]) (b # reg) b' = unit_of files reg b'"
proof -
  have "List.last (b' @ sql_suffix) \<noteq> List.last (b @ go_suffix)" by (simp add: sql_suffix_def go_suffix_def)
  then have "b' @ sql_suffix \<noteq> b @ go_suffix" by metis
  then show ?thesis using assms by (auto simp: unit_of_def map_add_def split: option.splits)
qed

lemma unit_of_new:
  assumes "map_of files (b @ sql_suffix) = None"
  shows "unit_of (files @ [(b @ sql_suffix, Some x), (b @ go_suffix, y)]) (b # reg) b
     = \<lparr>mg_name = b, mg_version = base_version b, mg_sql = x, mg_go = True\<rparr>"
  using assms by (simp add: unit_of_def map_add_def)

lemma mset_remdups_new:
  assumes "b \<notin> set xs" and "b \<notin> set ys"
  shows "mset (remdups ((xs @ [b]) @ b # ys)) = add_mset b (mset (remdups (xs @ ys)))"
proof -
  have "set (remdups ((xs @ [b]) @ b # ys)) = set (b # remdups (xs @ ys))" by auto
  moreover have "distinct (b # remdups (xs @ ys))" using assms by simp
  ultimately show ?thesis by (simp only: set_eq_iff_mset_eq_distinct distinct_remdups mset.simps flip: mset.simps)
qed

lemma available_from_checks:
  assumes "available_from files reg versions = Inr ms"
  shows "distinct versions" and "\<forall>x\<in>set (sql_bases files @ reg). base_ok x \<and> base_version x \<in> set versions"
    and "distinct (map base_version (remdups (sql_bases files @ reg)))"
    and "ms = sort_key (\<lambda>m. version_rank versions (mg_version m)) (map (unit_of files reg) (remdups (sql_bases files @ reg)))"
  using assms unfolding available_from_def Let_def
  by (auto simp: first_dup_None find_None_iff unit_of_def comp_def split: option.splits)

lemma available_from_ok:
  assumes "distinct versions" and "\<forall>x\<in>set (sql_bases files @ reg). base_ok x \<and> base_version x \<in> set versions"
    and "distinct (map base_version (remdups (sql_bases files @ reg)))"
  shows "available_from files reg versions
    = Inr (sort_key (\<lambda>m. version_rank versions (mg_version m)) (map (unit_of files reg) (remdups (sql_bases files @ reg))))"
proof -
  let ?bs = "remdups (sql_bases files @ reg)"
  have "first_dup versions = None" using assms(1) by (simp add: first_dup_None)
  moreover have "find (\<lambda>b. \<not> base_ok b) (sql_bases files) = None" "find (\<lambda>b. \<not> base_ok b) reg = None"
    "find (\<lambda>b. base_version b \<notin> set versions) ?bs = None"
    using assms(2) by (auto simp: find_None_iff)
  moreover have "map mg_version (map (unit_of files reg) ?bs) = map base_version ?bs" by (simp add: unit_of_def)
  then have "first_dup (map mg_version (map (unit_of files reg) ?bs)) = None"
    using assms(3) by (simp only: first_dup_None)
  ultimately show ?thesis by (simp only: available_from_def Let_def option.case)
qed

text \<open>
  What was generated for a version of the history, and has registered itself, is collected: there is one unit
  more, and every other one is what it was.
\<close>

lemma generated_available:
  assumes "generate today sql go mk stat wr version date0 files = (Inr names, files')"
    and "available_from files reg versions = Inr ms"
    and "version \<in> set versions" and "CHR ''_'' \<notin> set version" and "version \<notin> mg_version ` set ms"
  shows "\<exists>base ms'. names = [base @ sql_suffix, base @ go_suffix]
      \<and> available_from files' (base # reg) versions = Inr ms'
      \<and> mset ms' = add_mset \<lparr>mg_name = base, mg_version = version, mg_sql = sql base version, mg_go = True\<rparr> (mset ms)
      \<and> sorted (map (\<lambda>m. version_rank versions (mg_version m)) ms')"
proof -
  obtain date suffix where g: "version_ok version" "length date = 8" "list_all is_digit date"
    "map_of files ((version @ ''_'' @ date) @ sql_suffix) = None"
    "files' = files @ [((version @ ''_'' @ date) @ sql_suffix, Some (sql (version @ ''_'' @ date) version)),
                       ((version @ ''_'' @ date) @ go_suffix, Some (go (version @ ''_'' @ date) version suffix))]"
    "names = [(version @ ''_'' @ date) @ sql_suffix, (version @ ''_'' @ date) @ go_suffix]"
    using assms(1) by (rule generate_files)
  define b where "b = version @ ''_'' @ date"
  note g = g [folded b_def]
  have b: "base_ok b" "base_version b = version"
    using base_ok_version_date [OF g(1-3)] base_version_append [OF assms(4)] by (simp_all add: b_def)
  let ?old = "sql_bases files @ reg"
  have sq: "sql_bases files' = sql_bases files @ [b]" by (simp add: g(5) sql_bases_generated)
  note chk = available_from_checks(1,2) [OF assms(2)] and dist = available_from_checks(3) [OF assms(2)]
    and ms = available_from_checks(4) [OF assms(2)]
  have new: "b \<notin> set ?old" using assms(5) b(2) by (force simp: ms unit_of_def)
  define olds where "olds = remdups ?old"
  define all where "all = remdups (sql_bases files' @ b # reg)"
  have bases: "mset all = add_mset b (mset olds)"
    unfolding all_def olds_def sq using new by (intro mset_remdups_new) auto
  have new': "b \<notin> set olds" using new by (simp add: olds_def)
  have old_units: "map (unit_of files' (b # reg)) olds = map (unit_of files reg) olds"
    unfolding g(5) using new' by (intro map_cong refl unit_of_generated) auto
  have units: "mset (map (unit_of files' (b # reg)) all)
      = add_mset \<lparr>mg_name = b, mg_version = version, mg_sql = sql b version, mg_go = True\<rparr> (mset ms)"
  proof -
    have "mset (map (unit_of files' (b # reg)) all)
        = add_mset (unit_of files' (b # reg) b) (mset (map (unit_of files' (b # reg)) olds))"
      by (simp only: mset_map bases image_mset_add_mset)
    also have "\<dots> = add_mset (unit_of files' (b # reg) b) (mset ms)"
      using ms [folded olds_def] by (simp only: old_units mset_sort)
    finally show ?thesis using unit_of_new [OF g(4), of _ _ reg] b(2) by (simp add: g(5))
  qed
  have "mset (map base_version all) = add_mset version (mset (map base_version olds))"
    using b(2) by (simp add: bases)
  moreover have "version \<notin> base_version ` set olds"
    using assms(5) ms by (auto simp: olds_def unit_of_def image_iff)
  ultimately have all_dist: "distinct (map base_version all)"
    using dist [folded olds_def] mset_eq_imp_distinct_iff [of "map base_version all" "version # map base_version olds"]
    by simp
  have "available_from files' (b # reg) versions
      = Inr (sort_key (\<lambda>m. version_rank versions (mg_version m)) (map (unit_of files' (b # reg)) all))"
    unfolding all_def by (rule available_from_ok) (use chk b assms(3) sq all_dist [unfolded all_def] in auto)
  then show ?thesis using units g(6) by (intro exI) auto
qed

section \<open>From the generator to the database\<close>

lemma split_lines_ne: "split_lines s \<noteq> []"
  by (induction s) (auto split: list.splits)

lemma split_lines_append: "split_lines (s @ CHR 0x0A # t) = split_lines s @ split_lines t"
proof (induction s)
  case (Cons c s)
  then show ?case using split_lines_ne [of s] by (auto split: list.splits)
qed simp

lemma split_lines_single: "CHR 0x0A \<notin> set s \<Longrightarrow> split_lines s = [s]"
  by (induction s) auto

lemma version_chars:
  assumes "version_ok v"
  shows "\<forall>c\<in>set v. alias_char c \<or> c = CHR ''.''" and "v \<noteq> []" and "is_letter (hd v)"
proof -
  obtain c cs r1 r2 r3 where v: "v = c # cs" "is_letter c"
    "char_then CHR ''.'' (dropWhile alias_char cs) = Some r1" "digits_then r1 = Some r2"
    "char_then CHR ''.'' r2 = Some r3" "digits_then r3 = Some []"
    using assms by (auto simp: version_ok_def after_version_def bind_eq_Some_conv split: list.splits if_splits)
  have dig: "is_digit x \<Longrightarrow> alias_char x" for x by (simp add: alias_char_def)
  have 3: "\<forall>x\<in>set r3. alias_char x"
    using v(6) dig by (auto simp: digits_then_def split: if_splits dest: sym simp: dropWhile_eq_Nil_conv)
  have r2: "r2 = CHR ''.'' # r3" using v(5) by (auto simp: char_then_def split: list.splits if_splits)
  have "r1 = takeWhile is_digit r1 @ r2"
    using v(4) by (auto simp: digits_then_def split: if_splits)
  then have "set r1 = set (takeWhile is_digit r1) \<union> set r2" by (metis set_append)
  then have 1: "\<forall>x\<in>set r1. alias_char x \<or> x = CHR ''.''"
    using 3 r2 dig by (auto dest: set_takeWhileD)
  have "dropWhile alias_char cs = CHR ''.'' # r1" using v(3) by (auto simp: char_then_def split: list.splits if_splits)
  then have "set cs = set (takeWhile alias_char cs) \<union> set (CHR ''.'' # r1)"
    by (metis set_append takeWhile_dropWhile_id)
  then have cs: "\<forall>x\<in>set cs. alias_char x \<or> x = CHR ''.''" using 1 by (fastforce dest: set_takeWhileD)
  have "alias_char c" using v(2) by (simp add: alias_char_def)
  then show "\<forall>c\<in>set v. alias_char c \<or> c = CHR ''.''" using cs v(1) by simp
  show "v \<noteq> []" "is_letter (hd v)" using v(1,2) by simp_all
qed

lemma alias_char_plain: "alias_char c \<or> c = CHR ''.'' \<Longrightarrow> \<not> is_space c \<and> c \<noteq> CHR 0x0A \<and> c \<noteq> CHR ''#''"
  by (auto simp: alias_char_def is_letter_def is_digit_def is_space_def)

lemma dropWhile_none: "\<forall>c\<in>set s. \<not> P c \<Longrightarrow> dropWhile P s = s"
  by (cases s) auto

lemma trim_chars_id: "\<forall>c\<in>set s. \<not> P c \<Longrightarrow> trim_chars P s = s"
  by (simp add: trim_chars_def dropWhile_none)

text \<open>A version appended to the file of versions, on a line of its own, is the new current one.\<close>

lemma version_appended:
  assumes "version_ok v"
  shows "build_versions (file @ CHR 0x0A # v) = build_versions file @ [v]"
    and "build_version (file @ CHR 0x0A # v) = v"
proof -
  have pl: "\<forall>c\<in>set v. \<not> is_space c \<and> c \<noteq> CHR 0x0A \<and> c \<noteq> CHR ''#''"
    using version_chars(1) [OF assms] alias_char_plain by blast
  have "trim_space v = v" using pl by (simp add: trim_space_def trim_chars_id)
  moreover have "take 1 v \<noteq> ''#''"
  proof (cases v)
    case (Cons c cs)
    then have "c \<noteq> CHR ''#''" using pl by simp
    then show ?thesis using Cons by simp
  qed simp
  moreover have "split_lines v = [v]" using pl by (intro split_lines_single) blast
  ultimately show "build_versions (file @ CHR 0x0A # v) = build_versions file @ [v]"
    using version_chars(2) [OF assms] by (simp add: build_versions_def split_lines_append)
  then show "build_version (file @ CHR 0x0A # v) = v" by (simp add: build_version_def)
qed

lemma index_of_append:
  "index_of (xs @ ys) x = (case index_of xs x of Some i \<Rightarrow> Some i | None \<Rightarrow> map_option (\<lambda>i. length xs + i) (index_of ys x))"
  by (cases "index_of ys x"; induction xs) (auto split: option.splits)

lemma index_of_None: "index_of xs x = None \<longleftrightarrow> x \<notin> set xs"
  by (induction xs) auto

lemma index_of_bound: "index_of xs x = Some i \<Longrightarrow> i < length xs"
  by (induction xs arbitrary: i) (auto split: if_splits)

lemma index_of_last: "distinct xs \<Longrightarrow> xs \<noteq> [] \<Longrightarrow> index_of xs (List.last xs) = Some (length xs - 1)"
  by (induction xs) auto

lemma version_rank_append: "x \<in> set vs \<Longrightarrow> version_rank (vs @ ws) x = version_rank vs x"
  using index_of_None [of vs x] by (auto simp: version_rank_def index_of_append split: option.splits)

lemma version_rank_bound: "x \<in> set vs \<Longrightarrow> version_rank vs x < length vs"
  using index_of_None [of vs x] by (auto simp: version_rank_def index_of_bound split: option.splits)

lemma version_rank_new: "v \<notin> set vs \<Longrightarrow> version_rank (vs @ [v]) v = length vs"
  using index_of_None [of vs v] by (simp add: version_rank_def index_of_append)

lemma insort_key_same: "f x = g x \<Longrightarrow> \<forall>y\<in>set ys. f y = g y \<Longrightarrow> insort_key f x ys = insort_key g x ys"
  by (induction ys) auto

lemma sort_key_same: "\<forall>x\<in>set xs. f x = g x \<Longrightarrow> sort_key f xs = sort_key g xs"
proof (induction xs)
  case (Cons x xs)
  then have "sort_key f (x # xs) = insort_key f x (sort_key g xs)" by simp
  also have "\<dots> = insort_key g x (sort_key g xs)" using Cons.prems by (intro insort_key_same) simp_all
  finally show ?case by simp
qed simp

lemma available_extend:
  assumes "available_from files reg versions = Inr ms" and "v \<notin> set versions"
  shows "available_from files reg (versions @ [v]) = Inr ms"
proof -
  let ?us = "map (unit_of files reg) (remdups (sql_bases files @ reg))"
  note chk = available_from_checks [OF assms(1)]
  have "\<forall>m\<in>set ?us. version_rank (versions @ [v]) (mg_version m) = version_rank versions (mg_version m)"
    using chk(2) by (auto simp: unit_of_def version_rank_append)
  from sort_key_same [OF this] show ?thesis
    unfolding chk(4) using chk(1,2) assms(2)
    by (simp add: available_from_ok [OF _ _ chk(3)] distinct_append)
qed

text \<open>A run to the end leaves no unit without its version; one new unit behind them is then the only one to apply.\<close>

lemma apply_all_complete:
  "apply_all e False rank t A ms db = (Inr all, db1) \<Longrightarrow> \<forall>m\<in>set ms. rank (mg_version m) \<le> t \<Longrightarrow>
   mg_version ` set ms \<subseteq> A \<union> set all"
proof (induction ms arbitrary: db all)
  case (Cons m ms)
  show ?case
  proof (cases "mg_version m \<in> A")
    case True
    then show ?thesis using Cons.IH [of db all] Cons.prems by simp
  next
    case False
    then obtain dbm all' where "apply_all e False rank t A ms dbm = (Inr all', db1)" "all = mg_version m # all'"
      using Cons.prems by (auto split: prod.splits option.splits sum.splits)
    then show ?thesis using Cons.IH [of dbm all'] Cons.prems(2) by auto
  qed
qed simp

lemma apply_all_single:
  assumes "\<forall>x\<in>set ms. rank (mg_version x) \<le> t \<and> (x \<noteq> m \<longrightarrow> mg_version x \<in> A)" and "mg_version m \<notin> A"
    and "m \<in> set ms" and "distinct ms"
  shows "apply_all e False rank t A ms db
     = (case apply_one e False m db of (Some err, d) \<Rightarrow> (Inl err, d) | (None, d) \<Rightarrow> (Inr [mg_version m], d))"
proof -
  have skip: "\<forall>x\<in>set xs. mg_version x \<in> A \<Longrightarrow> apply_all e False rank t A xs d = (Inr [], d)" for xs d
    by (induction xs) auto
  show ?thesis using assms
  proof (induction ms)
    case (Cons x ms)
    show ?case
    proof (cases "x = m")
      case True
      then have "\<forall>y\<in>set ms. mg_version y \<in> A" using Cons.prems by auto
      then show ?thesis using True Cons.prems skip by (auto split: option.splits prod.splits)
    next
      case False
      then show ?thesis using Cons by auto
    qed
  qed simp
qed

lemma run_to_last:
  assumes "run_migrations e fresh files reg versions '''' False path db = (Inr all, db1)"
  obtains ms where "versions \<noteq> []" and "available_from files reg versions = Inr ms"
    and "apply_all e False (version_rank versions) (length versions - 1) (set (db_versions db)) ms db = (Inr all, db1)"
    and "identifier_ok (if path = '''' then ''public'' else path)"
proof -
  have "distinct versions" if "available_from files reg versions = Inr ms" for ms
    using available_from_checks(1) [OF that] .
  then show thesis
    using assms that index_of_last [of versions]
    by (auto simp: run_migrations_def Let_def split: if_splits option.splits sum.splits)
qed

lemma run_with_last:
  assumes "available_from files reg versions = Inr ms" and "versions \<noteq> []"
    and "identifier_ok (if path = '''' then ''public'' else path)" and "me_connect e" and "me_table e" and "me_read e"
  shows "run_migrations e fresh files reg versions '''' False path db
    = apply_all e False (version_rank versions) (length versions - 1) (set (db_versions db)) ms db"
  using assms index_of_last [OF available_from_checks(1) [OF assms(1)] assms(2)]
  by (simp add: run_migrations_def Let_def)


definition sample_history :: string where
  "sample_history = ''# versions'' @ CHR 0x0A # ''a.0.1'' @ CHR 0x0A # '' a.0.2''"

definition sample_done :: "string list database" where
  "sample_done = \<lparr>db_schema = [''one'', ''two'', ''a.0.2_20260202''], db_versions = [''a.0.1'', ''a.0.2'']\<rparr>"


section \<open>Creating twice\<close>

text \<open>Two files are created one after the other: what fails between them cannot simply be repeated.\<close>

lemma go_func_suffix_error: "go_func_suffix v = Inl e \<Longrightarrow> e \<noteq> WriteFailed n"
  by (auto simp: go_func_suffix_def Let_def split: if_splits option.splits)

lemma interrupted_generate_refused:
  assumes "generate today sql go mk stat wr version date files = (Inl (WriteFailed (base @ go_suffix)), files')"
    and "base = version @ ''_'' @ (if date = '''' then today else date)"
  shows "generate today sql go True (\<lambda>_. True) wr' version date files' = (Inl (FileExists (base @ sql_suffix)), files')"
  using assms
  by (auto simp: generate_def write_if_absent_def Let_def sql_suffix_def go_suffix_def map_add_def
      dest: go_func_suffix_error split: if_splits sum.splits)

text \<open>The dot between alias and major is dropped: two versions can get one Go function.\<close>

lemma go_suffix_collision:
  "go_func_suffix ''a1.2.3'' = Inr ''A12_3'' \<and> go_func_suffix ''a.12.3'' = Inr ''A12_3''"
  by code_simp

text \<open>Nothing that fails touches a file that was there.\<close>

lemma generate_keeps_files:
  "\<exists>added. snd (generate today sql go mk stat wr version date files) = files @ added
     \<and> (\<forall>n\<in>set (map fst added). map_of files n = None)"
  by (auto simp: generate_def write_if_absent_def Let_def split: sum.splits)

end
