(* ===== verification/Commands.thy ===== *)
theory Commands
  imports Scaffold ClusterClient Process
begin

text \<open>
  The commands of the process (\<open>cmd/main.go\<close>, \<open>cmd/migrate\<close>, \<open>cmd/info\<close>, \<open>cmd/cluster\<close>, \<open>cmd/stateflux/server.go\<close>),
  the settings they read (\<open>internal/config/config.go\<close>), the host's signature, and the health endpoints
  (\<open>internal/server/health.go\<close>). What viper and mapstructure make of the layers of settings is an argument,
  the loaded configuration; so are the URL parser and the runners of the commands, which the code injects.
\<close>

section \<open>Settings\<close>

text \<open>\<open>toMap\<close>: the fields by their \<open>mapstructure\<close> tags; \<open>flatten\<close>: dotted keys, each a default of viper.\<close>

datatype setting =
    Section "(string \<times> setting) list" | TextSetting string | ListSetting "string list" | NumberSetting int | FlagSetting bool

definition to_settings :: "config \<Rightarrow> (string \<times> setting) list" where
  "to_settings c =
     (let p = cf_pg c; r = cf_redis c; u = cf_cluster c; m = cu_mock_server u; s = cf_server c; t = cf_runtime c;
          d = cf_dispatch c; h = cf_coherence c; o' = cf_obs c in
      [(''pg'', Section [(''dsn'', TextSetting (pg_dsn p)), (''max_open_conns'', NumberSetting (pg_max_open_conns p)),
          (''max_idle_conns'', NumberSetting (pg_max_idle_conns p)), (''conn_max_lifetime'', NumberSetting (pg_conn_max_lifetime p)),
          (''conn_max_idle_time'', NumberSetting (pg_conn_max_idle_time p)), (''search_path'', TextSetting (pg_search_path p))]),
       (''redis'', Section [(''addrs'', ListSetting (rd_addrs r)), (''password'', TextSetting (rd_password r)),
          (''db'', NumberSetting (rd_db r)), (''dial_timeout'', NumberSetting (rd_dial_timeout r)),
          (''read_timeout'', NumberSetting (rd_read_timeout r)), (''write_timeout'', NumberSetting (rd_write_timeout r)),
          (''pool_size'', NumberSetting (rd_pool_size r)), (''min_idle_conns'', NumberSetting (rd_min_idle_conns r))]),
       (''cluster'', Section [(''dsn'', TextSetting (cu_dsn u)),
          (''mock_server'', Section [(''grpc_addr'', TextSetting (mo_grpc_addr m)), (''http_addr'', TextSetting (mo_http_addr m)),
             (''self'', TextSetting (mo_self m)), (''nodes'', ListSetting (mo_nodes m)),
             (''shutdown_timeout'', NumberSetting (mo_shutdown_timeout m))])]),
       (''server'', Section [(''grpc_addr'', TextSetting (sc_grpc_addr s)), (''http_addr'', TextSetting (sc_http_addr s)),
          (''shutdown_timeout'', NumberSetting (sc_shutdown_timeout s))]),
       (''runtime'', Section [(''scheduler_triggers'', ListSetting (rc_scheduler_triggers t)),
          (''enable_collector'', FlagSetting (rc_enable_collector t)), (''enable_reconcile'', FlagSetting (rc_enable_reconcile t)),
          (''claim_batch'', NumberSetting (rc_claim_batch t)), (''tick_interval'', NumberSetting (rc_tick_interval t)),
          (''promote_interval'', NumberSetting (rc_promote_interval t)), (''reconcile_interval'', NumberSetting (rc_reconcile_interval t)),
          (''dispatch_grace'', NumberSetting (rc_dispatch_grace t)), (''worker_queues'', ListSetting (rc_worker_queues t)),
          (''factory_interval'', NumberSetting (rc_factory_interval t)), (''wal_dir'', TextSetting (rc_wal_dir t)),
          (''wal_max_entries'', NumberSetting (rc_wal_max_entries t)), (''wal_max_bytes'', NumberSetting (rc_wal_max_bytes t))]),
       (''dispatch'', Section [(''default_semantics'', TextSetting (dg_default_semantics d)),
          (''default_delivery'', TextSetting (dg_default_delivery d)), (''forward'', FlagSetting (dg_forward d)),
          (''max_hops'', NumberSetting (dg_max_hops d)), (''timeout'', NumberSetting (dg_timeout d)),
          (''dedupe_window'', NumberSetting (dg_dedupe_window d)), (''result_channel'', TextSetting (dg_result_channel d))]),
       (''coherence'', Section [(''queue_prefix'', TextSetting (ch_queue_prefix h)),
          (''sync_interval'', NumberSetting (ch_sync_interval h)), (''revision_ttl'', NumberSetting (ch_revision_ttl h))]),
       (''obs'', Section [(''enabled'', FlagSetting (ob_enabled o')), (''service_name'', TextSetting (ob_service_name o')),
          (''otlp_endpoint'', TextSetting (ob_otlp_endpoint o')), (''insecure'', FlagSetting (ob_insecure o'))])])"

definition setting_key :: "string \<Rightarrow> string \<Rightarrow> string" where
  "setting_key p k = (if p = '''' then fold_name k else p @ ''.'' @ fold_name k)"

function flatten_settings :: "string \<Rightarrow> (string \<times> setting) list \<Rightarrow> (string \<times> setting) list" where
  "flatten_settings p [] = []"
| "flatten_settings p ((k, v) # r) =
     (case v of Section m \<Rightarrow> flatten_settings (setting_key p k) m | _ \<Rightarrow> [(setting_key p k, v)]) @ flatten_settings p r"
  by pat_completeness auto
termination
  by (relation "measure (\<lambda>(p, l). size_list (size_prod (\<lambda>_. 0) size) l)") auto

definition default_settings :: "(string \<times> setting) list" where
  "default_settings = flatten_settings '''' (to_settings default_config)"

text \<open>The prefix and the replacement of dots that \<open>NewViper\<close> sets for the names of environment variables.\<close>

definition env_name :: "string \<Rightarrow> string" where
  "env_name key = ''STATEFLUX_'' @ map (\<lambda>c. if c = CHR ''.'' then CHR ''_'' else upper_char c) key"

text \<open>\<open>BindFlags\<close>, \<open>BindMockServerFlags\<close>, \<open>BindInfoFlags\<close> and the binding of \<open>migrate\<close>: key and flag.\<close>

definition serve_flags :: "(string \<times> string) list" where
  "serve_flags = [(''pg.dsn'', ''pg-dsn''), (''redis.addrs'', ''redis-addrs''), (''cluster.dsn'', ''cluster-dsn''),
     (''server.grpc_addr'', ''grpc-addr''), (''server.http_addr'', ''http-addr'')]"

definition mock_server_flags :: "(string \<times> string) list" where
  "mock_server_flags = [(''cluster.mock_server.grpc_addr'', ''grpc-addr''), (''cluster.mock_server.http_addr'', ''http-addr''),
     (''cluster.mock_server.self'', ''self''), (''cluster.mock_server.nodes'', ''node'')]"

definition info_flags :: "(string \<times> string) list" where
  "info_flags = [(''cluster.dsn'', ''cluster-dsn'')]"

text \<open>Every key a flag is bound to is a setting with a default: none is bound in vain.\<close>

lemma default_settings_length: "length default_settings = 50"
  by code_simp

lemma bound_flags_known: "set (map fst (serve_flags @ mock_server_flags @ info_flags)) \<subseteq> set (map fst default_settings)"
  by code_simp

text \<open>A list that comes as one text (the decode hook of \<open>FromViper\<close>): the pieces between the commas.\<close>

definition string_to_slice :: "string \<Rightarrow> string list" where
  "string_to_slice s = (if s = '''' then [] else split_on CHR '','' s)"

section \<open>The host's signature\<close>

record net_iface =
  ni_loopback :: bool
  ni_up :: bool
  ni_mac :: string

definition first_hardware_mac :: "net_iface list option \<Rightarrow> string" where
  "first_hardware_mac ifs =
     (case find (\<lambda>n. \<not> ni_loopback n \<and> ni_up n \<and> ni_mac n \<noteq> '''') (case ifs of None \<Rightarrow> [] | Some l \<Rightarrow> l) of
        None \<Rightarrow> '''' | Some n \<Rightarrow> ni_mac n)"

definition machine_id_paths :: "string list" where
  "machine_id_paths = [''/etc/machine-id'', ''/var/lib/dbus/machine-id'']"

text \<open>\<open>read\<close>: the content of a file, if it can be read.\<close>

definition machine_signature :: "(string \<Rightarrow> string option) \<Rightarrow> net_iface list option \<Rightarrow> string" where
  "machine_signature read ifs =
     (case filter (\<lambda>s. s \<noteq> '''') (map trim_space (List.map_filter read machine_id_paths)) of
        s # _ \<Rightarrow> ''machineid:'' @ s
      | [] \<Rightarrow> (let mac = first_hardware_mac ifs in if mac = '''' then '''' else ''mac:'' @ mac))"

definition compute_host_node_id :: "string option \<Rightarrow> (string \<Rightarrow> string option) \<Rightarrow> net_iface list option \<Rightarrow> string" where
  "compute_host_node_id host read ifs = host_node_id host (machine_signature read ifs)"

text \<open>With a machine identifier the network does not matter: the node keeps its name when an interface goes down.\<close>

lemma host_id_independent_of_network:
  assumes "read p = Some raw" and "p \<in> set machine_id_paths" and "trim_space raw \<noteq> ''''"
  shows "compute_host_node_id host read ifs = compute_host_node_id host read ifs'"
proof -
  have "trim_space raw \<in> set (filter (\<lambda>s. s \<noteq> '''') (map trim_space (List.map_filter read machine_id_paths)))"
    using assms by (auto simp: List.map_filter_def intro!: image_eqI [of _ _ p])
  then obtain s ss where "filter (\<lambda>s. s \<noteq> '''') (map trim_space (List.map_filter read machine_id_paths)) = s # ss"
    by (cases "filter (\<lambda>s. s \<noteq> '''') (map trim_space (List.map_filter read machine_id_paths))") auto
  then show ?thesis by (simp add: compute_host_node_id_def machine_signature_def)
qed

section \<open>The stand-alone cluster service from the environment\<close>

text \<open>
  \<open>cluster\<close>: the loaded configuration (\<open>Inl\<close>: why it could not be loaded) becomes the service's; \<open>run\<close> is the
  injected runner.
\<close>

datatype command_error = SettingsError string | MockSpecError mock_error | RunnerError string

definition cluster_command ::
  "string \<Rightarrow> (mock_config \<Rightarrow> string option) \<Rightarrow> string + config \<Rightarrow> command_error option \<times> mock_config option" where
  "cluster_command host_id run load =
     (case load of
        Inl e \<Rightarrow> (Some (SettingsError e), None)
      | Inr c \<Rightarrow>
          (let m = cu_mock_server (cf_cluster c) in
           case mock_from_config host_id (mo_grpc_addr m) (mo_http_addr m) (mo_self m) (mo_nodes m) (mo_shutdown_timeout m) of
             Inl e \<Rightarrow> (Some (MockSpecError e), None)
           | Inr k \<Rightarrow> (map_option RunnerError (run k), Some k)))"

lemma split_on_pieces: "p \<in> set (split_on x s) \<Longrightarrow> x \<notin> set p"
proof (induction s arbitrary: p)
  case (Cons c s)
  then show ?case by (cases "split_on x s") (auto split: if_splits)
qed simp

lemma bare_node:
  assumes "parse_node_spec p = Inr n" and "CHR '','' \<notin> set p"
  shows "\<exists>i. i \<noteq> '''' \<and> n = \<lparr>ns_id = i, ns_address = '''', ns_vpc = '''', ns_labels = [], ns_roles = [], ns_online = True, ns_leader = False\<rparr>"
  using assms
  by (auto simp: parse_node_spec_def split_on_single set_field_def rbind_def Let_def split: if_splits option.splits sum.splits)

lemma parse_specs_all:
  "parse_specs ss = Inr ns \<Longrightarrow> n \<in> set ns \<Longrightarrow> \<exists>p\<in>set ss. parse_node_spec p = Inr n"
  by (induction ss arbitrary: ns) (auto simp: rbind_def split: sum.splits)

lemma switch_all_roles: "map ns_roles (ms_nodes (switch_all is s)) = map ns_roles (ms_nodes s)"
proof (induction "is" arbitrary: s)
  case (Cons i "is")
  then show ?case using Cons.IH [of "snd (set_leader i s)"] by (simp add: switch_all_def)
qed (simp add: switch_all_def)

text \<open>Without the role \<open>primary\<close> a node may lead, but the parts of the control plane stay closed to it.\<close>

lemma no_primary_no_control:
  assumes "\<forall>n\<in>set (ms_nodes s). role_primary \<notin> set (ns_roles n)" and "perm = PermSchedule \<or> perm = PermCollect"
  shows "\<not> is_scheduler self (Some perm) (Some (info_from_proto (Some (mock_snapshot s))))"
proof
  let ?i = "info_from_proto (Some (mock_snapshot s))" and ?ws = "map (Some \<circ> wire_of_spec) (ms_nodes s)"
  assume sch: "is_scheduler self (Some perm) (Some ?i)"
  have i: "?i = info_add_nodes ?ws (empty_info\<lparr>in_node_id := ms_self s\<rparr>)"
    by (simp add: info_from_proto_def mock_snapshot_def)
  have nodes: "in_nodes ?i = map node_from_proto ?ws" unfolding i by (simp add: info_add_nodes_nodes empty_info_def)
  have self: "in_scheduler ?i = self" "self \<noteq> ''''" using sch by (auto simp: is_scheduler_def split: if_splits)
  have "\<exists>w\<in>set ?ws. nd_id (node_from_proto w) = self"
    using self unfolding i info_add_nodes_scheduler by (auto simp: empty_info_def find_Some_iff split: option.splits if_splits)
  then obtain n where n: "info_node ?i self = Some n"
    unfolding info_node_def nodes by (cases "find (\<lambda>n. nd_id n = self) (map node_from_proto ?ws)") (auto simp: find_None_iff)
  then have "n \<in> set (map node_from_proto ?ws)"
    unfolding info_node_def nodes by (auto simp: find_Some_iff)
  then have "nd_permissions n = [PermOperation, PermExecute]"
    using assms(1) by (auto simp: node_from_proto_def wire_of_spec_def permissions_of_def)
  then show False using sch self n assms(2) by (auto simp: is_scheduler_def has_permission_def)
qed

text \<open>
  The nodes of the stand-alone cluster service cannot be described by an environment variable. The list
  in \<open>STATEFLUX_CLUSTER_MOCK_SERVER_NODES\<close> is split at the commas, which also separate the fields of a node;
  so whatever the service accepts from it are nodes with an identifier and nothing else: no address, no
  role, none of them leader. Whatever leader is appointed later through the administration, no node of such a
  cluster may schedule or collect: its control plane never runs.
\<close>

theorem env_nodes_powerless:
  assumes "mo_nodes (cu_mock_server (cf_cluster c)) = string_to_slice v" and "v \<noteq> ''''"
    and "cluster_command host_id run (Inr c) = (e, Some k)" and "perm = PermSchedule \<or> perm = PermCollect"
  shows "(\<forall>n\<in>set (mk_nodes k). ns_address n = '''' \<and> ns_vpc n = '''' \<and> ns_labels n = [] \<and> ns_roles n = [] \<and> \<not> ns_leader n)
    \<and> \<not> is_scheduler self (Some perm) (Some (info_from_proto (Some (mock_snapshot (switch_all targets (new_mock k))))))"
proof -
  define m where "m = cu_mock_server (cf_cluster c)"
  have "mock_from_config host_id (mo_grpc_addr m) (mo_http_addr m) (mo_self m) (string_to_slice v) (mo_shutdown_timeout m) = Inr k"
    using assms(1,3) by (auto simp: cluster_command_def Let_def m_def split: sum.splits)
  then obtain ns where ns: "parse_specs (split_on CHR '','' v) = Inr ns" and k: "mk_nodes k = (if ns = [] then default_mock_nodes host_id else ns)"
    using assms(2)
    by (auto simp: mock_from_config_def string_to_slice_def rbind_def normalize_mock_def Let_def split: sum.splits option.splits if_splits)
  have "ns \<noteq> []"
    using ns by (cases "split_on CHR '','' v") (auto simp: rbind_def split: sum.splits)
  moreover have "ns_address n = '''' \<and> ns_vpc n = '''' \<and> ns_labels n = [] \<and> ns_roles n = [] \<and> \<not> ns_leader n" if n: "n \<in> set ns" for n
  proof -
    obtain p where "p \<in> set (split_on CHR '','' v)" "parse_node_spec p = Inr n" using parse_specs_all [OF ns n] by blast
    then show ?thesis using bare_node [of p n] split_on_pieces [of p "CHR '',''" v] by auto
  qed
  ultimately have nodes: "\<forall>n\<in>set (mk_nodes k). ns_address n = '''' \<and> ns_vpc n = '''' \<and> ns_labels n = [] \<and> ns_roles n = [] \<and> \<not> ns_leader n"
    using k by simp
  have "set (map ns_roles (ms_nodes (switch_all targets (new_mock k)))) = ns_roles ` set (mk_nodes k)"
    by (simp only: switch_all_roles) (simp add: new_mock_def)
  then have "ns_roles n \<in> ns_roles ` set (mk_nodes k)" if "n \<in> set (ms_nodes (switch_all targets (new_mock k)))" for n
    using that by (metis image_eqI list.set_map)
  then have "\<forall>n\<in>set (ms_nodes (switch_all targets (new_mock k))). role_primary \<notin> set (ns_roles n)"
    using nodes by (metis (no_types, lifting) empty_iff empty_set imageE)
  then show ?thesis using nodes no_primary_no_control [OF _ assms(4)] by blast
qed

theorem env_nodes_powerless_witness:
  "let c = default_config\<lparr>cf_cluster := \<lparr>cu_dsn = '''', cu_mock_server = \<lparr>mo_grpc_addr = '''', mo_http_addr = '''', mo_self = '''',
         mo_nodes = string_to_slice ''id=a,id=b'', mo_shutdown_timeout = 0\<rparr>\<rparr>\<rparr>
   in \<exists>k. cluster_command ''h'' (\<lambda>_. None) (Inr c) = (None, Some k) \<and> map ns_id (mk_nodes k) = [''a'', ''b'']
     \<and> \<not> is_scheduler ''b'' (Some PermSchedule) (Some (info_from_proto (Some (mock_snapshot (switch_all [''b''] (new_mock k))))))"
proof -
  let ?c = "default_config\<lparr>cf_cluster := \<lparr>cu_dsn = '''', cu_mock_server = \<lparr>mo_grpc_addr = '''', mo_http_addr = '''', mo_self = '''',
         mo_nodes = string_to_slice ''id=a,id=b'', mo_shutdown_timeout = 0\<rparr>\<rparr>\<rparr>"
  let ?node = "\<lambda>i. \<lparr>ns_id = i, ns_address = '''', ns_vpc = '''', ns_labels = [], ns_roles = [], ns_online = True, ns_leader = False\<rparr>"
  let ?k = "\<lparr>mk_grpc = ''127.0.0.1:9190'', mk_http = ''127.0.0.1:9191'', mk_self = ''a'', mk_nodes = [?node ''a'', ?node ''b''],
      mk_shutdown = 10 * 10 ^ 9\<rparr>"
  have s: "string_to_slice ''id=a,id=b'' = [''id=a'', ''id=b'']" by code_simp
  have m: "mock_from_config ''h'' '''' '''' '''' [''id=a'', ''id=b''] 0 = Inr ?k" by code_simp
  have k: "cluster_command ''h'' (\<lambda>_. None) (Inr ?c) = (None, Some ?k)"
    by (simp add: cluster_command_def s m)
  have "\<not> is_scheduler ''b'' (Some PermSchedule) (Some (info_from_proto (Some (mock_snapshot (switch_all [''b''] (new_mock ?k))))))"
    using env_nodes_powerless [of ?c "''id=a,id=b''" "''h''" "\<lambda>_. None" None ?k PermSchedule "''b''" "[''b'']"] k by simp
  then show ?thesis using k by (simp add: Let_def)
qed

section \<open>Showing the cluster\<close>

fun perm_name :: "permission \<Rightarrow> string" where
  "perm_name PermOperation = ''operation''"
| "perm_name PermExecute = ''execute''"
| "perm_name PermSchedule = ''schedule''"
| "perm_name PermCollect = ''collect''"

text \<open>The verbs of the format: \<open>%v\<close> of a list, \<open>%t\<close>, \<open>%-16s\<close> (for texts in ASCII).\<close>

fun spaced :: "string list \<Rightarrow> string" where
  "spaced [] = ''''"
| "spaced [x] = x"
| "spaced (x # xs) = x @ '' '' @ spaced xs"

definition go_list :: "string list \<Rightarrow> string" where
  "go_list xs = ''['' @ spaced xs @ '']''"

definition go_bool :: "bool \<Rightarrow> string" where
  "go_bool b = (if b then ''true'' else ''false'')"

definition pad_right :: "nat \<Rightarrow> string \<Rightarrow> string" where
  "pad_right n s = s @ replicate (n - length s) CHR '' ''"

definition describe_node :: "cluster_node \<Rightarrow> string" where
  "describe_node n = ''  '' @ pad_right 16 (nd_id n) @ '' address='' @ nd_address n @ '' vpc='' @ nd_vpc n @
     '' labels='' @ go_list (nd_labels n) @ '' roles='' @ go_list (nd_roles n) @ '' perms='' @ go_list (map perm_name (nd_permissions n)) @
     '' online='' @ go_bool (nd_online n) @ '' leader='' @ go_bool (nd_leader n) @ [CHR 0x0A]"

definition describe :: "cluster_info \<Rightarrow> string" where
  "describe i =
     ''node_id:   '' @ (if in_node_id i = '''' then ''(unset)'' else in_node_id i) @ [CHR 0x0A] @
     ''scheduler: '' @ (if in_scheduler i = '''' then ''(none)'' else in_scheduler i) @ [CHR 0x0A] @
     ''nodes:     '' @ show_int (int (length (in_nodes i))) @ [CHR 0x0A] @ concat (map describe_node (in_nodes i))"

definition query :: "dsn_parsers \<Rightarrow> (string \<Rightarrow> string option) \<Rightarrow> cluster_net \<Rightarrow> string \<Rightarrow> cluster_error + cluster_info" where
  "query P dial_err N dsn =
     rbind (new_view P dial_err \<lparr>cu_dsn = dsn, cu_mock_server = \<lparr>mo_grpc_addr = '''', mo_http_addr = '''', mo_self = '''',
        mo_nodes = [], mo_shutdown_timeout = 0\<rparr>\<rparr>) (view_get N)"

datatype info_error = InfoSettings string | InfoQuery string cluster_error

definition info_command ::
  "string \<Rightarrow> (string \<Rightarrow> cluster_error + cluster_info) \<Rightarrow> string + config \<Rightarrow> info_error option \<times> string list" where
  "info_command build querier load =
     (case load of
        Inl e \<Rightarrow> (Some (InfoSettings e), [])
      | Inr c \<Rightarrow>
          (let dsn = cu_dsn (cf_cluster c) in
           case querier dsn of
             Inl e \<Rightarrow> (Some (InfoQuery dsn e), [])
           | Inr i \<Rightarrow> (None, [''build:     '' @ build, describe i])))"

text \<open>
  What \<open>info\<close> shows is what a server with the same settings sees: the snapshot its cache starts with, or
  the error the cache keeps. The rest of the cluster section has no part in it.
\<close>

theorem info_agrees_with_serve:
  assumes "new_view P dial_err (cf_cluster c) = Inr v"
  shows "info_command build (query P dial_err N) (Inr c) =
    (let cache = new_cache (view_get N v) in
     case vc_err cache of
       None \<Rightarrow> (None, [''build:     '' @ build, describe (vc_info cache)])
     | Some e \<Rightarrow> (Some (InfoQuery (cu_dsn (cf_cluster c)) e), []))"
  using assms
  by (simp add: info_command_def query_def rbind_def new_view_def new_cache_def cache_refresh_def Let_def split: sum.splits)

definition sample_parsers :: dsn_parsers where
  "sample_parsers = \<lparr>dp_trim = id, dp_url = (\<lambda>s. Some \<lparr>pu_scheme = ''local'', pu_host = ''localhost'', pu_query = []\<rparr>),
     dp_duration = (\<lambda>_. None), dp_seconds = (\<lambda>_. None)\<rparr>"

theorem info_agrees_with_serve_witness:
  "let (err, out) = info_command ''b'' (query sample_parsers (\<lambda>_. None) broken_net) (Inr default_config)
   in err = None \<and> length out = 2 \<and> hd out = ''build:     b''"
proof -
  let ?o = "\<lparr>co_scheme = SchemeLocal, co_host = ''localhost'', co_timeout = seconds 10, co_connect_timeout = seconds 30,
     co_interval = seconds 3, co_params = []\<rparr>"
  have v: "new_view sample_parsers (\<lambda>_. None) (cf_cluster default_config) = Inr (new_static_view ?o)"
    by (simp add: new_view_def parse_cluster_dsn_def sample_parsers_def default_config_def scheme_of_def duration_param_def
        dsn_params_def rbind_def fold_name_def lower_char_def)
  show ?thesis
    using info_agrees_with_serve [OF v, of "''b''" broken_net]
    by (simp add: new_static_view_def view_get_def new_cache_def cache_refresh_def)
qed

section \<open>Migrating from the command line\<close>

text \<open>
  \<open>url_user\<close>: the user information of an address, if it parses and has one; \<open>with_user\<close> writes the address
  with other user information.
\<close>

definition mask_dsn ::
  "(string \<Rightarrow> (string \<times> string option) option) \<Rightarrow> (string \<Rightarrow> string \<Rightarrow> string \<Rightarrow> string) \<Rightarrow> string \<Rightarrow> string" where
  "mask_dsn url_user with_user dsn =
     (case url_user dsn of Some (name, Some _) \<Rightarrow> with_user dsn name ''****'' | _ \<Rightarrow> dsn)"

definition or_default :: "string \<Rightarrow> string \<Rightarrow> string" where
  "or_default v d = (if v \<noteq> '''' then v else d)"

record migrate_flags =
  mf_target :: string
  mf_rebuild :: bool
  mf_generate :: string
  mf_date :: string

datatype migrate_line =
    LineGenerated string | LineNext string | LineStart string string bool string | LineUpToDate | LineApplied string

datatype migrate_error = MigrateGenerate string generate_error | MigrateSettings string | MigrateRun migration_error

text \<open>\<open>gen\<close> and \<open>run\<close> are the injected generator and runner, on the files and on the database.\<close>

definition migrate_command ::
  "(string \<Rightarrow> string \<Rightarrow> dir_files \<Rightarrow> (generate_error + string list) \<times> dir_files)
     \<Rightarrow> (string \<Rightarrow> string \<Rightarrow> string \<Rightarrow> bool \<Rightarrow> 'd database \<Rightarrow> (migration_error + string list) \<times> 'd database)
     \<Rightarrow> (string \<Rightarrow> string) \<Rightarrow> string \<Rightarrow> string + config \<Rightarrow> migrate_flags \<Rightarrow> dir_files \<Rightarrow> 'd database
     \<Rightarrow> migrate_error option \<times> migrate_line list \<times> dir_files \<times> 'd database" where
  "migrate_command gen run masked current load fl files db =
     (if mf_generate fl \<noteq> '''' then
        (case gen (mf_generate fl) (mf_date fl) files of
           (Inl e, files1) \<Rightarrow> (Some (MigrateGenerate (mf_generate fl) e), [], files1, db)
         | (Inr created, files1) \<Rightarrow> (None, map LineGenerated created @ [LineNext (mf_generate fl)], files1, db))
      else case load of
          Inl e \<Rightarrow> (Some (MigrateSettings e), [], files, db)
        | Inr c \<Rightarrow>
            (let dsn = pg_dsn (cf_pg c);
                 start = LineStart (masked dsn) (or_default (mf_target fl) current) (mf_rebuild fl) current in
             case run dsn (pg_search_path (cf_pg c)) (mf_target fl) (mf_rebuild fl) db of
               (Inl e, db1) \<Rightarrow> (Some (MigrateRun e), [start], files, db1)
             | (Inr applied, db1) \<Rightarrow>
                 (None, start # (if applied = [] then [LineUpToDate] else map LineApplied applied), files, db1)))"

text \<open>
  The report of \<open>migrate\<close> is true: when it ends without an error and without rebuilding, the versions it
  lists are, in this order, exactly those it added to the version table, and it says that nothing
  was to do exactly when it added none. Files are never touched.
\<close>

theorem migrate_reports_applied:
  assumes "migrate_command gen (\<lambda>dsn path target rebuild. run_migrations e fresh files reg versions target rebuild path)
      masked current load fl disk db = (None, lines, disk', db')"
    and "mf_generate fl = ''''" and "\<not> mf_rebuild fl"
  shows "\<exists>vs. db_versions db' = db_versions db @ vs \<and> disk' = disk
    \<and> tl lines = (if vs = [] then [LineUpToDate] else map LineApplied vs)"
proof -
  obtain c where c: "load = Inr c"
    using assms(1,2) by (cases load) (auto simp: migrate_command_def)
  obtain applied where run: "run_migrations e fresh files reg versions (mf_target fl) False (pg_search_path (cf_pg c)) db = (Inr applied, db')"
    and out: "disk' = disk" "tl lines = (if applied = [] then [LineUpToDate] else map LineApplied applied)"
    using assms by (auto simp: c migrate_command_def Let_def split: sum.splits prod.splits)
  obtain i ms where "apply_all e False (version_rank versions) i (set (db_versions db)) ms db = (Inr applied, db')"
    using run_migrations_loop [OF run] by metis
  then have "db_versions db' = db_versions db @ applied" using apply_all_versions by blast
  then show ?thesis using out by blast
qed

theorem migrate_reports_applied_witness:
  "let (err, lines, disk, db) = migrate_command (\<lambda>_ _ f. (Inr [], f))
        (\<lambda>dsn path target rebuild. run_migrations (sample_migration_env True) [] sample_files [''a.0.2_20260202''] [''a.0.1'', ''a.0.2'']
           target rebuild path) (\<lambda>s. s) ''a.0.2'' (Inr default_config)
        \<lparr>mf_target = ''a.0.1'', mf_rebuild = False, mf_generate = '''', mf_date = ''''\<rparr> [] \<lparr>db_schema = [], db_versions = []\<rparr>
   in err = None \<and> tl lines = [LineApplied ''a.0.1''] \<and> db_versions db = [''a.0.1'']"
proof -
  let ?run = "\<lambda>dsn path target rebuild. run_migrations (sample_migration_env True) [] sample_files [''a.0.2_20260202''] [''a.0.1'', ''a.0.2''] target rebuild path"
  let ?fl = "\<lparr>mf_target = ''a.0.1'', mf_rebuild = False, mf_generate = '''', mf_date = ''''\<rparr>"
  let ?db = "\<lparr>db_schema = [''one''], db_versions = [''a.0.1'']\<rparr>"
  let ?start = "LineStart (pg_dsn (cf_pg default_config)) ''a.0.1'' False ''a.0.2''"
  have "run_migrations (sample_migration_env True) [] sample_files [''a.0.2_20260202''] [''a.0.1'', ''a.0.2''] ''a.0.1'' False ''public''
      \<lparr>db_schema = [], db_versions = []\<rparr> = (Inr [''a.0.1''], ?db)" by code_simp
  then have r: "migrate_command (\<lambda>_ _ f. (Inr [], f)) ?run (\<lambda>s. s) ''a.0.2'' (Inr default_config) ?fl []
      \<lparr>db_schema = [], db_versions = []\<rparr> = (None, [?start, LineApplied ''a.0.1''], [], ?db)"
    by (simp add: migrate_command_def or_default_def default_config_def)
  from migrate_reports_applied [OF r] have "\<exists>vs. [''a.0.1''] = vs" by auto
  then show ?thesis by (simp add: r Let_def)
qed

text \<open>
  Only addresses with user information are masked. A connection string of keywords and values, the
  other form that \<open>with_search_path\<close> accepts, is printed with its password.
\<close>

lemma keyword_password_printed:
  assumes "\<And>s. \<not> contains_str s ''//'' \<Longrightarrow> url_user s = None" and "\<not> contains_str dsn ''//''"
    and "mf_generate fl = ''''" and "pg_dsn (cf_pg c) = dsn"
  shows "\<exists>target rest. fst (snd (migrate_command gen run (mask_dsn url_user with_user) current (Inr c) fl files db))
     = LineStart dsn target (mf_rebuild fl) current # rest"
  using assms by (auto simp: migrate_command_def mask_dsn_def Let_def split: prod.splits sum.splits)

section \<open>Health\<close>

text \<open>\<open>NewHealthMux\<close>: status and body for a path; the state of readiness is what was set last, and false at first.\<close>

definition health_answer :: "bool \<Rightarrow> string \<Rightarrow> nat \<times> string" where
  "health_answer ready path =
     (if path = ''/healthz'' then (200, ''ok'')
      else if path = ''/readyz'' then (if ready then (200, ''ready'') else (503, ''not ready'' @ [CHR 0x0A]))
      else (404, ''404 page not found'' @ [CHR 0x0A]))"

fun set_ready :: "app_call \<Rightarrow> bool \<Rightarrow> bool" where
  "set_ready (Ready b) r = b"
| "set_ready c r = r"

definition health_after :: "app_call list \<Rightarrow> bool" where
  "health_after log = fold set_ready log False"

lemma fold_set_ready: "Ready True \<notin> set l \<Longrightarrow> \<not> fold set_ready l False"
proof (induction l)
  case (Cons a l)
  then show ?case by (cases a) auto
qed simp

lemma start_components_unready:
  "start_components ok is = (l, st, r) \<Longrightarrow>
     (\<forall>b. Ready b \<notin> set l) \<and> (r = None \<longrightarrow> l = map Started is \<and> st = is)"
  by (induction "is" arbitrary: l st r) (auto split: if_splits prod.splits)

lemma stop_components_unready: "stop_components res late is = (l, es, t) \<Longrightarrow> Ready b \<notin> set l"
  by (induction "is" arbitrary: late l es t) (auto split: if_splits prod.splits stop_result.splits)

lemma shutdown_unready: "shutdown v st = (l, es) \<Longrightarrow> Ready b \<notin> set l"
  using stop_components_unready
  by (fastforce simp: shutdown_def run_closers_def Let_def split: prod.splits option.splits http_end.splits if_splits)

lemma split_at_ready:
  assumes "a @ c = map Started is @ Ready True # r" and "Ready True \<in> set a"
  shows "\<exists>k. a = map Started is @ Ready True # k \<and> k @ c = r"
  using assms
proof (induction "is" arbitrary: a)
  case Nil
  then show ?case by (cases a) auto
next
  case (Cons i "is")
  then obtain a' where "a = Started i # a'" "a' @ c = map Started is @ Ready True # r" by (cases a) auto
  then show ?case using Cons by auto
qed

text \<open>
  C32. The readiness check tells the truth: at whatever moment of a run of the application it is asked,
  it answers 200 only when every component has been started and the shutdown has not begun; in every
  other moment, in a start that fails as well, it answers 503.
\<close>

theorem ready_only_while_serving:
  assumes "app_run has_grpc listens start_ok n serve_err v = (before @ later, errs)"
  shows "fst (health_answer (health_after before) ''/readyz'') = (if before = map Started [0..<n] @ [Ready True] then 200 else 503)"
proof -
  have ready: "health_after before = (before = map Started [0..<n] @ [Ready True])"
  proof (cases "Ready True \<in> set before")
    case False
    then show ?thesis using fold_set_ready by (auto simp: health_after_def)
  next
    case True
    obtain l st r where sc: "start_components start_ok [0..<n] = (l, st, r)" using prod_cases3 by blast
    obtain sl es where sd: "shutdown v st = (sl, es)" by fastforce
    note no = start_components_unready [OF sc] shutdown_unready [OF sd]
    have "Ready True \<in> set (before @ later)" using True by simp
    then have "Ready True \<in> set (fst (app_run has_grpc listens start_ok n serve_err v))" by (simp add: assms)
    then have "r = None" using no sc sd
      by (auto simp: app_run_def Let_def split: if_splits option.splits)
    then have log: "before @ later = map Started [0..<n] @ Ready True # Ready False # sl"
      using assms no sc sd True by (auto simp: app_run_def Let_def split: if_splits)
    have at: "fold set_ready (map Started [0..<n]) b = b" for b by (induction n arbitrary: b) simp_all
    obtain k where b: "before = map Started [0..<n] @ Ready True # k" and k: "k @ later = Ready False # sl"
      using split_at_ready [OF log] True by auto
    show ?thesis
    proof (cases k)
      case Nil
      then show ?thesis using at by (simp add: b health_after_def)
    next
      case (Cons x k')
      then have "x = Ready False" "Ready True \<notin> set k'" using k no(2) [of True] by auto
      then show ?thesis using Cons at fold_set_ready [of k'] by (simp add: b health_after_def)
    qed
  qed
  show ?thesis by (simp add: health_answer_def ready)
qed

theorem ready_only_while_serving_witness:
  "let v = \<lparr>sd_stop = (\<lambda>i. StopOk), sd_drains = True, sd_http = Some HttpOk, sd_closers = [True]\<rparr>;
       before = [Started 0, Started 1, Ready True]; later = [Ready False, Stopped 1, Stopped 0, Closer 0]
   in app_run True True (\<lambda>_. True) 2 False v = (before @ later, [])
    \<and> fst (health_answer (health_after before) ''/readyz'') = 200
    \<and> fst (health_answer (health_after (before @ [Ready False])) ''/readyz'') = 503"
proof -
  let ?v = "\<lparr>sd_stop = (\<lambda>i. StopOk), sd_drains = True, sd_http = Some HttpOk, sd_closers = [True]\<rparr>"
  let ?before = "[Started 0, Started 1, Ready True]" and ?later = "[Ready False, Stopped 1, Stopped 0, Closer 0]"
  have r: "app_run True True (\<lambda>_. True) 2 False ?v = (?before @ ?later, [])" by code_simp
  then have r2: "app_run True True (\<lambda>_. True) 2 False ?v = ((?before @ [Ready False]) @ [Stopped 1, Stopped 0, Closer 0], [])" by simp
  have u: "map Started [0..<2] = [Started 0, Started 1]" by code_simp
  show ?thesis
    using ready_only_while_serving [OF r] ready_only_while_serving [OF r2] r unfolding u by simp
qed

end
